(* ===== verification/Dpdk_Prelude.thy ===== *)
theory Dpdk_Prelude
  imports Main "HOL-Library.Word" "HOL-Library.Monad_Syntax"
begin

unbundle bit_operations_syntax

text \<open>
  Shared vocabulary of the development: the C integer types the sources use, the errno values
  they return, bounds-checked array accesses, and the facts about words, lists and options that
  several components need.  A C array access outside the array is undefined behaviour; here it is
  the value \<^const>\<open>None\<close>, so that a theorem that a function returns \<^const>\<open>Some\<close> also says that the
  function stays inside its arrays.
\<close>

section \<open>C types\<close>

type_synonym u8 = "8 word"
type_synonym u16 = "16 word"
type_synonym u32 = "32 word"
type_synonym u64 = "64 word"

text \<open>A pointer (\<open>void *\<close>, \<open>uintptr_t\<close>) is a 64-bit address; NULL is 0.\<close>

type_synonym ptr = "64 word"

section \<open>errno values of Linux (returned negated)\<close>

definition ENOENT :: int where "ENOENT = 2"
definition ENODEV :: int where "ENODEV = 19"
definition EINVAL :: int where "EINVAL = 22"
definition EOVERFLOW :: int where "EOVERFLOW = 75"
definition ENOTSUP :: int where "ENOTSUP = 95"
definition ENOBUFS :: int where "ENOBUFS = 105"

named_theorems errno_defs
declare ENOENT_def [errno_defs] ENODEV_def [errno_defs] EINVAL_def [errno_defs]
  EOVERFLOW_def [errno_defs] ENOTSUP_def [errno_defs] ENOBUFS_def [errno_defs]

section \<open>Bounds-checked arrays\<close>

definition arr_get :: "'a list \<Rightarrow> nat \<Rightarrow> 'a option" where
  "arr_get xs i = (if i < length xs then Some (xs ! i) else None)"

definition arr_set :: "'a list \<Rightarrow> nat \<Rightarrow> 'a \<Rightarrow> 'a list option" where
  "arr_set xs i x = (if i < length xs then Some (xs[i := x]) else None)"

lemma arr_get_in [simp]: "i < length xs \<Longrightarrow> arr_get xs i = Some (xs ! i)"
  by (simp add: arr_get_def)

lemma arr_get_out [simp]: "length xs \<le> i \<Longrightarrow> arr_get xs i = None"
  by (simp add: arr_get_def)

lemma arr_set_in [simp]: "i < length xs \<Longrightarrow> arr_set xs i x = Some (xs[i := x])"
  by (simp add: arr_set_def)

lemma arr_set_out [simp]: "length xs \<le> i \<Longrightarrow> arr_set xs i x = None"
  by (simp add: arr_set_def)

lemma arr_get_eq_Some: "arr_get xs i = Some x \<longleftrightarrow> i < length xs \<and> xs ! i = x"
  by (auto simp: arr_get_def)

section \<open>Words\<close>

text \<open>A mask of the form \<open>2 ^ k - 1\<close> is a remainder, on naturals and on words.\<close>

lemma nat_and_mask: "n AND (2 ^ k - 1) = n mod (2 ^ k :: nat)"
  by (metis mask_eq_exp_minus_1 take_bit_eq_mask take_bit_eq_mod)

lemma unat_and_mask: "unat (w AND (2 ^ k - 1)) = unat (w :: 'a :: len word) mod 2 ^ k"
  by (metis mask_eq_exp_minus_1 take_bit_eq_mask take_bit_eq_mod unsigned_take_bit_eq)

lemma nat_wrap_swap:
  "a \<noteq> b \<Longrightarrow> a < N \<Longrightarrow> b < N \<Longrightarrow>
   (if b \<le> a then a - b else a + N - b) = N - (if a \<le> b then b - a else b + N - (a :: nat))"
  by auto

lemma unat_minus_swap:
  "a \<noteq> b \<Longrightarrow> unat (a - b) = 2 ^ LENGTH('a) - unat (b - a :: 'a :: len word)"
proof -
  assume "a \<noteq> b"
  then have "unat a \<noteq> unat b" by (metis word_unat_eq_iff)
  moreover have "unat a < 2 ^ LENGTH('a)" by (rule unsigned_less)
  moreover have "unat b < 2 ^ LENGTH('a)" by (rule unsigned_less)
  ultimately show ?thesis
    unfolding unat_sub_if_size word_size by (rule nat_wrap_swap)
qed

lemma unat_add_small:
  "unat a + n < 2 ^ LENGTH('a) \<Longrightarrow> unat (a + of_nat n :: 'a :: len word) = unat a + n"
  by (simp add: unat_word_ariths unsigned_of_nat take_bit_eq_mod mod_simps)

text \<open>A flag of one bit is tested by that bit.\<close>

lemma bit_and_push_bit: "w AND push_bit n 1 \<noteq> 0 \<longleftrightarrow> bit w n" for w :: "'a :: len word"
proof -
  have "w AND push_bit n 1 = (if bit w n then push_bit n 1 else 0)"
    by (rule bit_word_eqI) (auto simp: bit_simps dest: bit_imp_le_length)
  moreover have "push_bit n 1 \<noteq> (0 :: 'a word)" if "bit w n"
    using that bit_imp_le_length [of w n] by (simp add: push_bit_eq_mult)
  ultimately show ?thesis by auto
qed

text \<open>A 32-bit \<open>int\<close>, read as signed.\<close>

lemma sint_small: "unat w < 2 ^ 31 \<Longrightarrow> sint (w :: u32) = int (unat w)"
proof -
  assume "unat w < 2 ^ 31"
  then have "int (unat w) < 2 ^ 31" by (metis of_nat_less_iff of_nat_numeral of_nat_power)
  then have "uint w < 2 ^ 31" by (simp only: uint_nat)
  moreover have "- (2 ^ 31) \<le> uint w" by (rule order_trans [of _ 0]) simp_all
  ultimately have "signed_take_bit 31 (uint w) = uint w" by (intro signed_take_bit_int_eq_self) simp_all
  then show ?thesis by (simp add: sint_uint)
qed

lemma sint_large: "2 ^ 31 \<le> unat w \<Longrightarrow> sint (w :: u32) < 0"
proof -
  assume "2 ^ 31 \<le> unat w"
  moreover have "unat w < 2 ^ LENGTH(32)" by (rule unsigned_less)
  ultimately have "unat w div 2 ^ 31 = 1" by (intro div_nat_eqI) simp_all
  then have "bit (unat w) 31" by (simp add: bit_iff_odd)
  then have "bit (uint w) 31" by (simp add: bit_unsigned_iff)
  then show ?thesis by (simp add: sint_uint)
qed

lemma sint_nonneg: "0 \<le> sint (w :: u32) \<Longrightarrow> sint w = int (unat w)"
  using sint_small [of w] sint_large [of w] by (cases "unat w < 2 ^ 31") auto

end
