(* ===== verification/Byte_Memory.thy ===== *)
theory Byte_Memory
  imports Dpdk_Prelude
begin

text \<open>
  Byte-addressed memory with 64-bit addresses, as the copy routines of \<open>src/src/ext/rte_memcpy.c\<close>
  see it.  An address is mapped or not; a load or store that touches an unmapped byte is the value
  \<^const>\<open>None\<close>.  \<open>copy_region\<close> is the specification of a copy; the lemma \<open>move_extends\<close> says that
  moving one block, aligned with a copy in progress, prolongs the copied prefix, and it is the only
  fact about memory that the proofs of the copy routines use.
\<close>

section \<open>Loads and stores\<close>

type_synonym memory = "ptr \<rightharpoonup> u8"

definition mapped :: "memory \<Rightarrow> ptr \<Rightarrow> nat \<Rightarrow> bool" where
  "mapped m p n \<longleftrightarrow> (\<forall>i<n. m (p + of_nat i) \<noteq> None)"

definition load :: "memory \<Rightarrow> ptr \<Rightarrow> nat \<Rightarrow> u8 list option" where
  "load m p k =
     (let bs = map (\<lambda>i. m (p + of_nat i)) [0..<k]
      in if list_all (\<lambda>b. b \<noteq> None) bs then Some (map the bs) else None)"

definition store :: "memory \<Rightarrow> ptr \<Rightarrow> u8 list \<Rightarrow> memory option" where
  "store m p bs =
     (if list_all (\<lambda>i. m (p + of_nat i) \<noteq> None) [0..<length bs]
      then Some (\<lambda>a. if unat (a - p) < length bs then Some (bs ! unat (a - p)) else m a)
      else None)"

definition move :: "nat \<Rightarrow> memory \<Rightarrow> ptr \<Rightarrow> ptr \<Rightarrow> memory option" where
  "move k m dst src = do { bs \<leftarrow> load m src k; store m dst bs }"

lemma load_mapped: "mapped m p k \<Longrightarrow> load m p k = Some (map (\<lambda>i. the (m (p + of_nat i))) [0..<k])"
  by (simp add: load_def mapped_def list_all_iff)

lemma load_SomeD: "load m p k = Some bs \<Longrightarrow> mapped m p k \<and> length bs = k"
  by (auto simp: load_def mapped_def list_all_iff split: if_splits)

lemma store_mapped:
  "mapped m p (length bs) \<Longrightarrow>
   store m p bs = Some (\<lambda>a. if unat (a - p) < length bs then Some (bs ! unat (a - p)) else m a)"
  by (simp add: store_def mapped_def list_all_iff)

lemma mapped_sub: "mapped m p n \<Longrightarrow> i + k \<le> n \<Longrightarrow> mapped m (p + of_nat i) k"
  unfolding mapped_def
proof (intro allI impI)
  fix j assume "\<forall>i<n. m (p + of_nat i) \<noteq> None" "i + k \<le> n" "j < k"
  then have "m (p + of_nat (i + j)) \<noteq> None" by (metis add_less_cancel_left less_le_trans)
  then show "m (p + of_nat i + of_nat j) \<noteq> None" by (simp add: add.assoc)
qed

lemma mapped_append: "mapped m p a \<Longrightarrow> mapped m (p + of_nat a) b \<Longrightarrow> mapped m p (a + b)"
  unfolding mapped_def
proof (intro allI impI)
  fix i assume *: "\<forall>i<a. m (p + of_nat i) \<noteq> None" "\<forall>i<b. m (p + of_nat a + of_nat i) \<noteq> None" "i < a + b"
  show "m (p + of_nat i) \<noteq> None"
  proof (cases "i < a")
    case False
    then have "p + of_nat i = p + of_nat a + of_nat (i - a)" by (simp add: of_nat_diff)
    moreover from * False have "m (p + of_nat a + of_nat (i - a)) \<noteq> None"
      by (metis less_diff_conv2 not_less add.commute)
    ultimately show ?thesis by metis
  qed (use * in simp)
qed

section \<open>The specification of a copy\<close>

text \<open>The regions of \<open>n\<close> bytes at \<open>d\<close> and at \<open>s\<close> do not overlap (address arithmetic wraps).\<close>

definition no_overlap :: "ptr \<Rightarrow> ptr \<Rightarrow> nat \<Rightarrow> bool" where
  "no_overlap d s n \<longleftrightarrow> n \<le> unat (d - s) \<and> n \<le> unat (s - d)"

text \<open>Memory after the \<open>n\<close> bytes at \<open>s\<close> have been copied to \<open>d\<close>, everything else unchanged.\<close>

definition copy_region :: "memory \<Rightarrow> ptr \<Rightarrow> ptr \<Rightarrow> nat \<Rightarrow> memory" where
  "copy_region m d s n = (\<lambda>a. if unat (a - d) < n then m (s + (a - d)) else m a)"

lemma copy_region_0 [simp]: "copy_region m d s 0 = m"
  by (simp add: copy_region_def)

lemma no_overlap_bound: "no_overlap d s n \<Longrightarrow> n < 2 ^ 64"
proof -
  assume "no_overlap d s n"
  moreover have "unat (d - s) < 2 ^ LENGTH(64)" by (rule unsigned_less)
  ultimately show ?thesis by (simp add: no_overlap_def)
qed

lemma no_overlap_apart:
  assumes "no_overlap d s n" "j < n"
  shows "n \<le> unat (s + of_nat j - d)"
proof (cases "s = d")
  case True
  with assms show ?thesis by (simp add: no_overlap_def)
next
  case False
  then have swap: "unat (d - s) = 2 ^ 64 - unat (s - d)"
    using unat_minus_swap [of d s] by auto
  have eq: "s + of_nat j - d = (s - d) + of_nat j" by simp
  from assms swap have "n \<le> 2 ^ 64 - unat (s - d)" "j < n" by (simp_all add: no_overlap_def)
  then have "unat (s - d) + j < 2 ^ 64" by linarith
  then have "unat (s - d) + j < 2 ^ LENGTH(64)" by simp
  then have "unat ((s - d) + of_nat j) = unat (s - d) + j" by (rule unat_add_small)
  with assms show ?thesis by (simp add: no_overlap_def eq)
qed

text \<open>The byte condition is the one of two disjoint sets of addresses.\<close>

lemma no_overlap_disjoint:
  assumes "no_overlap d s n" "i < n" "j < n"
  shows "d + of_nat i \<noteq> s + of_nat j"
proof
  assume "d + of_nat i = s + of_nat j"
  then have "s + of_nat j - d = of_nat i" by (metis add_diff_cancel_left')
  moreover have "unat (of_nat i :: ptr) = i"
    using assms(2) no_overlap_bound [OF assms(1)] by (simp add: unsigned_of_nat take_bit_eq_mod)
  ultimately show False using no_overlap_apart [OF assms(1,3)] assms(2) by simp
qed

lemma copy_source_unchanged:
  "no_overlap d s n \<Longrightarrow> j < n \<Longrightarrow> p \<le> n \<Longrightarrow> copy_region m d s p (s + of_nat j) = m (s + of_nat j)"
  using no_overlap_apart [of d s n j] by (simp add: copy_region_def)

lemma copy_target:
  assumes "no_overlap d s n" "i < n"
  shows "copy_region m d s n (d + of_nat i) = m (s + of_nat i)"
proof -
  have "unat (of_nat i :: ptr) = i"
    using assms(2) no_overlap_bound [OF assms(1)] by (simp add: unsigned_of_nat take_bit_eq_mod)
  with assms(2) show ?thesis by (simp add: copy_region_def)
qed

text \<open>What a caller of a copy routine has to guarantee.\<close>

definition copyable :: "memory \<Rightarrow> ptr \<Rightarrow> ptr \<Rightarrow> nat \<Rightarrow> bool" where
  "copyable m d s n \<longleftrightarrow> no_overlap d s n \<and> mapped m d n \<and> mapped m s n"

lemma mapped_copy:
  assumes "copyable m d s n" "p \<le> n" "mapped m a k"
  shows "mapped (copy_region m d s p) a k"
  unfolding mapped_def
proof (intro allI impI)
  fix i assume "i < k"
  show "copy_region m d s p (a + of_nat i) \<noteq> None"
  proof (cases "unat (a + of_nat i - d) < p")
    case True
    with assms(1,2) have "m (s + of_nat (unat (a + of_nat i - d))) \<noteq> None"
      unfolding copyable_def mapped_def by (metis less_le_trans)
    with True show ?thesis by (simp add: copy_region_def)
  next
    case False
    with assms(3) \<open>i < k\<close> show ?thesis by (simp add: copy_region_def mapped_def)
  qed
qed

text \<open>Loads from the source see the original bytes while the copy is in progress.\<close>

lemma load_during_copy:
  assumes "copyable m d s n" "p \<le> n" "i + k \<le> n"
  shows "load (copy_region m d s p) (s + of_nat i) k =
         Some (map (\<lambda>j. the (m (s + of_nat (i + j)))) [0..<k])"
proof -
  from assms have "mapped (copy_region m d s p) (s + of_nat i) k"
    by (intro mapped_copy [of _ _ _ n]) (auto simp: copyable_def intro: mapped_sub)
  moreover have "copy_region m d s p (s + of_nat i + of_nat j) = m (s + of_nat (i + j))" if "j < k" for j
    using copy_source_unchanged [of d s n "i + j" p m] assms that by (simp add: copyable_def add.assoc)
  ultimately show ?thesis by (simp add: load_mapped)
qed

text \<open>Storing the right bytes at the right place prolongs the copied prefix.\<close>

lemma store_during_copy:
  assumes c: "copyable m d s n" and "i \<le> p" "p \<le> n" "i + k \<le> n"
    and bs: "bs = map (\<lambda>j. the (m (s + of_nat (i + j)))) [0..<k]"
  shows "store (copy_region m d s p) (d + of_nat i) bs = Some (copy_region m d s (max p (i + k)))"
proof -
  from assms have "mapped (copy_region m d s p) (d + of_nat i) (length bs)"
    by (intro mapped_copy [of _ _ _ n]) (auto simp: copyable_def intro: mapped_sub)
  moreover have "(if unat (a - (d + of_nat i)) < length bs then Some (bs ! unat (a - (d + of_nat i)))
      else copy_region m d s p a) = copy_region m d s (max p (i + k)) a" for a
  proof -
    have small: "i + k < 2 ^ 64"
      using c assms(4) no_overlap_bound [of d s n] by (simp add: copyable_def)
    define x where "x = unat (a - d)"
    have a_d: "a - d = of_nat x" by (simp add: x_def)
    have x64: "x < 2 ^ LENGTH(64)" unfolding x_def by (rule unsigned_less)
    have region: "copy_region m d s q a = (if x < q then m (s + of_nat x) else m a)" for q
      by (simp add: copy_region_def x_def)
    show ?thesis
    proof (cases "i \<le> x")
      case True
      have "a - (d + of_nat i) = of_nat x - of_nat i" using a_d by (simp add: algebra_simps)
      also have "\<dots> = of_nat (x - i)" using True by simp
      finally have off: "unat (a - (d + of_nat i)) = x - i"
        using x64 by (simp add: unsigned_of_nat take_bit_eq_mod)
      show ?thesis
      proof (cases "x < i + k")
        case in_blk: True
        with c assms(4) have "m (s + of_nat x) \<noteq> None" by (simp add: copyable_def mapped_def)
        with True in_blk show ?thesis by (auto simp: off bs region)
      next
        case False
        then have "length bs \<le> x - i" using bs by simp
        with False show ?thesis by (simp add: off region less_max_iff_disj)
      qed
    next
      case False
      have "a - (d + of_nat i) = - (of_nat (i - x) :: ptr)"
        using False a_d by (simp add: algebra_simps)
      moreover have low: "unat (of_nat (i - x) :: ptr) = i - x"
        using small by (simp add: unsigned_of_nat take_bit_eq_mod)
      moreover from low have "0 \<noteq> (of_nat (i - x) :: ptr)"
        using False by (metis diff_is_0_eq unsigned_0)
      ultimately have off: "unat (a - (d + of_nat i)) = 2 ^ 64 - (i - x)"
        using unat_minus_swap [of "0 :: ptr" "of_nat (i - x)"] by simp
      from False small have "\<not> unat (a - (d + of_nat i)) < length bs"
        unfolding off using bs by simp
      moreover from False assms(2) have "x < p" by simp
      ultimately show ?thesis by (simp add: region less_max_iff_disj)
    qed
  qed
  ultimately show ?thesis by (simp add: store_mapped)
qed

section \<open>Block movers\<close>

text \<open>
  The contract of a routine that moves \<open>k\<close> bytes: called at offset \<open>i\<close> of a copy of which the
  first \<open>p\<close> bytes are done, it makes the first \<open>i + k\<close> bytes done too.  A block may start before the
  end of the copied prefix, as the overlapping last blocks of the copy routines do.
\<close>

definition block_mover :: "nat \<Rightarrow> (memory \<Rightarrow> ptr \<Rightarrow> ptr \<Rightarrow> memory option) \<Rightarrow> bool" where
  "block_mover k f \<longleftrightarrow> (\<forall>m d s n p i. copyable m d s n \<longrightarrow> i \<le> p \<longrightarrow> p \<le> n \<longrightarrow> i + k \<le> n \<longrightarrow>
     f (copy_region m d s p) (d + of_nat i) (s + of_nat i) = Some (copy_region m d s (max p (i + k))))"

lemma block_moverD:
  "block_mover k f \<Longrightarrow> copyable m d s n \<Longrightarrow> i \<le> p \<Longrightarrow> p \<le> n \<Longrightarrow> i + k \<le> n \<Longrightarrow>
   f (copy_region m d s p) (d + of_nat i) (s + of_nat i) = Some (copy_region m d s (max p (i + k)))"
  by (simp add: block_mover_def)

lemma block_mover_move: "block_mover k (move k)"
  unfolding block_mover_def
proof (intro allI impI)
  fix m d s n p i assume c: "copyable m d s n" "i \<le> p" "p \<le> n" "i + k \<le> n"
  then have "load (copy_region m d s p) (s + of_nat i) k =
      Some (map (\<lambda>j. the (m (s + of_nat (i + j)))) [0..<k])"
    by (intro load_during_copy [of _ _ _ n]) auto
  with store_during_copy [OF c refl]
  show "move k (copy_region m d s p) (d + of_nat i) (s + of_nat i)
    = Some (copy_region m d s (max p (i + k)))"
    by (simp add: move_def)
qed

text \<open>Two movers in sequence move the sum of their bytes.\<close>

lemma block_mover_seq:
  assumes "block_mover k f" "block_mover l g"
  shows "block_mover (k + l) (\<lambda>m d s. do { m' \<leftarrow> f m d s; g m' (d + of_nat k) (s + of_nat k) })"
  unfolding block_mover_def
proof (intro allI impI)
  fix m d s n p i assume c: "copyable m d s n" "i \<le> p" "p \<le> n" "i + (k + l) \<le> n"
  then have "f (copy_region m d s p) (d + of_nat i) (s + of_nat i)
      = Some (copy_region m d s (max p (i + k)))"
    by (intro block_moverD [OF assms(1)]) auto
  moreover have "g (copy_region m d s (max p (i + k))) (d + of_nat (i + k)) (s + of_nat (i + k))
      = Some (copy_region m d s (max (max p (i + k)) (i + k + l)))"
    using c by (intro block_moverD [OF assms(2)]) auto
  ultimately show "(f (copy_region m d s p) (d + of_nat i) (s + of_nat i) \<bind>
      (\<lambda>m'. g m' (d + of_nat i + of_nat k) (s + of_nat i + of_nat k)))
    = Some (copy_region m d s (max p (i + (k + l))))"
    by (simp add: add.assoc max.assoc)
qed

text \<open>The contract at the end of the prefix, and at a block that ends the copy.\<close>

lemma block_mover_next:
  "block_mover k f \<Longrightarrow> copyable m d s n \<Longrightarrow> i + k \<le> n \<Longrightarrow>
   f (copy_region m d s i) (d + of_nat i) (s + of_nat i) = Some (copy_region m d s (i + k))"
  using block_moverD [of k f m d s n i i] by simp

lemma block_mover_first:
  "block_mover k f \<Longrightarrow> copyable m d s n \<Longrightarrow> k \<le> n \<Longrightarrow> f m d s = Some (copy_region m d s k)"
  using block_mover_next [of k f m d s n 0] by simp

lemma back_pointer: "k \<le> i + r \<Longrightarrow> q + of_nat i - of_nat k + of_nat r = (q + of_nat (i + r - k) :: ptr)"
  by (simp add: of_nat_diff)

lemma block_mover_back:
  assumes "block_mover k f" "copyable m d s n" "k \<le> i + r" "i + r \<le> n" "p \<le> i + r" "i + r - k \<le> p"
  shows "f (copy_region m d s p) (d + of_nat i - of_nat k + of_nat r) (s + of_nat i - of_nat k + of_nat r)
    = Some (copy_region m d s (i + r))"
  using block_moverD [OF assms(1,2), of "i + r - k" p] assms
  by (simp only: back_pointer [OF assms(3)]) (simp add: max_def)

end
