(* ===== verification/Memcpy_Blocks.thy ===== *)
theory Memcpy_Blocks
  imports Byte_Memory
begin

text \<open>
  What the three implementations of \<open>rte_memcpy\<close> in \<open>src/src/ext/rte_memcpy.c\<close> share: the copy of
  fewer than 16 bytes by powers of two, unrolled calls of a smaller mover, a group of vector loads
  followed by the vector stores, and the loop over blocks of a fixed size.  Each is shown to be a
  block mover.  A \<open>size_t\<close> is a natural number: every subtraction of the sources is guarded by a
  comparison, except in the realignment step of the SSE code, which is written on 64-bit words.
\<close>

section \<open>The shapes of code\<close>

text \<open>One \<open>if (n & k)\<close> step of the small copy: a 1, 2, 4 or 8 byte assignment.\<close>

definition small_step :: "nat \<Rightarrow> nat \<Rightarrow> memory \<times> ptr \<times> ptr \<Rightarrow> (memory \<times> ptr \<times> ptr) option" where
  "small_step k n = (\<lambda>(m, dst, src).
     if n AND k \<noteq> 0 then do { m \<leftarrow> move k m dst src; Some (m, dst + of_nat k, src + of_nat k) }
     else Some (m, dst, src))"

definition copy_small :: "memory \<Rightarrow> ptr \<Rightarrow> ptr \<Rightarrow> nat \<Rightarrow> memory option" where
  "copy_small m dst src n = do {
     st \<leftarrow> small_step 1 n (m, dst, src);
     st \<leftarrow> small_step 2 n st;
     st \<leftarrow> small_step 4 n st;
     (m, dst, src) \<leftarrow> small_step 8 n st;
     Some m }"

text \<open>\<open>c\<close> calls of the mover \<open>f\<close> in sequence, \<open>k\<close> bytes apart.\<close>

primrec unrolled :: "nat \<Rightarrow> nat \<Rightarrow> (memory \<Rightarrow> ptr \<Rightarrow> ptr \<Rightarrow> memory option) \<Rightarrow>
    memory \<Rightarrow> ptr \<Rightarrow> ptr \<Rightarrow> memory option" where
  "unrolled 0 k f m dst src = Some m"
| "unrolled (Suc c) k f m dst src = do {
     m \<leftarrow> unrolled c k f m dst src; f m (dst + of_nat (c * k)) (src + of_nat (c * k)) }"

text \<open>\<open>c\<close> vector loads of \<open>w\<close> bytes into registers, then the \<open>c\<close> stores.\<close>

primrec load_vectors :: "nat \<Rightarrow> nat \<Rightarrow> memory \<Rightarrow> ptr \<Rightarrow> u8 list list option" where
  "load_vectors 0 w m src = Some []"
| "load_vectors (Suc c) w m src = do {
     zs \<leftarrow> load_vectors c w m src; z \<leftarrow> load m (src + of_nat (c * w)) w; Some (zs @ [z]) }"

primrec store_vectors :: "nat \<Rightarrow> nat \<Rightarrow> memory \<Rightarrow> ptr \<Rightarrow> u8 list list \<Rightarrow> memory option" where
  "store_vectors 0 w m dst zs = Some m"
| "store_vectors (Suc c) w m dst zs = do {
     m \<leftarrow> store_vectors c w m dst zs; store m (dst + of_nat (c * w)) (zs ! c) }"

definition vector_group :: "nat \<Rightarrow> nat \<Rightarrow> memory \<Rightarrow> ptr \<Rightarrow> ptr \<Rightarrow> memory option" where
  "vector_group c w m dst src = do {
     zs \<leftarrow> load_vectors c w m src; store_vectors c w m dst zs }"

text \<open>\<open>while (n >= k) { body; n -= k; src += k; dst += k; }\<close>, for a positive constant \<open>k\<close>.\<close>

fun block_loop :: "nat \<Rightarrow> (memory \<Rightarrow> ptr \<Rightarrow> ptr \<Rightarrow> memory option) \<Rightarrow>
    memory \<Rightarrow> ptr \<Rightarrow> ptr \<Rightarrow> nat \<Rightarrow> (memory \<times> ptr \<times> ptr \<times> nat) option" where
  "block_loop k f m dst src n =
     (if 0 < k \<and> k \<le> n then do {
        m \<leftarrow> f m dst src; block_loop k f m (dst + of_nat k) (src + of_nat k) (n - k) }
      else Some (m, dst, src, n))"

declare block_loop.simps [simp del]

text \<open>\<open>if (n >= k) { n -= k; f(dst, src); src += k; dst += k; }\<close>\<close>

definition opt_block :: "nat \<Rightarrow> (memory \<Rightarrow> ptr \<Rightarrow> ptr \<Rightarrow> memory option) \<Rightarrow>
    memory \<times> ptr \<times> ptr \<times> nat \<Rightarrow> (memory \<times> ptr \<times> ptr \<times> nat) option" where
  "opt_block k f = (\<lambda>(m, dst, src, n).
     if k \<le> n then do { m \<leftarrow> f m dst src; Some (m, dst + of_nat k, src + of_nat k, n - k) }
     else Some (m, dst, src, n))"

text \<open>
  The step that aligns the destination: \<open>dstofss = dst & mask; if (dstofss > 0) { dstofss = c -
  dstofss; n -= dstofss; f(dst, src); src += dstofss; dst += dstofss; }\<close>
\<close>

definition align_dst :: "ptr \<Rightarrow> nat \<Rightarrow> (memory \<Rightarrow> ptr \<Rightarrow> ptr \<Rightarrow> memory option) \<Rightarrow>
    memory \<times> ptr \<times> ptr \<times> nat \<Rightarrow> (memory \<times> ptr \<times> ptr \<times> nat) option" where
  "align_dst amask c f = (\<lambda>(m, dst, src, n).
     let dstofss = unat (dst AND amask) in
     if 0 < dstofss then do {
       let dstofss = c - dstofss;
       m \<leftarrow> f m dst src;
       Some (m, dst + of_nat dstofss, src + of_nat dstofss, n - dstofss) }
     else Some (m, dst, src, n))"

text \<open>
  After a call of a block-copying routine: \<open>bits = n; n = n & low; bits -= n; src += bits; dst +=
  bits;\<close>
\<close>

definition skip_blocks :: "nat \<Rightarrow> memory \<times> ptr \<times> ptr \<times> nat \<Rightarrow> memory \<times> ptr \<times> ptr \<times> nat" where
  "skip_blocks low = (\<lambda>(m, dst, src, n).
     let bits = n - (n AND low) in (m, dst + of_nat bits, src + of_nat bits, n AND low))"

section \<open>They prolong the copied prefix\<close>

definition bit_part :: "nat \<Rightarrow> nat \<Rightarrow> nat" where
  "bit_part n k = (if n AND k \<noteq> 0 then k else 0)"

lemma small_step_copy:
  "copyable m d s N \<Longrightarrow> i + bit_part n k \<le> N \<Longrightarrow>
   small_step k n (copy_region m d s i, d + of_nat i, s + of_nat i)
   = Some (copy_region m d s (i + bit_part n k), d + of_nat (i + bit_part n k),
           s + of_nat (i + bit_part n k))"
  using block_mover_next [OF block_mover_move, of m d s N i k]
  by (simp add: small_step_def bit_part_def add.assoc split: if_splits)

lemma bit_parts_sum:
  assumes "n < 16"
  shows "bit_part n 1 + bit_part n 2 + bit_part n 4 + bit_part n 8 = n"
proof -
  have upto: "[0..<16] = [0, 1, 2, 3, 4, 5, 6, 7, 8, 9, 10, 11, 12, 13, 14, 15]"
    by (simp add: upt_rec eval_nat_numeral)
  have "list_all (\<lambda>n. bit_part n 1 + bit_part n 2 + bit_part n 4 + bit_part n 8 = n) [0..<16]"
    unfolding upto by (simp add: bit_part_def)
  with assms show ?thesis by (simp add: list_all_iff)
qed

lemma copy_small_correct:
  assumes c: "copyable m d s n" and "n < 16"
  shows "copy_small m d s n = Some (copy_region m d s n)"
proof -
  note bits = bit_parts_sum [OF assms(2)]
  note step = small_step_copy [OF c]
  have 1: "small_step 1 n (m, d, s) =
      Some (copy_region m d s (bit_part n 1), d + of_nat (bit_part n 1), s + of_nat (bit_part n 1))"
    using step [of 0 n 1] bits by (simp del: One_nat_def)
  note 2 = step [of "bit_part n 1" n 2]
  note 4 = step [of "bit_part n 1 + bit_part n 2" n 4]
  note 8 = step [of "bit_part n 1 + bit_part n 2 + bit_part n 4" n 8]
  from bits show ?thesis
    unfolding copy_small_def by (simp add: 1 2 4 8 del: of_nat_add One_nat_def)
qed

lemma block_mover_unrolled: "block_mover k f \<Longrightarrow> block_mover (c * k) (unrolled c k f)"
proof (induction c)
  case 0
  then show ?case by (simp add: block_mover_def max_def)
next
  case (Suc c)
  then have "block_mover (c * k + k) (\<lambda>m d s. do {
      m' \<leftarrow> unrolled c k f m d s; f m' (d + of_nat (c * k)) (s + of_nat (c * k)) })"
    by (intro block_mover_seq) auto
  moreover have "unrolled (Suc c) k f = (\<lambda>m d s. do {
      m' \<leftarrow> unrolled c k f m d s; f m' (d + of_nat (c * k)) (s + of_nat (c * k)) })"
    by (intro ext) simp
  ultimately show ?case by (simp add: add.commute)
qed

lemma load_vectors_during_copy:
  assumes "copyable m d s n" "p \<le> n" "i + c * w \<le> n"
  shows "load_vectors c w (copy_region m d s p) (s + of_nat i) =
    Some (map (\<lambda>v. map (\<lambda>j. the (m (s + of_nat (i + v * w + j)))) [0..<w]) [0..<c])"
  using assms(3)
proof (induction c)
  case (Suc c)
  then have "load (copy_region m d s p) (s + of_nat (i + c * w)) w =
      Some (map (\<lambda>j. the (m (s + of_nat (i + c * w + j)))) [0..<w])"
    using assms(1,2) by (intro load_during_copy) auto
  with Suc show ?case by (simp add: add.assoc)
qed simp

lemma store_vectors_during_copy:
  assumes "copyable m d s n" "i \<le> p" "p \<le> n" "i + c * w \<le> n"
    and zs: "\<And>v. v < c \<Longrightarrow> zs ! v = map (\<lambda>j. the (m (s + of_nat (i + v * w + j)))) [0..<w]"
  shows "store_vectors c w (copy_region m d s p) (d + of_nat i) zs =
    Some (copy_region m d s (max p (i + c * w)))"
  using assms(4) zs
proof (induction c)
  case 0
  with assms(2) show ?case by (simp add: max_def)
next
  case (Suc c)
  have "store (copy_region m d s (max p (i + c * w))) (d + of_nat (i + c * w)) (zs ! c) =
      Some (copy_region m d s (max (max p (i + c * w)) (i + c * w + w)))"
    using Suc.prems assms(1,3) by (intro store_during_copy) auto
  with Suc show ?case by (simp add: add.assoc max.assoc add.commute [of w])
qed

lemma block_mover_vector_group: "block_mover (c * w) (vector_group c w)"
  unfolding block_mover_def vector_group_def
  by (auto simp: load_vectors_during_copy store_vectors_during_copy)

text \<open>The loop copies the whole blocks and leaves the remainder.\<close>

lemma block_loop_copy:
  assumes f: "block_mover k f" and "0 < k" and c: "copyable m d s N"
  shows "i \<le> p \<Longrightarrow> p \<le> N \<Longrightarrow> i + r \<le> N \<Longrightarrow>
    block_loop k f (copy_region m d s p) (d + of_nat i) (s + of_nat i) r =
    Some (copy_region m d s (max p (i + k * (r div k))), d + of_nat (i + k * (r div k)),
          s + of_nat (i + k * (r div k)), r mod k)"
proof (induction r arbitrary: i p rule: less_induct)
  case (less r)
  show ?case
  proof (cases "k \<le> r")
    case True
    have step: "f (copy_region m d s p) (d + of_nat i) (s + of_nat i)
        = Some (copy_region m d s (max p (i + k)))"
      using less.prems True by (intro block_moverD [OF f c]) auto
    have "block_loop k f (copy_region m d s (max p (i + k))) (d + of_nat (i + k)) (s + of_nat (i + k)) (r - k)
      = Some (copy_region m d s (max (max p (i + k)) (i + k + k * ((r - k) div k))),
          d + of_nat (i + k + k * ((r - k) div k)), s + of_nat (i + k + k * ((r - k) div k)), (r - k) mod k)"
      using less.prems True \<open>0 < k\<close> by (intro less.IH) auto
    moreover have "k + k * ((r - k) div k) = k * (r div k)" "(r - k) mod k = r mod k"
      using True \<open>0 < k\<close> by (simp_all add: le_div_geq le_mod_geq)
    then have "i + k + k * ((r - k) div k) = i + k * (r div k)"
      and "max (max p (i + k)) (i + k * (r div k)) = max p (i + k * (r div k))"
      and "(r - k) mod k = r mod k" by auto
    ultimately show ?thesis
      using True \<open>0 < k\<close> step by (simp add: block_loop.simps [of k f _ _ _ r] add.assoc [of _ "of_nat i"])
  next
    case False
    with less.prems show ?thesis by (simp add: block_loop.simps [of k f _ _ _ r] max_def)
  qed
qed

text \<open>
  A state of a copy of \<open>n\<close> bytes from \<open>s\<close> to \<open>d\<close>: the first \<open>p\<close> bytes are copied, the pointers are
  at offset \<open>i\<close> and \<open>r\<close> bytes are left to copy from there.
\<close>

definition copy_state :: "memory \<Rightarrow> ptr \<Rightarrow> ptr \<Rightarrow> nat \<Rightarrow> nat \<Rightarrow> nat \<Rightarrow> memory \<times> ptr \<times> ptr \<times> nat" where
  "copy_state m d s p i r = (copy_region m d s p, d + of_nat i, s + of_nat i, r)"

lemma copy_state_start: "(m, d, s, n) = copy_state m d s 0 0 n"
  by (simp add: copy_state_def)

lemma opt_block_copy:
  assumes "block_mover k f" "copyable m d s N" "i \<le> p" "p \<le> N" "i + r \<le> N" "k \<le> r"
  shows "opt_block k f (copy_state m d s p i r) = Some (copy_state m d s (max p (i + k)) (i + k) (r - k))"
  using block_moverD [OF assms(1,2), of i p] assms
  by (simp add: opt_block_def copy_state_def add.assoc)

lemma opt_block_skip: "r < k \<Longrightarrow> opt_block k f (copy_state m d s p i r) = Some (copy_state m d s p i r)"
  by (simp add: opt_block_def copy_state_def)

lemma align_dst_copy:
  assumes "block_mover b f" "copyable m d s N" "b \<le> N" "unat (d AND amask) \<noteq> 0"
  shows "align_dst amask c f (m, d, s, N) =
    Some (copy_state m d s b (c - unat (d AND amask)) (N - (c - unat (d AND amask))))"
  using block_mover_first [OF assms(1,2,3)] assms(4)
  by (simp add: align_dst_def copy_state_def Let_def unat_eq_zero)

lemma align_dst_skip: "unat (d AND amask) = 0 \<Longrightarrow> align_dst amask c f (m, d, s, N) = Some (m, d, s, N)"
  by (simp add: align_dst_def)

lemma skip_blocks_copy:
  "skip_blocks (2 ^ k - 1) (copy_region m d s p, d + of_nat i, s + of_nat i, r) =
   copy_state m d s p (i + 2 ^ k * (r div 2 ^ k)) (r mod 2 ^ k)"
proof -
  have "n - (n AND (2 ^ k - 1)) = 2 ^ k * (n div 2 ^ k)" for n :: nat
    by (simp only: nat_and_mask minus_mod_eq_mult_div)
  then show ?thesis
    by (simp only: skip_blocks_def copy_state_def nat_and_mask Let_def add.assoc of_nat_add split)
qed

end
