(* ===== verification/Memcpy_Avx512.thy ===== *)
theory Memcpy_Avx512
  imports Memcpy_Blocks
begin

text \<open>
  \<open>rte_memcpy_generic\<close> and its movers as compiled with \<open>RTE_MACHINE_CPUFLAG_AVX512F\<close>
  (\<open>src/src/ext/rte_memcpy.c\<close>): 64-byte registers, the destination aligned to 64 bytes above 512
  bytes, 512-byte and 128-byte loops, and a tail that reaches back up to 63 bytes.
\<close>

section \<open>The movers\<close>

definition rte_mov16_avx512 :: "memory \<Rightarrow> ptr \<Rightarrow> ptr \<Rightarrow> memory option" where
  "rte_mov16_avx512 = move 16"

definition rte_mov32_avx512 :: "memory \<Rightarrow> ptr \<Rightarrow> ptr \<Rightarrow> memory option" where
  "rte_mov32_avx512 = move 32"

definition rte_mov64_avx512 :: "memory \<Rightarrow> ptr \<Rightarrow> ptr \<Rightarrow> memory option" where
  "rte_mov64_avx512 = move 64"

definition rte_mov128_avx512 :: "memory \<Rightarrow> ptr \<Rightarrow> ptr \<Rightarrow> memory option" where
  "rte_mov128_avx512 = unrolled 2 64 rte_mov64_avx512"

definition rte_mov256_avx512 :: "memory \<Rightarrow> ptr \<Rightarrow> ptr \<Rightarrow> memory option" where
  "rte_mov256_avx512 = unrolled 4 64 rte_mov64_avx512"

definition rte_mov128blocks_avx512 :: "memory \<Rightarrow> ptr \<Rightarrow> ptr \<Rightarrow> nat \<Rightarrow> memory option" where
  "rte_mov128blocks_avx512 m dst src n =
     map_option fst (block_loop 128 (vector_group 2 64) m dst src n)"

definition rte_mov512blocks_avx512 :: "memory \<Rightarrow> ptr \<Rightarrow> ptr \<Rightarrow> nat \<Rightarrow> memory option" where
  "rte_mov512blocks_avx512 m dst src n =
     map_option fst (block_loop 512 (vector_group 8 64) m dst src n)"

section \<open>The copy\<close>

text \<open>The label \<open>COPY_BLOCK_128_BACK63\<close>.\<close>

definition copy_block_128_back63 :: "memory \<Rightarrow> ptr \<Rightarrow> ptr \<Rightarrow> nat \<Rightarrow> memory option" where
  "copy_block_128_back63 m dst src n =
     (if 64 < n then do {
        m \<leftarrow> rte_mov64_avx512 m dst src;
        rte_mov64_avx512 m (dst - 64 + of_nat n) (src - 64 + of_nat n) }
      else if 0 < n then rte_mov64_avx512 m (dst - 64 + of_nat n) (src - 64 + of_nat n)
      else Some m)"

definition rte_memcpy_generic_avx512 :: "memory \<Rightarrow> ptr \<Rightarrow> ptr \<Rightarrow> nat \<Rightarrow> memory option" where
  "rte_memcpy_generic_avx512 m dst src n =
     (if n < 16 then copy_small m dst src n
      else if n \<le> 32 then do {
        m \<leftarrow> rte_mov16_avx512 m dst src;
        rte_mov16_avx512 m (dst - 16 + of_nat n) (src - 16 + of_nat n) }
      else if n \<le> 64 then do {
        m \<leftarrow> rte_mov32_avx512 m dst src;
        rte_mov32_avx512 m (dst - 32 + of_nat n) (src - 32 + of_nat n) }
      else if n \<le> 512 then do {
        st \<leftarrow> opt_block 256 rte_mov256_avx512 (m, dst, src, n);
        (m, dst, src, n) \<leftarrow> opt_block 128 rte_mov128_avx512 st;
        copy_block_128_back63 m dst src n }
      else do {
        (m, dst, src, n) \<leftarrow> align_dst 0x3F 64 rte_mov64_avx512 (m, dst, src, n);
        m \<leftarrow> rte_mov512blocks_avx512 m dst src n;
        let (m, dst, src, n) = skip_blocks 511 (m, dst, src, n);
        (m, dst, src, n) \<leftarrow>
          (if 128 \<le> n then do {
             m \<leftarrow> rte_mov128blocks_avx512 m dst src n;
             Some (skip_blocks 127 (m, dst, src, n)) }
           else Some (m, dst, src, n));
        copy_block_128_back63 m dst src n })"

section \<open>Correctness\<close>

lemma movers_avx512:
  "block_mover 16 rte_mov16_avx512" "block_mover 32 rte_mov32_avx512"
  "block_mover 64 rte_mov64_avx512" "block_mover 128 rte_mov128_avx512"
  "block_mover 256 rte_mov256_avx512"
proof -
  show 64: "block_mover 64 rte_mov64_avx512"
    by (simp add: rte_mov64_avx512_def block_mover_move)
  show "block_mover 16 rte_mov16_avx512" "block_mover 32 rte_mov32_avx512"
    by (simp_all add: rte_mov16_avx512_def rte_mov32_avx512_def block_mover_move)
  show "block_mover 128 rte_mov128_avx512" "block_mover 256 rte_mov256_avx512"
    using block_mover_unrolled [OF 64, of 2] block_mover_unrolled [OF 64, of 4]
    by (simp_all add: rte_mov128_avx512_def rte_mov256_avx512_def)
qed

lemma groups_avx512: "block_mover 128 (vector_group 2 64)" "block_mover 512 (vector_group 8 64)"
  using block_mover_vector_group [of 2 64] block_mover_vector_group [of 8 64] by simp_all

lemma mov_blocks_avx512:
  assumes "copyable m d s N" "i \<le> p" "p \<le> N" "i + r \<le> N"
  shows "rte_mov128blocks_avx512 (copy_region m d s p) (d + of_nat i) (s + of_nat i) r =
      Some (copy_region m d s (max p (i + 128 * (r div 128))))"
    and "rte_mov512blocks_avx512 (copy_region m d s p) (d + of_nat i) (s + of_nat i) r =
      Some (copy_region m d s (max p (i + 512 * (r div 512))))"
  using block_loop_copy [OF groups_avx512(1) _ assms] block_loop_copy [OF groups_avx512(2) _ assms]
  by (simp_all add: rte_mov128blocks_avx512_def rte_mov512blocks_avx512_def)

lemma back63_copy:
  assumes c: "copyable m d s N" and "i \<le> p" "p \<le> i + n" "i + n \<le> N" "n \<le> 128" "64 \<le> i + n"
  shows "copy_block_128_back63 (copy_region m d s p) (d + of_nat i) (s + of_nat i) n =
    Some (copy_region m d s (i + n))"
proof (cases "64 < n")
  case True
  have "rte_mov64_avx512 (copy_region m d s p) (d + of_nat i) (s + of_nat i)
      = Some (copy_region m d s (max p (i + 64)))"
    using assms True by (intro block_moverD [OF movers_avx512(3) c]) auto
  moreover have "rte_mov64_avx512 (copy_region m d s (max p (i + 64)))
      (d + of_nat i - of_nat 64 + of_nat n) (s + of_nat i - of_nat 64 + of_nat n)
      = Some (copy_region m d s (i + n))"
    using assms True by (intro block_mover_back [OF movers_avx512(3) c]) auto
  ultimately show ?thesis using True by (simp add: copy_block_128_back63_def)
next
  case False
  have "rte_mov64_avx512 (copy_region m d s p)
      (d + of_nat i - of_nat 64 + of_nat n) (s + of_nat i - of_nat 64 + of_nat n)
      = Some (copy_region m d s (i + n))"
    using assms False by (intro block_mover_back [OF movers_avx512(3) c]) auto
  with False assms(2,3) show ?thesis by (cases "n = 0") (simp_all add: copy_block_128_back63_def)
qed

text \<open>The two ways out of the large copy, as a function of the state they start from.\<close>

lemma tail512_copy:
  assumes c: "copyable m d s N" and "i \<le> p" "p \<le> 64" "i + n = N" "448 < n"
  shows "(case copy_state m d s p i n of (m, dst, src, n) \<Rightarrow> do {
        m \<leftarrow> rte_mov512blocks_avx512 m dst src n;
        let (m, dst, src, n) = skip_blocks 511 (m, dst, src, n);
        (m, dst, src, n) \<leftarrow>
          (if 128 \<le> n then do {
             m \<leftarrow> rte_mov128blocks_avx512 m dst src n;
             Some (skip_blocks 127 (m, dst, src, n)) }
           else Some (m, dst, src, n));
        copy_block_128_back63 m dst src n }) = Some (copy_region m d s N)"
proof -
  define j where "j = i + 512 * (n div 512)"
  define q where "q = max p j"
  define r where "r = n mod 512"
  define l where "l = j + 128 * (r div 128)"
  have jr: "j + r = N" "r < 512" "i \<le> j" using assms(4) by (auto simp: j_def r_def)
  have lr: "l + r mod 128 = N" "j \<le> l" using jr by (auto simp: l_def)
  have q: "j \<le> q" "q \<le> N" "q \<le> max 64 j" using assms(2-5) jr by (auto simp: q_def)
  have 1: "rte_mov512blocks_avx512 (copy_region m d s p) (d + of_nat i) (s + of_nat i) n
      = Some (copy_region m d s q)"
    using assms by (simp add: mov_blocks_avx512(2) [OF c] q_def j_def del: of_nat_add)
  have skip1: "skip_blocks 511 (copy_region m d s q, d + of_nat i, s + of_nat i, n) = copy_state m d s q j r"
    using skip_blocks_copy [of 9 m d s q i n] by (simp add: j_def r_def)
  show ?thesis
  proof (cases "128 \<le> r")
    case True
    then have "1 \<le> r div 128" by auto
    then have l: "128 \<le> l" by (simp add: l_def)
    have 2: "rte_mov128blocks_avx512 (copy_region m d s q) (d + of_nat j) (s + of_nat j) r
        = Some (copy_region m d s (max q l))"
      using q jr by (simp add: mov_blocks_avx512(1) [OF c] l_def)
    have skip2: "skip_blocks 127 (copy_region m d s (max q l), d + of_nat j, s + of_nat j, r)
        = copy_state m d s (max q l) l (r mod 128)"
      using skip_blocks_copy [of 7 m d s "max q l" j r] by (simp add: l_def)
    have "max q l \<le> l + r mod 128" using q lr by simp
    moreover have "64 \<le> l + r mod 128" "r mod 128 \<le> 128" using l by simp_all
    ultimately have "copy_block_128_back63 (copy_region m d s (max q l)) (d + of_nat l) (s + of_nat l) (r mod 128)
        = Some (copy_region m d s (l + r mod 128))"
      using lr by (intro back63_copy [OF c]) auto
    then show ?thesis
      using True lr by (simp add: copy_state_def [of _ _ _ p] 1 skip1 copy_state_def [of _ _ _ q] 2 skip2
          copy_state_def [of _ _ _ "max q l"])
  next
    case False
    have "64 \<le> N" using assms(4,5) by simp
    with False jr q have "copy_block_128_back63 (copy_region m d s q) (d + of_nat j) (s + of_nat j) r
        = Some (copy_region m d s (j + r))"
      by (intro back63_copy [OF c]) auto
    with False jr show ?thesis
      by (simp add: copy_state_def [of _ _ _ p] 1 skip1 copy_state_def [of _ _ _ q])
  qed
qed

lemma rte_memcpy_generic_avx512_copy:
  assumes c: "copyable m d s n"
  shows "rte_memcpy_generic_avx512 m d s n = Some (copy_region m d s n)"
proof -
  note mv = movers_avx512
  consider "n < 16" | "16 \<le> n" "n \<le> 32" | "32 < n" "n \<le> 64" | "64 < n" "n \<le> 512" | "512 < n"
    by linarith
  then show ?thesis
  proof cases
    case 1
    then show ?thesis by (simp add: rte_memcpy_generic_avx512_def copy_small_correct [OF c])
  next
    case 2
    with block_mover_first [OF mv(1) c] block_mover_back [OF mv(1) c, of 0 n 16] show ?thesis
      by (simp add: rte_memcpy_generic_avx512_def)
  next
    case 3
    with block_mover_first [OF mv(2) c] block_mover_back [OF mv(2) c, of 0 n 32] show ?thesis
      by (simp add: rte_memcpy_generic_avx512_def)
  next
    case 4
    define i where "i = (if 256 \<le> n then 256 else (0::nat))"
    define j where "j = i + (if 128 \<le> n - i then 128 else (0::nat))"
    have b: "i \<le> n" "j \<le> n" "i \<le> j" "n - j \<le> 128" using 4 by (auto simp: i_def j_def)
    have "opt_block 256 rte_mov256_avx512 (m, d, s, n) = Some (copy_state m d s i i (n - i))"
      using opt_block_copy [OF mv(5) c, of 0 0 n] opt_block_skip [of n 256]
      by (auto simp: i_def copy_state_start)
    moreover have "opt_block 128 rte_mov128_avx512 (copy_state m d s i i (n - i))
        = Some (copy_state m d s j j (n - j))"
      using opt_block_copy [OF mv(4) c, of i i "n - i"] opt_block_skip [of "n - i" 128] b
      by (auto simp: j_def)
    moreover have "copy_block_128_back63 (copy_region m d s j) (d + of_nat j) (s + of_nat j) (n - j)
        = Some (copy_region m d s (j + (n - j)))"
      using b 4 by (intro back63_copy [OF c]) auto
    ultimately show ?thesis
      using 4 b by (simp add: rte_memcpy_generic_avx512_def copy_state_def)
  next
    case 5
    define ofs where "ofs = unat (d AND 0x3F)"
    have ofs: "ofs < 64" using unat_and_mask [of d 6] by (simp add: ofs_def)
    have al: "align_dst 0x3F 64 rte_mov64_avx512 (m, d, s, n) =
        Some (if ofs = 0 then copy_state m d s 0 0 n else copy_state m d s 64 (64 - ofs) (n - (64 - ofs)))"
      using align_dst_copy [OF mv(3) c, of "0x3F" 64] align_dst_skip [of d "0x3F"] 5
      by (auto simp: ofs_def copy_state_start)
    show ?thesis
    proof (cases "ofs = 0")
      case True
      with tail512_copy [OF c, of 0 0 n] al 5 show ?thesis
        by (simp add: rte_memcpy_generic_avx512_def copy_state_def)
    next
      case False
      with tail512_copy [OF c, of "64 - ofs" 64 "n - (64 - ofs)"] al 5 ofs show ?thesis
        by (simp add: rte_memcpy_generic_avx512_def copy_state_def)
    qed
  qed
qed

end
