(* ===== verification/Memcpy_Avx2.thy ===== *)
theory Memcpy_Avx2
  imports Memcpy_Blocks
begin

text \<open>
  \<open>rte_memcpy_generic\<close> and its movers as compiled with \<open>RTE_MACHINE_CPUFLAG_AVX2\<close>
  (\<open>src/src/ext/rte_memcpy.c\<close>): 32-byte registers, the destination aligned to 32 bytes above 256
  bytes, a 128-byte loop, and a tail that reaches back up to 31 bytes.
\<close>

section \<open>The movers\<close>

definition rte_mov16_avx2 :: "memory \<Rightarrow> ptr \<Rightarrow> ptr \<Rightarrow> memory option" where
  "rte_mov16_avx2 = move 16"

definition rte_mov32_avx2 :: "memory \<Rightarrow> ptr \<Rightarrow> ptr \<Rightarrow> memory option" where
  "rte_mov32_avx2 = move 32"

definition rte_mov64_avx2 :: "memory \<Rightarrow> ptr \<Rightarrow> ptr \<Rightarrow> memory option" where
  "rte_mov64_avx2 = unrolled 2 32 rte_mov32_avx2"

definition rte_mov128_avx2 :: "memory \<Rightarrow> ptr \<Rightarrow> ptr \<Rightarrow> memory option" where
  "rte_mov128_avx2 = unrolled 4 32 rte_mov32_avx2"

definition rte_mov128blocks_avx2 :: "memory \<Rightarrow> ptr \<Rightarrow> ptr \<Rightarrow> nat \<Rightarrow> memory option" where
  "rte_mov128blocks_avx2 m dst src n =
     map_option fst (block_loop 128 (vector_group 4 32) m dst src n)"

section \<open>The copy\<close>

text \<open>The label \<open>COPY_BLOCK_128_BACK31\<close>.\<close>

definition copy_block_128_back31 :: "memory \<Rightarrow> ptr \<Rightarrow> ptr \<Rightarrow> nat \<Rightarrow> memory option" where
  "copy_block_128_back31 m dst src n = do {
     (m, dst, src, n) \<leftarrow> opt_block 64 rte_mov64_avx2 (m, dst, src, n);
     if 32 < n then do {
       m \<leftarrow> rte_mov32_avx2 m dst src;
       rte_mov32_avx2 m (dst - 32 + of_nat n) (src - 32 + of_nat n) }
     else if 0 < n then rte_mov32_avx2 m (dst - 32 + of_nat n) (src - 32 + of_nat n)
     else Some m }"

definition rte_memcpy_generic_avx2 :: "memory \<Rightarrow> ptr \<Rightarrow> ptr \<Rightarrow> nat \<Rightarrow> memory option" where
  "rte_memcpy_generic_avx2 m dst src n =
     (if n < 16 then copy_small m dst src n
      else if n \<le> 32 then do {
        m \<leftarrow> rte_mov16_avx2 m dst src;
        rte_mov16_avx2 m (dst - 16 + of_nat n) (src - 16 + of_nat n) }
      else if n \<le> 48 then do {
        m \<leftarrow> rte_mov16_avx2 m dst src;
        m \<leftarrow> rte_mov16_avx2 m (dst + 16) (src + 16);
        rte_mov16_avx2 m (dst - 16 + of_nat n) (src - 16 + of_nat n) }
      else if n \<le> 64 then do {
        m \<leftarrow> rte_mov32_avx2 m dst src;
        rte_mov32_avx2 m (dst - 32 + of_nat n) (src - 32 + of_nat n) }
      else if n \<le> 256 then do {
        (m, dst, src, n) \<leftarrow> opt_block 128 rte_mov128_avx2 (m, dst, src, n);
        copy_block_128_back31 m dst src n }
      else do {
        (m, dst, src, n) \<leftarrow> align_dst 0x1F 32 rte_mov32_avx2 (m, dst, src, n);
        m \<leftarrow> rte_mov128blocks_avx2 m dst src n;
        let (m, dst, src, n) = skip_blocks 127 (m, dst, src, n);
        copy_block_128_back31 m dst src n })"

section \<open>Correctness\<close>

lemma movers_avx2:
  "block_mover 16 rte_mov16_avx2" "block_mover 32 rte_mov32_avx2"
  "block_mover 64 rte_mov64_avx2" "block_mover 128 rte_mov128_avx2"
proof -
  show 32: "block_mover 32 rte_mov32_avx2"
    by (simp add: rte_mov32_avx2_def block_mover_move)
  show "block_mover 16 rte_mov16_avx2"
    by (simp add: rte_mov16_avx2_def block_mover_move)
  show "block_mover 64 rte_mov64_avx2" "block_mover 128 rte_mov128_avx2"
    using block_mover_unrolled [OF 32, of 2] block_mover_unrolled [OF 32, of 4]
    by (simp_all add: rte_mov64_avx2_def rte_mov128_avx2_def)
qed

lemma group_avx2: "block_mover 128 (vector_group 4 32)"
  using block_mover_vector_group [of 4 32] by simp

lemma mov_blocks_avx2:
  assumes "copyable m d s N" "i \<le> p" "p \<le> N" "i + r \<le> N"
  shows "rte_mov128blocks_avx2 (copy_region m d s p) (d + of_nat i) (s + of_nat i) r =
      Some (copy_region m d s (max p (i + 128 * (r div 128))))"
  using block_loop_copy [OF group_avx2 _ assms] by (simp add: rte_mov128blocks_avx2_def)

text \<open>The last 64 bytes, reaching back.\<close>

lemma last64_avx2_copy:
  assumes c: "copyable m d s N" and "i \<le> p" "p \<le> i + n" "i + n \<le> N" "n \<le> 64" "32 \<le> i + n"
  shows "(if 32 < n then do {
       m \<leftarrow> rte_mov32_avx2 (copy_region m d s p) (d + of_nat i) (s + of_nat i);
       rte_mov32_avx2 m (d + of_nat i - 32 + of_nat n) (s + of_nat i - 32 + of_nat n) }
     else if 0 < n then rte_mov32_avx2 (copy_region m d s p)
       (d + of_nat i - 32 + of_nat n) (s + of_nat i - 32 + of_nat n)
     else Some (copy_region m d s p)) = Some (copy_region m d s (i + n))"
proof (cases "32 < n")
  case True
  have "rte_mov32_avx2 (copy_region m d s p) (d + of_nat i) (s + of_nat i)
      = Some (copy_region m d s (max p (i + 32)))"
    using assms True by (intro block_moverD [OF movers_avx2(2) c]) auto
  moreover have "rte_mov32_avx2 (copy_region m d s (max p (i + 32)))
      (d + of_nat i - of_nat 32 + of_nat n) (s + of_nat i - of_nat 32 + of_nat n)
      = Some (copy_region m d s (i + n))"
    using assms True by (intro block_mover_back [OF movers_avx2(2) c]) auto
  ultimately show ?thesis using True by simp
next
  case False
  have "rte_mov32_avx2 (copy_region m d s p)
      (d + of_nat i - of_nat 32 + of_nat n) (s + of_nat i - of_nat 32 + of_nat n)
      = Some (copy_region m d s (i + n))"
    using assms False by (intro block_mover_back [OF movers_avx2(2) c]) auto
  with False assms(2,3) show ?thesis by (cases "n = 0") simp_all
qed

lemma back31_copy:
  assumes c: "copyable m d s N" and "i \<le> p" "p \<le> i + n" "i + n \<le> N" "n \<le> 128" "32 \<le> i + n"
  shows "copy_block_128_back31 (copy_region m d s p) (d + of_nat i) (s + of_nat i) n =
    Some (copy_region m d s (i + n))"
proof (cases "64 \<le> n")
  case True
  then have "opt_block 64 rte_mov64_avx2 (copy_state m d s p i n) =
      Some (copy_state m d s (max p (i + 64)) (i + 64) (n - 64))"
    using assms by (intro opt_block_copy [OF movers_avx2(3) c]) auto
  with last64_avx2_copy [OF c, of "i + 64" "max p (i + 64)" "n - 64"] assms True show ?thesis
    by (simp add: copy_block_128_back31_def copy_state_def del: of_nat_add)
next
  case False
  with last64_avx2_copy [OF c, of i p n] opt_block_skip [of n 64 rte_mov64_avx2] assms show ?thesis
    by (simp add: copy_block_128_back31_def copy_state_def del: of_nat_add)
qed

lemma rte_memcpy_generic_avx2_copy:
  assumes c: "copyable m d s n"
  shows "rte_memcpy_generic_avx2 m d s n = Some (copy_region m d s n)"
proof -
  note mv = movers_avx2
  consider "n < 16" | "16 \<le> n" "n \<le> 32" | "32 < n" "n \<le> 48" | "48 < n" "n \<le> 64"
    | "64 < n" "n \<le> 256" | "256 < n"
    by linarith
  then show ?thesis
  proof cases
    case 1
    then show ?thesis by (simp add: rte_memcpy_generic_avx2_def copy_small_correct [OF c])
  next
    case 2
    with block_mover_first [OF mv(1) c] block_mover_back [OF mv(1) c, of 0 n 16] show ?thesis
      by (simp add: rte_memcpy_generic_avx2_def)
  next
    case 3
    with block_mover_first [OF mv(1) c] block_mover_next [OF mv(1) c, of 16]
      block_mover_back [OF mv(1) c, of 0 n 32]
    show ?thesis by (simp add: rte_memcpy_generic_avx2_def)
  next
    case 4
    with block_mover_first [OF mv(2) c] block_mover_back [OF mv(2) c, of 0 n 32] show ?thesis
      by (simp add: rte_memcpy_generic_avx2_def)
  next
    case 5
    define i where "i = (if 128 \<le> n then 128 else (0::nat))"
    have b: "i \<le> n" "n - i \<le> 128" using 5 by (auto simp: i_def)
    have "opt_block 128 rte_mov128_avx2 (m, d, s, n) = Some (copy_state m d s i i (n - i))"
      using opt_block_copy [OF mv(4) c, of 0 0 n] opt_block_skip [of n 128]
      by (auto simp: i_def copy_state_start)
    with back31_copy [OF c, of i i "n - i"] 5 b show ?thesis
      by (simp add: rte_memcpy_generic_avx2_def copy_state_def)
  next
    case 6
    define ofs where "ofs = unat (d AND 0x1F)"
    have ofs: "ofs < 32" using unat_and_mask [of d 5] by (simp add: ofs_def)
    define i where "i = (if ofs = 0 then 0 else 32 - ofs)"
    define p where "p = (if ofs = 0 then 0 else (32 :: nat))"
    define r where "r = n - i"
    have ip: "i \<le> p" "p \<le> 32" "i + r = n" using 6 ofs by (auto simp: i_def p_def r_def)
    have al: "align_dst 0x1F 32 rte_mov32_avx2 (m, d, s, n) = Some (copy_state m d s p i r)"
      using align_dst_copy [OF mv(2) c, of "0x1F" 32] align_dst_skip [of d "0x1F"] 6
      by (auto simp: ofs_def i_def p_def r_def copy_state_start)
    define j where "j = i + 128 * (r div 128)"
    have j: "j + r mod 128 = n" "i \<le> j" using ip by (simp_all add: j_def)
    have "rte_mov128blocks_avx2 (copy_region m d s p) (d + of_nat i) (s + of_nat i) r
        = Some (copy_region m d s (max p j))"
      using ip 6 by (simp add: mov_blocks_avx2 [OF c] j_def del: of_nat_add)
    moreover have "skip_blocks 127 (copy_region m d s (max p j), d + of_nat i, s + of_nat i, r)
        = copy_state m d s (max p j) j (r mod 128)"
      using skip_blocks_copy [of 7 m d s "max p j" i r] by (simp add: j_def)
    moreover have "r mod 128 \<le> 128" by simp
    then have "copy_block_128_back31 (copy_region m d s (max p j)) (d + of_nat j) (s + of_nat j) (r mod 128)
        = Some (copy_region m d s (j + r mod 128))"
      using ip j 6 by (intro back31_copy [OF c]) auto
    ultimately show ?thesis
      using 6 al j by (simp add: rte_memcpy_generic_avx2_def copy_state_def)
  qed
qed

end
