(* ===== verification/Memcpy_Sse.thy ===== *)
theory Memcpy_Sse
  imports Memcpy_Blocks
begin

text \<open>
  \<open>rte_memcpy_generic\<close> and its movers as compiled for SSE (\<open>src/src/ext/rte_memcpy.c\<close>, the last
  branch of the \<open>#if\<close>): 16-byte registers, the destination aligned to 16 bytes above 512 bytes, then
  either 256-byte blocks (source aligned too) or the realigning copy \<open>MOVEUNALIGNED_LEFT47\<close>, which
  loads aligned vectors that begin up to 15 bytes before the source position and shifts pairs of
  them together.  Those bytes before the source must be readable; the precondition
  \<open>line_mapped\<close> says so, and it is needed only when the destination is already aligned.
\<close>

section \<open>The movers\<close>

definition rte_mov16_sse :: "memory \<Rightarrow> ptr \<Rightarrow> ptr \<Rightarrow> memory option" where
  "rte_mov16_sse = move 16"

definition rte_mov32_sse :: "memory \<Rightarrow> ptr \<Rightarrow> ptr \<Rightarrow> memory option" where
  "rte_mov32_sse = unrolled 2 16 rte_mov16_sse"

definition rte_mov64_sse :: "memory \<Rightarrow> ptr \<Rightarrow> ptr \<Rightarrow> memory option" where
  "rte_mov64_sse = unrolled 4 16 rte_mov16_sse"

definition rte_mov128_sse :: "memory \<Rightarrow> ptr \<Rightarrow> ptr \<Rightarrow> memory option" where
  "rte_mov128_sse = unrolled 8 16 rte_mov16_sse"

definition rte_mov256_sse :: "memory \<Rightarrow> ptr \<Rightarrow> ptr \<Rightarrow> memory option" where
  "rte_mov256_sse = unrolled 16 16 rte_mov16_sse"

section \<open>The realigning copy\<close>

text \<open>\<open>_mm_alignr_epi8(hi, lo, k)\<close>: bytes \<open>k\<close> to \<open>k + 15\<close> of the 32 bytes \<open>lo\<close> followed by \<open>hi\<close>.\<close>

definition alignr :: "u8 list \<Rightarrow> u8 list \<Rightarrow> nat \<Rightarrow> u8 list" where
  "alignr hi lo k = take 16 (drop k (lo @ hi))"

text \<open>\<open>c + 1\<close> loads from \<open>src - offset\<close>, then \<open>c\<close> stores of shifted pairs.\<close>

definition unaligned_group :: "nat \<Rightarrow> nat \<Rightarrow> memory \<Rightarrow> ptr \<Rightarrow> ptr \<Rightarrow> memory option" where
  "unaligned_group c offset m dst src = do {
     xmm \<leftarrow> load_vectors (Suc c) 16 m (src - of_nat offset);
     store_vectors c 16 m dst (map (\<lambda>j. alignr (xmm ! Suc j) (xmm ! j) offset) [0..<c]) }"

text \<open>\<open>while (len >= t) { body; len -= k; src += k; dst += k; }\<close>, with \<open>0 < k \<le> t\<close>.\<close>

fun threshold_loop :: "nat \<Rightarrow> nat \<Rightarrow> (memory \<Rightarrow> ptr \<Rightarrow> ptr \<Rightarrow> memory option) \<Rightarrow>
    memory \<times> ptr \<times> ptr \<times> nat \<Rightarrow> (memory \<times> ptr \<times> ptr \<times> nat) option" where
  "threshold_loop t k f (m, dst, src, len) =
     (if 0 < k \<and> k \<le> t \<and> t \<le> len then do {
        m \<leftarrow> f m dst src; threshold_loop t k f (m, dst + of_nat k, src + of_nat k, len - k) }
      else Some (m, dst, src, len))"

declare threshold_loop.simps [simp del]

text \<open>
  \<open>int tmp; tmp = len; len = ((len - 16 + offset) & low) + 16 - offset; tmp -= len; src += tmp; dst
  += tmp;\<close> with the conversions between \<open>size_t\<close> and \<open>int\<close> of the source.
\<close>

definition realign :: "u64 \<Rightarrow> nat \<Rightarrow> memory \<times> ptr \<times> ptr \<times> nat \<Rightarrow> memory \<times> ptr \<times> ptr \<times> nat" where
  "realign low offset = (\<lambda>(m, dst, src, n).
     let len = (of_nat n :: u64);
         tmp = (ucast len :: 32 word);
         len' = ((len - 16 + of_nat offset) AND low) + 16 - of_nat offset;
         tmp' = (ucast ((scast tmp :: u64) - len') :: 32 word)
     in (m, dst + scast tmp', src + scast tmp', unat len'))"

definition moveunaligned_left47_imm :: "nat \<Rightarrow>
    memory \<times> ptr \<times> ptr \<times> nat \<Rightarrow> (memory \<times> ptr \<times> ptr \<times> nat) option" where
  "moveunaligned_left47_imm offset st = do {
     st \<leftarrow> threshold_loop (128 + 16 - offset) 128 (unaligned_group 8 offset) st;
     let (m, dst, src, len) = realign 127 offset st;
     if 32 + 16 - offset \<le> len then do {
       st \<leftarrow> threshold_loop (32 + 16 - offset) 32 (unaligned_group 2 offset) (m, dst, src, len);
       Some (realign 31 offset st) }
     else Some (m, dst, src, len) }"

text \<open>The macro's \<open>switch\<close> over the 15 immediate offsets, with an empty default.\<close>

definition moveunaligned_left47 :: "nat \<Rightarrow>
    memory \<times> ptr \<times> ptr \<times> nat \<Rightarrow> (memory \<times> ptr \<times> ptr \<times> nat) option" where
  "moveunaligned_left47 offset st =
     (if 1 \<le> offset \<and> offset \<le> 15 then moveunaligned_left47_imm offset st else Some st)"

section \<open>The copy\<close>

text \<open>The labels \<open>COPY_BLOCK_64_BACK15\<close>, \<open>COPY_BLOCK_128_BACK15\<close> and \<open>COPY_BLOCK_255_BACK15\<close>.\<close>

definition copy_block_64_back15 :: "memory \<times> ptr \<times> ptr \<times> nat \<Rightarrow> memory option" where
  "copy_block_64_back15 st = do {
     (m, dst, src, n) \<leftarrow> opt_block 32 rte_mov32_sse st;
     if 16 < n then do {
       m \<leftarrow> rte_mov16_sse m dst src;
       rte_mov16_sse m (dst - 16 + of_nat n) (src - 16 + of_nat n) }
     else if 0 < n then rte_mov16_sse m (dst - 16 + of_nat n) (src - 16 + of_nat n)
     else Some m }"

definition copy_block_128_back15 :: "memory \<times> ptr \<times> ptr \<times> nat \<Rightarrow> memory option" where
  "copy_block_128_back15 st = do {
     st \<leftarrow> opt_block 64 rte_mov64_sse st; copy_block_64_back15 st }"

definition copy_block_255_back15 :: "memory \<times> ptr \<times> ptr \<times> nat \<Rightarrow> memory option" where
  "copy_block_255_back15 st = do {
     st \<leftarrow> opt_block 128 rte_mov128_sse st; copy_block_128_back15 st }"

definition rte_memcpy_generic_sse :: "memory \<Rightarrow> ptr \<Rightarrow> ptr \<Rightarrow> nat \<Rightarrow> memory option" where
  "rte_memcpy_generic_sse m dst src n =
     (if n < 16 then copy_small m dst src n
      else if n \<le> 32 then do {
        m \<leftarrow> rte_mov16_sse m dst src;
        rte_mov16_sse m (dst - 16 + of_nat n) (src - 16 + of_nat n) }
      else if n \<le> 48 then do {
        m \<leftarrow> rte_mov32_sse m dst src;
        rte_mov16_sse m (dst - 16 + of_nat n) (src - 16 + of_nat n) }
      else if n \<le> 64 then do {
        m \<leftarrow> rte_mov32_sse m dst src;
        m \<leftarrow> rte_mov16_sse m (dst + 32) (src + 32);
        rte_mov16_sse m (dst - 16 + of_nat n) (src - 16 + of_nat n) }
      else if n \<le> 128 then copy_block_128_back15 (m, dst, src, n)
      else if n \<le> 512 then do {
        st \<leftarrow> opt_block 256 (unrolled 2 128 rte_mov128_sse) (m, dst, src, n);
        copy_block_255_back15 st }
      else do {
        (m, dst, src, n) \<leftarrow> align_dst 0x0F (16 + 16) rte_mov32_sse (m, dst, src, n);
        let srcofs = unat (src AND 0x0F);
        if srcofs = 0 then do {
          st \<leftarrow> block_loop 256 rte_mov256_sse m dst src n;
          copy_block_255_back15 st }
        else do {
          st \<leftarrow> moveunaligned_left47 srcofs (m, dst, src, n);
          copy_block_64_back15 st } })"

section \<open>The movers and the tails are correct\<close>

lemma movers_sse:
  "block_mover 16 rte_mov16_sse" "block_mover 32 rte_mov32_sse" "block_mover 64 rte_mov64_sse"
  "block_mover 128 rte_mov128_sse" "block_mover 256 rte_mov256_sse"
  "block_mover 256 (unrolled 2 128 rte_mov128_sse)"
proof -
  show 16: "block_mover 16 rte_mov16_sse"
    by (simp add: rte_mov16_sse_def block_mover_move)
  show "block_mover 32 rte_mov32_sse" "block_mover 64 rte_mov64_sse" "block_mover 256 rte_mov256_sse"
    using block_mover_unrolled [OF 16, of 2] block_mover_unrolled [OF 16, of 4]
      block_mover_unrolled [OF 16, of 16]
    by (simp_all add: rte_mov32_sse_def rte_mov64_sse_def rte_mov256_sse_def)
  show 128: "block_mover 128 rte_mov128_sse"
    using block_mover_unrolled [OF 16, of 8] by (simp add: rte_mov128_sse_def)
  show "block_mover 256 (unrolled 2 128 rte_mov128_sse)"
    using block_mover_unrolled [OF 128, of 2] by simp
qed

lemma last32_sse_copy:
  assumes c: "copyable m d s N" and "i \<le> p" "p \<le> i + n" "i + n \<le> N" "n \<le> 32" "16 \<le> i + n"
  shows "(if 16 < n then do {
       m \<leftarrow> rte_mov16_sse (copy_region m d s p) (d + of_nat i) (s + of_nat i);
       rte_mov16_sse m (d + of_nat i - 16 + of_nat n) (s + of_nat i - 16 + of_nat n) }
     else if 0 < n then rte_mov16_sse (copy_region m d s p)
       (d + of_nat i - 16 + of_nat n) (s + of_nat i - 16 + of_nat n)
     else Some (copy_region m d s p)) = Some (copy_region m d s (i + n))"
proof (cases "16 < n")
  case True
  have "rte_mov16_sse (copy_region m d s p) (d + of_nat i) (s + of_nat i)
      = Some (copy_region m d s (max p (i + 16)))"
    using assms True by (intro block_moverD [OF movers_sse(1) c]) auto
  moreover have "rte_mov16_sse (copy_region m d s (max p (i + 16)))
      (d + of_nat i - of_nat 16 + of_nat n) (s + of_nat i - of_nat 16 + of_nat n)
      = Some (copy_region m d s (i + n))"
    using assms True by (intro block_mover_back [OF movers_sse(1) c]) auto
  ultimately show ?thesis using True by simp
next
  case False
  have "rte_mov16_sse (copy_region m d s p)
      (d + of_nat i - of_nat 16 + of_nat n) (s + of_nat i - of_nat 16 + of_nat n)
      = Some (copy_region m d s (i + n))"
    using assms False by (intro block_mover_back [OF movers_sse(1) c]) auto
  with False assms(2,3) show ?thesis by (cases "n = 0") simp_all
qed

lemma back15_64_copy:
  assumes c: "copyable m d s N" and "i \<le> p" "p \<le> i + n" "i + n \<le> N" "n \<le> 64" "16 \<le> i + n"
  shows "copy_block_64_back15 (copy_state m d s p i n) = Some (copy_region m d s (i + n))"
proof (cases "32 \<le> n")
  case True
  then have "opt_block 32 rte_mov32_sse (copy_state m d s p i n) =
      Some (copy_state m d s (max p (i + 32)) (i + 32) (n - 32))"
    using assms by (intro opt_block_copy [OF movers_sse(2) c]) auto
  with last32_sse_copy [OF c, of "i + 32" "max p (i + 32)" "n - 32"] assms True show ?thesis
    by (simp add: copy_block_64_back15_def copy_state_def del: of_nat_add)
next
  case False
  with last32_sse_copy [OF c, of i p n] opt_block_skip [of n 32 rte_mov32_sse] assms show ?thesis
    by (simp add: copy_block_64_back15_def copy_state_def del: of_nat_add)
qed

lemma back15_128_copy:
  assumes c: "copyable m d s N" and "i \<le> p" "p \<le> i + n" "i + n \<le> N" "n \<le> 128" "16 \<le> i + n"
  shows "copy_block_128_back15 (copy_state m d s p i n) = Some (copy_region m d s (i + n))"
proof (cases "64 \<le> n")
  case True
  then have "opt_block 64 rte_mov64_sse (copy_state m d s p i n) =
      Some (copy_state m d s (max p (i + 64)) (i + 64) (n - 64))"
    using assms by (intro opt_block_copy [OF movers_sse(3) c]) auto
  with back15_64_copy [OF c, of "i + 64" "max p (i + 64)" "n - 64"] assms True show ?thesis
    by (simp add: copy_block_128_back15_def)
next
  case False
  with back15_64_copy [OF c, of i p n] opt_block_skip [of n 64 rte_mov64_sse] assms show ?thesis
    by (simp add: copy_block_128_back15_def)
qed

lemma back15_255_copy:
  assumes c: "copyable m d s N" and "i \<le> p" "p \<le> i + n" "i + n \<le> N" "n \<le> 256" "16 \<le> i + n"
  shows "copy_block_255_back15 (copy_state m d s p i n) = Some (copy_region m d s (i + n))"
proof (cases "128 \<le> n")
  case True
  then have "opt_block 128 rte_mov128_sse (copy_state m d s p i n) =
      Some (copy_state m d s (max p (i + 128)) (i + 128) (n - 128))"
    using assms by (intro opt_block_copy [OF movers_sse(4) c]) auto
  with back15_128_copy [OF c, of "i + 128" "max p (i + 128)" "n - 128"] assms True show ?thesis
    by (simp add: copy_block_255_back15_def)
next
  case False
  with back15_128_copy [OF c, of i p n] opt_block_skip [of n 128 rte_mov128_sse] assms show ?thesis
    by (simp add: copy_block_255_back15_def)
qed

section \<open>The realigning copy is correct\<close>

lemma load_vectors_mapped:
  "mapped m b (c * w) \<Longrightarrow> load_vectors c w m b =
    Some (map (\<lambda>v. map (\<lambda>j. the (m (b + of_nat (v * w + j)))) [0..<w]) [0..<c])"
proof (induction c)
  case (Suc c)
  then have "mapped m b (c * w)" and "mapped m (b + of_nat (c * w)) w"
    using mapped_sub [of m b "Suc c * w" "c * w" w] by (auto simp: mapped_def)
  with Suc.IH show ?case by (simp add: load_mapped add.assoc)
qed simp

lemma alignr_map:
  assumes "k \<le> 16"
  shows "alignr (map (\<lambda>j. g (16 + b + j)) [0..<16]) (map (\<lambda>j. g (b + j)) [0..<16]) k =
    map (\<lambda>j. g (b + (k + j))) [0..<16]"
proof (rule nth_equalityI)
  fix j assume "j < length (alignr (map (\<lambda>j. g (16 + b + j)) [0..<16]) (map (\<lambda>j. g (b + j)) [0..<16]) k)"
  with assms show "alignr (map (\<lambda>j. g (16 + b + j)) [0..<16]) (map (\<lambda>j. g (b + j)) [0..<16]) k ! j =
      map (\<lambda>j. g (b + (k + j))) [0..<16] ! j"
    by (auto simp: alignr_def nth_append add.commute add.left_commute)
qed (use assms in \<open>simp add: alignr_def\<close>)

lemma unaligned_group_copy:
  assumes c: "copyable m d s N" and p: "i \<le> p" "p \<le> N" and off: "off \<le> 16"
    and N: "i + (16 * Suc c - off) \<le> N" and margin: "mapped m (s + of_nat i - of_nat off) off"
  shows "unaligned_group c off (copy_region m d s p) (d + of_nat i) (s + of_nat i) =
    Some (copy_region m d s (max p (i + c * 16)))"
proof -
  define M where "M = copy_region m d s p"
  define b where "b = s + of_nat i - of_nat off"
  define g where "g x = the (M (b + of_nat x))" for x
  define xmm where "xmm = map (\<lambda>v. map (\<lambda>j. g (v * 16 + j)) [0..<16]) [0..<Suc c]"
  have "mapped m (s + of_nat i) (16 * Suc c - off)"
    using c N by (intro mapped_sub [of _ _ N]) (auto simp: copyable_def)
  with margin have "mapped m b (off + (16 * Suc c - off))"
    by (intro mapped_append) (simp_all add: b_def)
  with off have "mapped m b (Suc c * 16)" by (simp add: mult.commute)
  then have "mapped M b (Suc c * 16)"
    unfolding M_def using c p by (intro mapped_copy [of _ _ _ N])
  then have loads: "load_vectors (Suc c) 16 M b = Some xmm"
    using load_vectors_mapped [of M b "Suc c" 16] by (simp add: xmm_def g_def)
  have src: "g (off + x) = the (m (s + of_nat (i + x)))" if "i + x < N" for x
    using copy_source_unchanged [of d s N "i + x" p m] c p that
    by (simp add: g_def M_def b_def copyable_def add.commute add.left_commute)
  have "store_vectors c 16 M (d + of_nat i) (map (\<lambda>j. alignr (xmm ! Suc j) (xmm ! j) off) [0..<c]) =
      Some (copy_region m d s (max p (i + c * 16)))"
    unfolding M_def
  proof (rule store_vectors_during_copy [OF c p])
    show "i + c * 16 \<le> N" using N off by simp
    fix v assume v: "v < c"
    have "xmm ! u = map (\<lambda>j. g (u * 16 + j)) [0..<16]" if "u < Suc c" for u
      using that by (simp add: xmm_def del: upt_Suc)
    with alignr_map [OF off, of g "v * 16"] v
    have "alignr (xmm ! Suc v) (xmm ! v) off = map (\<lambda>j. g (v * 16 + (off + j))) [0..<16]"
      by (simp add: add.commute)
    also have "\<dots> = map (\<lambda>j. the (m (s + of_nat (i + v * 16 + j)))) [0..<16]"
    proof (rule map_cong [OF refl])
      fix j assume "j \<in> set [0..<16]"
      then have "i + (v * 16 + j) < N" using v N off by auto
      moreover have "v * 16 + (off + j) = off + (v * 16 + j)" "i + v * 16 + j = i + (v * 16 + j)"
        by simp_all
      ultimately show "g (v * 16 + (off + j)) = the (m (s + of_nat (i + v * 16 + j)))"
        using src by metis
    qed
    finally show "map (\<lambda>j. alignr (xmm ! Suc j) (xmm ! j) off) [0..<c] ! v =
        map (\<lambda>j. the (m (s + of_nat (i + v * 16 + j)))) [0..<16]"
      using v by simp
  qed
  with loads show ?thesis by (simp add: unaligned_group_def M_def [symmetric] b_def [symmetric])
qed

lemma threshold_loop_copy:
  assumes k: "0 < k" "k \<le> t"
    and step: "\<And>i p. low \<le> i \<Longrightarrow> i \<le> p \<Longrightarrow> p \<le> N \<Longrightarrow> i + t \<le> N \<Longrightarrow>
      f (copy_region m d s p) (d + of_nat i) (s + of_nat i) = Some (copy_region m d s (max p (i + k)))"
  shows "low \<le> i \<Longrightarrow> i \<le> p \<Longrightarrow> p \<le> N \<Longrightarrow> i + r = N \<Longrightarrow> t - k \<le> r \<Longrightarrow>
    \<exists>j r'. threshold_loop t k f (copy_state m d s p i r) = Some (copy_state m d s (max p j) j r') \<and>
      i \<le> j \<and> j + r' = N \<and> t - k \<le> r' \<and> r' < t"
proof (induction r arbitrary: i p rule: less_induct)
  case (less r)
  show ?case
  proof (cases "t \<le> r")
    case True
    from less.prems True have f: "f (copy_region m d s p) (d + of_nat i) (s + of_nat i)
        = Some (copy_region m d s (max p (i + k)))"
      by (intro step) auto
    have "\<exists>j r'. threshold_loop t k f (copy_state m d s (max p (i + k)) (i + k) (r - k))
        = Some (copy_state m d s (max (max p (i + k)) j) j r') \<and>
        i + k \<le> j \<and> j + r' = N \<and> t - k \<le> r' \<and> r' < t"
      using less.prems True k by (intro less.IH) auto
    then obtain j r' where rec: "threshold_loop t k f (copy_state m d s (max p (i + k)) (i + k) (r - k))
        = Some (copy_state m d s (max (max p (i + k)) j) j r')"
      and jr: "i + k \<le> j" "j + r' = N" "t - k \<le> r'" "r' < t" by blast
    from jr(1) have "max (max p (i + k)) j = max p j" by simp
    with rec True k f have "threshold_loop t k f (copy_state m d s p i r)
        = Some (copy_state m d s (max p j) j r')"
      by (simp add: copy_state_def threshold_loop.simps [of t k f _ _ _ r] add.assoc)
    with jr show ?thesis by (intro exI [of _ j] exI [of _ r']) auto
  next
    case False
    with less.prems have "threshold_loop t k f (copy_state m d s p i r) = Some (copy_state m d s (max p i) i r)"
      by (simp add: copy_state_def threshold_loop.simps [of t k f _ _ _ r] max_def)
    with less.prems False show ?thesis by (intro exI [of _ i] exI [of _ r]) auto
  qed
qed

text \<open>After the loops the realignment of \<open>len\<close> changes nothing.\<close>

lemma realign_id:
  assumes "16 \<le> n + off" "n + off < 16 + 2 ^ k" "k \<le> 7" "off \<le> 16"
  shows "realign (2 ^ k - 1) off (m, dst, src, n) = (m, dst, src, n)"
proof -
  have k: "(2::nat) ^ k \<le> 2 ^ 7" using assms(3) by (intro power_increasing) auto
  then have n: "n < 144" using assms by simp
  have "(of_nat n - 16 + of_nat off :: u64) = of_nat (n + off - 16)"
    using assms(1) by (simp add: of_nat_diff algebra_simps)
  moreover have "unat (of_nat (n + off - 16) :: u64) = n + off - 16"
    using n assms(4) by (simp add: unsigned_of_nat take_bit_eq_mod)
  moreover have "(n + off - 16) mod 2 ^ k = n + off - 16"
    using assms(1,2) by (intro mod_less) linarith
  ultimately have "unat ((of_nat n - 16 + of_nat off :: u64) AND (2 ^ k - 1)) = n + off - 16"
    by (simp only: unat_and_mask)
  then have "of_nat (unat ((of_nat n - 16 + of_nat off :: u64) AND (2 ^ k - 1)))
      = (of_nat (n + off - 16) :: u64)"
    by (rule arg_cong)
  then have "(of_nat n - 16 + of_nat off :: u64) AND (2 ^ k - 1) = of_nat (n + off - 16)"
    by (simp only: of_nat_unat ucast_id)
  then have len: "((of_nat n - 16 + of_nat off :: u64) AND (2 ^ k - 1)) + 16 - of_nat off = of_nat n"
    using assms(1) by (simp add: of_nat_diff)
  have "signed_take_bit 31 (int n) = int n"
    using n by (intro signed_take_bit_int_eq_self) auto
  then have "(scast (ucast (of_nat n :: u64) :: 32 word) :: u64) = of_nat n"
    using n by (simp add: unsigned_of_nat signed_of_nat take_bit_eq_mod)
  moreover have "unat (of_nat n :: u64) = n"
    using n by (simp add: unsigned_of_nat take_bit_eq_mod)
  ultimately show ?thesis by (simp add: realign_def Let_def len)
qed

lemma moveunaligned_copy:
  assumes c: "copyable m d s N" and p: "i \<le> p" "p \<le> N" "i + r = N" and off: "1 \<le> off" "off \<le> 15"
    and r: "16 - off \<le> r" and margin: "mapped m (s + of_nat i - of_nat off) off"
  shows "\<exists>j r'. moveunaligned_left47 off (copy_state m d s p i r) = Some (copy_state m d s (max p j) j r') \<and>
    i \<le> j \<and> j + r' = N \<and> r' < 48"
proof -
  have "mapped m (s + of_nat i) (N - i)"
    using c p by (intro mapped_sub [of _ _ N]) (auto simp: copyable_def)
  with margin have all: "mapped m (s + of_nat i - of_nat off) (off + (N - i))"
    by (intro mapped_append) simp_all
  have margins: "mapped m (s + of_nat k - of_nat off) off" if "i \<le> k" "k \<le> N" for k
  proof -
    have "s + of_nat k - of_nat off = s + of_nat i - of_nat off + of_nat (k - i)"
      using that by (simp add: of_nat_diff)
    moreover have "k - i + off \<le> off + (N - i)" using that by simp
    ultimately show ?thesis using mapped_sub [OF all] by metis
  qed
  have step8: "unaligned_group 8 off (copy_region m d s q) (d + of_nat k) (s + of_nat k)
      = Some (copy_region m d s (max q (k + 128)))"
    if "i \<le> k" "k \<le> q" "q \<le> N" "k + (128 + 16 - off) \<le> N" for k q
    using unaligned_group_copy [OF c that(2,3), of off 8] that off margins [of k] by simp
  have step2: "unaligned_group 2 off (copy_region m d s q) (d + of_nat k) (s + of_nat k)
      = Some (copy_region m d s (max q (k + 32)))"
    if "i \<le> k" "k \<le> q" "q \<le> N" "k + (32 + 16 - off) \<le> N" for k q
    using unaligned_group_copy [OF c that(2,3), of off 2] that off margins [of k] by simp
  have "\<exists>j r'. threshold_loop (128 + 16 - off) 128 (unaligned_group 8 off) (copy_state m d s p i r)
      = Some (copy_state m d s (max p j) j r') \<and>
      i \<le> j \<and> j + r' = N \<and> 128 + 16 - off - 128 \<le> r' \<and> r' < 128 + 16 - off"
    using p off r by (intro threshold_loop_copy [where low = i] step8) auto
  then obtain j r' where 1: "threshold_loop (128 + 16 - off) 128 (unaligned_group 8 off) (copy_state m d s p i r)
      = Some (copy_state m d s (max p j) j r')"
    and jr: "i \<le> j" "j + r' = N" "16 - off \<le> r'" "r' < 144 - off" by auto
  have id1: "realign 127 off (copy_state m d s q k r') = copy_state m d s q k r'" for q k
    using realign_id [of r' off 7] jr off by (simp add: copy_state_def)
  show ?thesis
  proof (cases "48 - off \<le> r'")
    case True
    have "\<exists>l r''. threshold_loop (32 + 16 - off) 32 (unaligned_group 2 off) (copy_state m d s (max p j) j r')
      = Some (copy_state m d s (max (max p j) l) l r'') \<and>
      j \<le> l \<and> l + r'' = N \<and> 32 + 16 - off - 32 \<le> r'' \<and> r'' < 32 + 16 - off"
      using p off jr by (intro threshold_loop_copy [where low = i] step2) auto
    then obtain l r'' where 2: "threshold_loop (32 + 16 - off) 32 (unaligned_group 2 off)
          (copy_state m d s (max p j) j r') = Some (copy_state m d s (max (max p j) l) l r'')"
      and lr: "j \<le> l" "l + r'' = N" "16 - off \<le> r''" "r'' < 48 - off" by auto
    have id2: "realign 31 off (copy_state m d s q k r'') = copy_state m d s q k r''" for q k
      using realign_id [of r'' off 5] lr off by (simp add: copy_state_def)
    have "max (max p j) l = max p l" using lr by simp
    with 1 2 True have "moveunaligned_left47 off (copy_state m d s p i r) = Some (copy_state m d s (max p l) l r'')"
      using off by (simp add: moveunaligned_left47_def moveunaligned_left47_imm_def id1)
        (simp add: copy_state_def id2 [unfolded copy_state_def])
    with lr jr show ?thesis by (intro exI [of _ l] exI [of _ r'']) auto
  next
    case False
    with 1 off have "moveunaligned_left47 off (copy_state m d s p i r) = Some (copy_state m d s (max p j) j r')"
      by (simp add: moveunaligned_left47_def moveunaligned_left47_imm_def id1) (simp add: copy_state_def)
    with jr False show ?thesis by (intro exI [of _ j] exI [of _ r']) auto
  qed
qed

section \<open>The copy is correct\<close>

text \<open>The bytes before \<open>src\<close> in its 16-byte line can be read.\<close>

definition line_mapped :: "memory \<Rightarrow> ptr \<Rightarrow> bool" where
  "line_mapped m src \<longleftrightarrow> mapped m (src - (src AND 0x0F)) (unat (src AND 0x0F))"

lemma unat_low4: "unat (x AND 15 :: ptr) < 16"
  using unat_and_mask [of x 4] by simp

lemma large_sse_copy:
  assumes c: "copyable m d s N" and p: "i \<le> p" "p \<le> 32" "i + r = N" "480 \<le> r"
    and margin: "i = 0 \<and> line_mapped m s \<or> 16 \<le> i"
  shows "(case copy_state m d s p i r of (m, dst, src, n) \<Rightarrow>
      (let srcofs = unat (src AND 0x0F) in
       if srcofs = 0 then do {
         st \<leftarrow> block_loop 256 rte_mov256_sse m dst src n; copy_block_255_back15 st }
       else do {
         st \<leftarrow> moveunaligned_left47 srcofs (m, dst, src, n); copy_block_64_back15 st }))
    = Some (copy_region m d s N)"
proof -
  define off where "off = unat ((s + of_nat i) AND 15)"
  show ?thesis
  proof (cases "off = 0")
    case True
    define j where "j = i + 256 * (r div 256)"
    have j: "i \<le> j" "j + r mod 256 = N" using p by (simp_all add: j_def)
    have "block_loop 256 rte_mov256_sse (copy_region m d s p) (d + of_nat i) (s + of_nat i) r
        = Some (copy_state m d s (max p j) j (r mod 256))"
      using block_loop_copy [OF movers_sse(5) _ c, of i p r] p by (simp add: copy_state_def j_def)
    moreover have "r mod 256 \<le> 256" by simp
    then have "copy_block_255_back15 (copy_state m d s (max p j) j (r mod 256))
        = Some (copy_region m d s (j + r mod 256))"
      using p j by (intro back15_255_copy [OF c]) auto
    ultimately show ?thesis using True j by (simp add: copy_state_def [of _ _ _ p] off_def Let_def)
  next
    case False
    have off: "off \<le> 15" using unat_low4 [of "s + of_nat i"] by (simp add: off_def)
    have "mapped m (s + of_nat i - of_nat off) off"
    proof (cases "i = 0")
      case True
      with margin show ?thesis by (simp add: line_mapped_def off_def)
    next
      case False
      with margin off have "s + of_nat i - of_nat off = s + of_nat (i - off)" "i - off + off \<le> N"
        using p by (auto simp: of_nat_diff)
      moreover from this(2) c have "mapped m (s + of_nat (i - off)) off"
        by (intro mapped_sub [of m s N]) (simp_all add: copyable_def)
      ultimately show ?thesis by metis
    qed
    moreover have "1 \<le> off" "p \<le> N" "16 - off \<le> r" using False p by auto
    ultimately obtain j r' where
      mv: "moveunaligned_left47 off (copy_state m d s p i r) = Some (copy_state m d s (max p j) j r')"
      and j: "i \<le> j" "j + r' = N" "r' < 48"
      using moveunaligned_copy [OF c p(1) _ p(3), of off] off by blast
    have "copy_block_64_back15 (copy_state m d s (max p j) j r') = Some (copy_region m d s (j + r'))"
      using p j by (intro back15_64_copy [OF c]) auto
    with mv False j show ?thesis
      by (simp add: copy_state_def [of _ _ _ p] off_def [symmetric] Let_def)
  qed
qed

lemma rte_memcpy_generic_sse_copy:
  assumes c: "copyable m d s n"
    and line: "512 < n \<Longrightarrow> d AND 0x0F = 0 \<Longrightarrow> line_mapped m s"
  shows "rte_memcpy_generic_sse m d s n = Some (copy_region m d s n)"
proof -
  note mv = movers_sse
  consider "n < 16" | "16 \<le> n" "n \<le> 32" | "32 < n" "n \<le> 48" | "48 < n" "n \<le> 64"
    | "64 < n" "n \<le> 128" | "128 < n" "n \<le> 512" | "512 < n"
    by linarith
  then show ?thesis
  proof cases
    case 1
    then show ?thesis by (simp add: rte_memcpy_generic_sse_def copy_small_correct [OF c])
  next
    case 2
    with block_mover_first [OF mv(1) c] block_mover_back [OF mv(1) c, of 0 n 16] show ?thesis
      by (simp add: rte_memcpy_generic_sse_def)
  next
    case 3
    with block_mover_first [OF mv(2) c] block_mover_back [OF mv(1) c, of 0 n 32] show ?thesis
      by (simp add: rte_memcpy_generic_sse_def)
  next
    case 4
    with block_mover_first [OF mv(2) c] block_mover_next [OF mv(1) c, of 32]
      block_mover_back [OF mv(1) c, of 0 n 48]
    show ?thesis by (simp add: rte_memcpy_generic_sse_def)
  next
    case 5
    with back15_128_copy [OF c, of 0 0 n] show ?thesis
      by (simp add: rte_memcpy_generic_sse_def copy_state_start)
  next
    case 6
    define i where "i = (if 256 \<le> n then 256 else (0::nat))"
    have b: "i \<le> n" "n - i \<le> 256" using 6 by (auto simp: i_def)
    have "opt_block 256 (unrolled 2 128 rte_mov128_sse) (m, d, s, n) = Some (copy_state m d s i i (n - i))"
      using opt_block_copy [OF mv(6) c, of 0 0 n] opt_block_skip [of n 256]
      by (auto simp: i_def copy_state_start)
    with back15_255_copy [OF c, of i i "n - i"] 6 b show ?thesis
      by (simp add: rte_memcpy_generic_sse_def)
  next
    case 7
    define ofs where "ofs = unat (d AND 0x0F)"
    have ofs: "ofs < 16" using unat_low4 [of d] by (simp add: ofs_def)
    define i where "i = (if ofs = 0 then 0 else 32 - ofs)"
    define p where "p = (if ofs = 0 then 0 else (32 :: nat))"
    have ip: "i \<le> p" "p \<le> 32" "i + (n - i) = n" "480 \<le> n - i"
      using 7 ofs by (auto simp: i_def p_def)
    have al: "align_dst 0x0F (16 + 16) rte_mov32_sse (m, d, s, n) = Some (copy_state m d s p i (n - i))"
      using align_dst_copy [OF mv(2) c, of "0x0F" 32] align_dst_skip [of d "0x0F"] 7
      by (auto simp: ofs_def i_def p_def copy_state_start)
    have "i = 0 \<and> line_mapped m s \<or> 16 \<le> i"
      using 7 line ofs by (auto simp: i_def ofs_def unat_eq_zero)
    from large_sse_copy [OF c ip this] al 7 show ?thesis
      by (simp add: rte_memcpy_generic_sse_def copy_state_def)
  qed
qed

end
