(* ===== verification/Memcpy.thy ===== *)
theory Memcpy
  imports Memcpy_Avx512 Memcpy_Avx2 Memcpy_Sse
begin

text \<open>
  \<open>rte_memcpy\<close> of \<open>src/src/ext/rte_memcpy.c\<close>: the copy of aligned buffers, which is one piece of
  code over whatever \<open>rte_mov16/32/64\<close> the preprocessor selected, and the entry point that chooses
  between it and the generic copy.  The interface between the aligned copy and the movers is the
  locale \<open>mov_ops\<close>, interpreted for the three instruction sets.
\<close>

section \<open>The aligned copy, over any movers\<close>

definition rte_memcpy_aligned ::
    "(memory \<Rightarrow> ptr \<Rightarrow> ptr \<Rightarrow> memory option) \<Rightarrow> (memory \<Rightarrow> ptr \<Rightarrow> ptr \<Rightarrow> memory option) \<Rightarrow>
     (memory \<Rightarrow> ptr \<Rightarrow> ptr \<Rightarrow> memory option) \<Rightarrow> memory \<Rightarrow> ptr \<Rightarrow> ptr \<Rightarrow> nat \<Rightarrow> memory option" where
  "rte_memcpy_aligned mov16 mov32 mov64 m dst src n =
     (if n < 16 then copy_small m dst src n
      else if n \<le> 32 then do {
        m \<leftarrow> mov16 m dst src; mov16 m (dst - 16 + of_nat n) (src - 16 + of_nat n) }
      else if n \<le> 64 then do {
        m \<leftarrow> mov32 m dst src; mov32 m (dst - 32 + of_nat n) (src - 32 + of_nat n) }
      else do {
        (m, dst, src, n) \<leftarrow> block_loop 64 mov64 m dst src n;
        mov64 m (dst - 64 + of_nat n) (src - 64 + of_nat n) })"

locale mov_ops =
  fixes mov16 mov32 mov64 :: "memory \<Rightarrow> ptr \<Rightarrow> ptr \<Rightarrow> memory option"
  assumes mov16: "block_mover 16 mov16"
    and mov32: "block_mover 32 mov32"
    and mov64: "block_mover 64 mov64"
begin

lemma aligned_copy:
  assumes c: "copyable m d s n"
  shows "rte_memcpy_aligned mov16 mov32 mov64 m d s n = Some (copy_region m d s n)"
proof -
  consider "n < 16" | "16 \<le> n" "n \<le> 32" | "32 < n" "n \<le> 64" | "64 < n" by linarith
  then show ?thesis
  proof cases
    case 1
    then show ?thesis by (simp add: rte_memcpy_aligned_def copy_small_correct [OF c])
  next
    case 2
    with block_mover_first [OF mov16 c] block_mover_back [OF mov16 c, of 0 n 16] show ?thesis
      by (simp add: rte_memcpy_aligned_def)
  next
    case 3
    with block_mover_first [OF mov32 c] block_mover_back [OF mov32 c, of 0 n 32] show ?thesis
      by (simp add: rte_memcpy_aligned_def)
  next
    case 4
    define j where "j = 64 * (n div 64)"
    have j: "64 \<le> j" "j + n mod 64 = n" using 4 by (auto simp: j_def)
    have "block_loop 64 mov64 m d s n = Some (copy_region m d s j, d + of_nat j, s + of_nat j, n mod 64)"
      using block_loop_copy [OF mov64 _ c, of 0 0 n] by (simp add: j_def)
    moreover have "n mod 64 \<le> 64" by simp
    then have "mov64 (copy_region m d s j) (d + of_nat j - of_nat 64 + of_nat (n mod 64))
        (s + of_nat j - of_nat 64 + of_nat (n mod 64)) = Some (copy_region m d s (j + n mod 64))"
      using j by (intro block_mover_back [OF mov64 c]) auto
    ultimately show ?thesis using 4 j by (simp add: rte_memcpy_aligned_def)
  qed
qed

end

interpretation avx512: mov_ops rte_mov16_avx512 rte_mov32_avx512 rte_mov64_avx512
  by unfold_locales (rule movers_avx512)+

interpretation avx2: mov_ops rte_mov16_avx2 rte_mov32_avx2 rte_mov64_avx2
  by unfold_locales (rule movers_avx2)+

interpretation sse: mov_ops rte_mov16_sse rte_mov32_sse rte_mov64_sse
  by unfold_locales (rule movers_sse)+

section \<open>The entry point\<close>

text \<open>The three ways the file compiles, by \<open>RTE_MACHINE_CPUFLAG_*\<close>.\<close>

datatype cpu = AVX512F | AVX2 | SSE

primrec alignment_mask :: "cpu \<Rightarrow> ptr" where
  "alignment_mask AVX512F = 0x3F"
| "alignment_mask AVX2 = 0x1F"
| "alignment_mask SSE = 0x0F"

primrec memcpy_aligned_of :: "cpu \<Rightarrow> memory \<Rightarrow> ptr \<Rightarrow> ptr \<Rightarrow> nat \<Rightarrow> memory option" where
  "memcpy_aligned_of AVX512F = rte_memcpy_aligned rte_mov16_avx512 rte_mov32_avx512 rte_mov64_avx512"
| "memcpy_aligned_of AVX2 = rte_memcpy_aligned rte_mov16_avx2 rte_mov32_avx2 rte_mov64_avx2"
| "memcpy_aligned_of SSE = rte_memcpy_aligned rte_mov16_sse rte_mov32_sse rte_mov64_sse"

primrec memcpy_generic_of :: "cpu \<Rightarrow> memory \<Rightarrow> ptr \<Rightarrow> ptr \<Rightarrow> nat \<Rightarrow> memory option" where
  "memcpy_generic_of AVX512F = rte_memcpy_generic_avx512"
| "memcpy_generic_of AVX2 = rte_memcpy_generic_avx2"
| "memcpy_generic_of SSE = rte_memcpy_generic_sse"

text \<open>The memory after the call and the returned pointer.\<close>

definition rte_memcpy :: "cpu \<Rightarrow> memory \<Rightarrow> ptr \<Rightarrow> ptr \<Rightarrow> nat \<Rightarrow> (memory \<times> ptr) option" where
  "rte_memcpy cpu m dst src n = do {
     m' \<leftarrow> (if (dst OR src) AND alignment_mask cpu = 0
           then memcpy_aligned_of cpu m dst src n
           else memcpy_generic_of cpu m dst src n);
     Some (m', dst) }"

lemma memcpy_aligned_of_copy:
  "copyable m d s n \<Longrightarrow> memcpy_aligned_of cpu m d s n = Some (copy_region m d s n)"
  by (cases cpu) (simp_all add: avx512.aligned_copy avx2.aligned_copy sse.aligned_copy)

text \<open>What the SSE code needs beyond the two buffers.\<close>

definition sse_readable :: "cpu \<Rightarrow> memory \<Rightarrow> ptr \<Rightarrow> ptr \<Rightarrow> nat \<Rightarrow> bool" where
  "sse_readable cpu m dst src n \<longleftrightarrow>
     (cpu = SSE \<and> 512 < n \<and> dst AND 0x0F = 0 \<longrightarrow> line_mapped m src)"

lemma memcpy_generic_of_copy:
  "copyable m d s n \<Longrightarrow> sse_readable cpu m d s n \<Longrightarrow>
   memcpy_generic_of cpu m d s n = Some (copy_region m d s n)"
  by (cases cpu) (simp_all add: sse_readable_def rte_memcpy_generic_avx512_copy
      rte_memcpy_generic_avx2_copy rte_memcpy_generic_sse_copy)

section \<open>Properties\<close>

lemma rte_memcpy_copy:
  "copyable m dst src n \<Longrightarrow> sse_readable cpu m dst src n \<Longrightarrow>
   rte_memcpy cpu m dst src n = Some (copy_region m dst src n, dst)"
  by (simp add: rte_memcpy_def memcpy_aligned_of_copy memcpy_generic_of_copy)

text \<open>
  C4: On every instruction set, for every length, a call of \<open>rte_memcpy\<close> whose two buffers are
  mapped and do not overlap returns the destination and leaves exactly the \<open>n\<close> source bytes there,
  every other byte unchanged; no byte outside the two buffers is read or written, except that the
  SSE code, for an aligned destination and more than 512 bytes, also reads the bytes before the
  source in its 16-byte line.
\<close>

theorem rte_memcpy_correct:
  assumes "copyable m dst src n" "sse_readable cpu m dst src n"
  shows "rte_memcpy cpu m dst src n = Some (copy_region m dst src n, dst)"
  using assms by (rule rte_memcpy_copy)

lemma mapped_total: "mapped (\<lambda>a. Some (f a)) p n"
  by (simp add: mapped_def)

theorem rte_memcpy_correct_witness:
  "copyable (\<lambda>a. Some (ucast a)) 0x5003 0x1001 1000 \<and>
   sse_readable SSE (\<lambda>a. Some (ucast a)) 0x5003 0x1001 1000 \<and>
   rte_memcpy SSE (\<lambda>a. Some (ucast a)) 0x5003 0x1001 1000 =
     Some (copy_region (\<lambda>a. Some (ucast a)) 0x5003 0x1001 1000, 0x5003)"
proof -
  have "copyable (\<lambda>a. Some (ucast a)) 0x5003 0x1001 1000"
    by (simp add: copyable_def mapped_total no_overlap_def)
  moreover have "sse_readable SSE (\<lambda>a. Some (ucast a)) 0x5003 0x1001 1000"
    by (simp add: sse_readable_def)
  ultimately show ?thesis using rte_memcpy_correct by blast
qed

lemma load_vectors_first_fault: "load m src w = None \<Longrightarrow> load_vectors (Suc c) w m src = None"
  by (induction c) simp_all

text \<open>
  C24: The SSE code does read before the source: with an aligned destination, an unaligned source
  and more than 512 bytes, if the byte just before the source cannot be read then the copy faults,
  although both buffers are mapped and disjoint.
\<close>

theorem rte_memcpy_sse_reads_before_source:
  assumes n: "512 < n" and dst: "dst AND 0x0F = 0" and src: "src AND 0x0F \<noteq> 0"
    and hole: "m (src - 1) = None"
  shows "rte_memcpy SSE m dst src n = None"
proof -
  define off where "off = unat (src AND 0x0F)"
  have "off \<noteq> 0" using src by (simp add: off_def unat_eq_zero)
  with unat_low4 [of src] have off: "1 \<le> off" "off \<le> 15" by (simp_all add: off_def)
  have prev: "src - of_nat off + of_nat (off - 1) = src - 1" using off by (simp add: of_nat_diff)
  have "load m (src - of_nat off) 16 = None"
  proof (cases "load m (src - of_nat off) 16")
    case (Some bs)
    then have "\<forall>i<16. m (src - of_nat off + of_nat i) \<noteq> None" 
      using load_SomeD unfolding mapped_def by blast
    moreover have "off - 1 < 16" using off by simp
    ultimately have "m (src - of_nat off + of_nat (off - 1)) \<noteq> None" by blast
    with hole show ?thesis unfolding prev by blast
  qed
  then have "load_vectors (Suc 8) 16 m (src - of_nat off) = None" by (rule load_vectors_first_fault)
  then have "unaligned_group 8 off m dst src = None" by (simp add: unaligned_group_def)
  then have "threshold_loop (128 + 16 - off) 128 (unaligned_group 8 off) (m, dst, src, n) = None"
    using n off by (subst threshold_loop.simps) (simp, linarith)
  then have "moveunaligned_left47 off (m, dst, src, n) = None"
    using off by (simp add: moveunaligned_left47_def moveunaligned_left47_imm_def)
  moreover have "(dst OR src) AND 0x0F \<noteq> 0"
    using dst src by (simp add: bit.conj_disj_distrib2)
  ultimately show ?thesis
    using n dst src by (simp add: rte_memcpy_def rte_memcpy_generic_sse_def align_dst_skip off_def
        unat_eq_zero)
qed

text \<open>The buffers of the example are 600 bytes at 0x1000 and at 0x2001, and nothing else is mapped.\<close>

definition two_buffers :: memory where
  "two_buffers = (\<lambda>a. if unat (a - 0x1000) < 600 \<or> unat (a - 0x2001) < 600 then Some 0 else None)"

theorem rte_memcpy_sse_reads_before_source_witness:
  "copyable two_buffers 0x1000 0x2001 600 \<and> rte_memcpy SSE two_buffers 0x1000 0x2001 600 = None"
proof -
  have "unat (of_nat i :: ptr) < 600" if "i < 600" for i
    using that by (simp add: unsigned_of_nat take_bit_eq_mod)
  then have "copyable two_buffers 0x1000 0x2001 600"
    by (simp add: copyable_def mapped_def no_overlap_def two_buffers_def)
  moreover have "unat (- 1 :: ptr) = 2 ^ 64 - 1" by (simp add: unsigned_minus_1_eq_mask mask_eq_exp_minus_1)
  then have "rte_memcpy SSE two_buffers 0x1000 0x2001 600 = None"
    by (intro rte_memcpy_sse_reads_before_source) (simp_all add: two_buffers_def)
  ultimately show ?thesis by blast
qed

end
