(* ===== verification/Ring_Copy.thy ===== *)
theory Ring_Copy
  imports Dpdk_Prelude
begin

text \<open>
  The macros \<open>ENQUEUE_PTRS\<close> and \<open>DEQUEUE_PTRS\<close> of \<open>src/src/ext/rte_ring.c\<close>.  The two have the same
  control flow and differ in the assignment they repeat, so the control flow is written once over
  the assignment \<open>f idx i\<close>: groups of four and a fall-through switch when the objects do not wrap
  around the table, two simple loops otherwise.  The result is that \<open>f\<close> runs once for every object
  \<open>i < n\<close>, in order, at the table index \<open>(idx + i) mod size\<close>.

  The object counter \<open>i\<close> is a natural number: it only counts up to \<open>n\<close>.  The table index is a
  32-bit word as in the source, where \<open>idx + n\<close> may wrap around.
\<close>

section \<open>The control flow of the macros\<close>

text \<open>\<open>for (i = 0; i < lim; i += 4, idx += 4)\<close> with four assignments.\<close>

function copy_quads :: "(u32 \<Rightarrow> nat \<Rightarrow> 's \<Rightarrow> 's option) \<Rightarrow> nat \<Rightarrow> nat \<Rightarrow> u32 \<Rightarrow> 's \<Rightarrow> (nat \<times> u32 \<times> 's) option" where
  "copy_quads f lim i idx st =
     (if i < lim then do {
        st \<leftarrow> f idx i st;
        st \<leftarrow> f (idx + 1) (i + 1) st;
        st \<leftarrow> f (idx + 2) (i + 2) st;
        st \<leftarrow> f (idx + 3) (i + 3) st;
        copy_quads f lim (i + 4) (idx + 4) st }
      else Some (i, idx, st))"
  by pat_completeness auto

termination copy_quads
  by (relation "measure (\<lambda>(f, lim, i, idx, st). lim - i)") auto

text \<open>\<open>for (...; idx < sz; i++, idx++)\<close>, and \<open>for (...; i < n; i++, idx++)\<close>.\<close>

function copy_to_end :: "(u32 \<Rightarrow> nat \<Rightarrow> 's \<Rightarrow> 's option) \<Rightarrow> u32 \<Rightarrow> nat \<Rightarrow> u32 \<Rightarrow> 's \<Rightarrow> (nat \<times> 's) option" where
  "copy_to_end f sz i idx st =
     (if idx < sz then do { st \<leftarrow> f idx i st; copy_to_end f sz (i + 1) (idx + 1) st }
      else Some (i, st))"
  by pat_completeness auto

lemma unat_distance_decreases: "idx < sz \<Longrightarrow> unat (sz - (idx + 1)) < unat (sz - idx :: u32)"
  using measure_unat [of "sz - idx"] by (simp add: diff_diff_eq)

termination copy_to_end
  by (relation "measure (\<lambda>(f, sz, i, idx, st). unat (sz - idx))") (auto intro: unat_distance_decreases)

function copy_rest :: "(u32 \<Rightarrow> nat \<Rightarrow> 's \<Rightarrow> 's option) \<Rightarrow> nat \<Rightarrow> nat \<Rightarrow> u32 \<Rightarrow> 's \<Rightarrow> 's option" where
  "copy_rest f n i idx st =
     (if i < n then do { st \<leftarrow> f idx i st; copy_rest f n (i + 1) (idx + 1) st } else Some st)"
  by pat_completeness auto

termination copy_rest
  by (relation "measure (\<lambda>(f, n, i, idx, st). n - i)") auto

declare copy_quads.simps [simp del] copy_to_end.simps [simp del] copy_rest.simps [simp del]

text \<open>One assignment of the switch: \<open>ring[idx++] = obj_table[i++]\<close>.\<close>

definition copy_one :: "(u32 \<Rightarrow> nat \<Rightarrow> 's \<Rightarrow> 's option) \<Rightarrow> nat \<times> u32 \<times> 's \<Rightarrow> (nat \<times> u32 \<times> 's) option" where
  "copy_one f = (\<lambda>(i, idx, st). do { st \<leftarrow> f idx i st; Some (i + 1, idx + 1, st) })"

definition copy_ptrs :: "(u32 \<Rightarrow> nat \<Rightarrow> 's \<Rightarrow> 's option) \<Rightarrow> u32 \<Rightarrow> u32 \<Rightarrow> u32 \<Rightarrow> 's \<Rightarrow> 's option" where
  "copy_ptrs f sz idx n st =
     (if idx + n < sz then do {
        c \<leftarrow> copy_quads f (unat (n AND NOT 3)) 0 idx st;
        c \<leftarrow> (if n AND 3 = 3 then copy_one f c else Some c);
        c \<leftarrow> (if 2 \<le> n AND 3 then copy_one f c else Some c);
        c \<leftarrow> (if 1 \<le> n AND 3 then copy_one f c else Some c);
        Some (snd (snd c)) }
      else do {
        (i, st) \<leftarrow> copy_to_end f sz 0 idx st;
        copy_rest f (unat n) i 0 st })"

section \<open>Every object once, in order\<close>

text \<open>
  \<open>g k\<close> is the state after \<open>k\<close> assignments.  The premise \<open>step\<close> of the lemmas says that the
  assignment for object \<open>k\<close> at its own index leads from \<open>g k\<close> to \<open>g (k + 1)\<close>.
\<close>

lemma copy_quads_run:
  assumes step: "\<And>k. k < lim \<Longrightarrow> f (idx + of_nat k) k (g k) = Some (g (Suc k))" and "4 dvd lim"
  shows "4 dvd i \<Longrightarrow> i \<le> lim \<Longrightarrow>
    copy_quads f lim i (idx + of_nat i) (g i) = Some (lim, idx + of_nat lim, g lim)"
proof (induction "lim - i" arbitrary: i rule: less_induct)
  case less
  show ?case
  proof (cases "i < lim")
    case True
    with \<open>4 dvd lim\<close> less.prems(1) have room: "i + 4 \<le> lim" by (auto elim!: dvdE)
    have "copy_quads f lim (i + 4) (idx + of_nat (i + 4)) (g (i + 4)) = Some (lim, idx + of_nat lim, g lim)"
      using room less.prems(1) True by (intro less.hyps) auto
    moreover have "f (idx + of_nat i + 1) (i + 1) (g (Suc i)) = Some (g (i + 2))"
      "f (idx + of_nat i + 2) (i + 2) (g (i + 2)) = Some (g (i + 3))"
      "f (idx + of_nat i + 3) (i + 3) (g (i + 3)) = Some (g (i + 4))"
      using step [of "i + 1"] step [of "i + 2"] step [of "i + 3"] room
      by (simp_all add: ac_simps eval_nat_numeral)
    ultimately show ?thesis
      using True step [of i] by (simp add: copy_quads.simps [of f lim] ac_simps)
  next
    case False
    with less.prems show ?thesis by (simp add: copy_quads.simps [of f lim])
  qed
qed

lemma copy_to_end_run:
  assumes step: "\<And>k. unat idx + k < unat sz \<Longrightarrow> f (idx + of_nat k) k (g k) = Some (g (Suc k))"
  shows "unat idx + i \<le> unat sz \<Longrightarrow>
    copy_to_end f sz i (idx + of_nat i) (g i) = Some (unat sz - unat idx, g (unat sz - unat idx))"
proof (induction "unat sz - unat idx - i" arbitrary: i)
  case 0
  then have i: "i = unat sz - unat idx" "unat idx \<le> unat sz" by simp_all
  then have "idx + of_nat i = sz" by (simp add: of_nat_diff)
  with i show ?case by (simp add: copy_to_end.simps [of f sz])
next
  case (Suc x)
  then have lt: "unat idx + i < unat sz" by simp
  have "unat sz < 2 ^ LENGTH(32)" by (rule unsigned_less)
  with lt have "unat (idx + of_nat i) = unat idx + i" by (intro unat_add_small) simp
  with lt have "idx + of_nat i < sz" by (simp add: word_less_nat_alt)
  moreover have "copy_to_end f sz (Suc i) (idx + of_nat (Suc i)) (g (Suc i)) =
      Some (unat sz - unat idx, g (unat sz - unat idx))"
    using Suc.hyps(2) lt by (intro Suc.hyps(1)) auto
  ultimately show ?case
    using step [OF lt] by (simp add: copy_to_end.simps [of f sz] ac_simps)
qed

lemma copy_rest_run:
  assumes step: "\<And>k. low \<le> k \<Longrightarrow> k < n \<Longrightarrow> f (of_nat (k - low)) k (g k) = Some (g (Suc k))"
  shows "low \<le> i \<Longrightarrow> i \<le> n \<Longrightarrow> copy_rest f n i (of_nat (i - low)) (g i) = Some (g n)"
proof (induction "n - i" arbitrary: i)
  case 0
  then show ?case by (subst copy_rest.simps) simp
next
  case (Suc x)
  then have "copy_rest f n (Suc i) (of_nat (Suc i - low)) (g (Suc i)) = Some (g n)"
    by (intro Suc.hyps(1)) auto
  with Suc step [of i] show ?case
    by (simp add: copy_rest.simps [of f n] Suc_diff_le add.commute)
qed

lemma switch_run:
  assumes step: "\<And>k. k < n \<Longrightarrow> f (idx + of_nat k) k (g k) = Some (g (Suc k))"
    and n: "n = lim + r" "r < 4"
  shows "do { c \<leftarrow> (if r = 3 then copy_one f (lim, idx + of_nat lim, g lim) else Some (lim, idx + of_nat lim, g lim));
              c \<leftarrow> (if 2 \<le> r then copy_one f c else Some c);
              c \<leftarrow> (if 1 \<le> r then copy_one f c else Some c);
              Some (snd (snd c)) } = Some (g n)"
proof -
  have one: "k < n \<Longrightarrow> copy_one f (k, idx + of_nat k, g k) = Some (Suc k, idx + of_nat (Suc k), g (Suc k))" for k
    using step [of k] by (simp add: copy_one_def ac_simps)
  from n(2) consider "r = 0" | "r = 1" | "r = 2" | "r = 3" by linarith
  then show ?thesis
    using one [of lim] one [of "Suc lim"] one [of "Suc (Suc lim)"] n(1) by cases (simp_all add: numeral_3_eq_3)
qed

lemma unat_and_3: "unat (n AND 3 :: u32) = unat n mod 4"
  using unat_and_mask [of n 2] by simp

lemma unat_and_not_3: "unat (n AND NOT 3 :: u32) = 4 * (unat n div 4)"
proof -
  have "n AND NOT 3 = n - (n AND 3)"
  proof -
    have "NOT n AND (n AND 3) = 0" by (simp add: bit_eq_iff bit_simps)
    then have "n - (n AND 3) = n AND NOT (n AND 3)" by (rule disjunctive_diff_eq_and_not)
    also have "\<dots> = n AND NOT 3" by (auto simp: bit_eq_iff bit_simps)
    finally show ?thesis by simp
  qed
  moreover have "unat (n AND 3) \<le> unat n" by (simp add: unat_and_3)
  then have "n AND 3 \<le> n" by (simp add: word_le_nat_alt)
  ultimately show ?thesis
    by (simp add: unat_sub unat_and_3 minus_mod_eq_mult_div)
qed

lemma copy_ptrs_run:
  assumes idx: "idx < sz" and n: "n \<le> sz" and sz: "unat sz \<le> 2 ^ 31"
    and step: "\<And>k. k < unat n \<Longrightarrow>
      f (of_nat ((unat idx + k) mod unat sz)) k (g k) = Some (g (Suc k))"
  shows "copy_ptrs f sz idx n (g 0) = Some (g (unat n))"
proof (cases "idx + n < sz")
  case True
  have lt: "unat idx < unat sz" "unat n \<le> unat sz"
    using idx n by (simp_all add: word_less_nat_alt word_le_nat_alt)
  then have "unat idx + unat n < 2 ^ LENGTH(32)" using sz by simp
  then have "unat (idx + of_nat (unat n)) = unat idx + unat n" by (rule unat_add_small)
  with True have fit: "unat idx + unat n < unat sz" by (simp add: word_less_nat_alt)
  have flat: "k < unat n \<Longrightarrow> f (idx + of_nat k) k (g k) = Some (g (Suc k))" for k
    using step [of k] fit by simp
  define lim where "lim = unat (n AND NOT 3)"
  define r where "r = unat (n AND 3)"
  have lim: "4 dvd lim" "unat n = lim + r" "r < 4"
    unfolding lim_def r_def unat_and_not_3 unat_and_3 by simp_all
  have quads: "copy_quads f lim 0 idx (g 0) = Some (lim, idx + of_nat lim, g lim)"
    using copy_quads_run [of lim f idx g 0] flat lim by simp
  have "n AND 3 = 3 \<longleftrightarrow> r = 3" "2 \<le> n AND 3 \<longleftrightarrow> 2 \<le> r" "1 \<le> n AND 3 \<longleftrightarrow> 1 \<le> r"
    by (simp_all add: r_def word_unat_eq_iff word_le_nat_alt)
  with True show ?thesis
    using switch_run [of "unat n" f idx g lim r, OF flat lim(2,3)]
    by (simp only: copy_ptrs_def if_True if_False lim_def [symmetric] quads bind.bind_lunit)
next
  case False
  have lt: "unat idx < unat sz" "unat n \<le> unat sz"
    using idx n by (simp_all add: word_less_nat_alt word_le_nat_alt)
  then have "unat idx + unat n < 2 ^ LENGTH(32)" using sz by simp
  then have "unat (idx + of_nat (unat n)) = unat idx + unat n" by (rule unat_add_small)
  with False have wrap: "unat sz \<le> unat idx + unat n" by (simp add: word_less_nat_alt)
  define low where "low = unat sz - unat idx"
  have "f (idx + of_nat k) k (g k) = Some (g (Suc k))" if "unat idx + k < unat sz" for k
    using step [of k] that wrap by simp
  then have "copy_to_end f sz 0 idx (g 0) = Some (low, g low)"
    using copy_to_end_run [of idx sz f g 0] lt by (simp add: low_def)
  moreover have "copy_rest f (unat n) low (of_nat (low - low)) (g low) = Some (g (unat n))"
  proof (rule copy_rest_run)
    fix k assume k: "low \<le> k" "k < unat n"
    then have "(unat idx + k) mod unat sz = k - low"
      using lt by (simp add: low_def mod_if) linarith
    with step [OF k(2)] show "f (of_nat (k - low)) k (g k) = Some (g (Suc k))" by simp
  qed (use wrap low_def in simp_all)
  ultimately show ?thesis using False by (simp add: copy_ptrs_def)
qed

end
