(* ===== verification/Ring.thy ===== *)
theory Ring
  imports Ring_Copy
begin

text \<open>
  The ring library, \<open>src/src/ext/rte_ring.c\<close>: the structures, \<open>__rte_ring_do_enqueue\<close> and
  \<open>__rte_ring_do_dequeue\<close>, the bulk, burst and single-object operations built on them, and the size
  queries.  The functions that move the heads and the tails are in \<open>rte_ring_generic.h\<close>, which is
  not part of the repository: they are the parameter \<open>ring_sync\<close>, and what its documentation
  promises of them when no other thread is in the middle of an operation is the locale
  \<open>ring_sync_laws\<close>.  A ring stands for the list \<open>contents\<close> of the objects in it, oldest first; the
  operations are shown to be those of a bounded FIFO queue, the 32-bit indexes wrapping around
  freely.
\<close>

section \<open>The data structures\<close>

record rte_ring_headtail =
  head :: u32
  tail :: u32
  single :: u32

text \<open>The objects follow the structure in memory, at \<open>&r[1]\<close>: field \<open>ring_table\<close>.\<close>

record rte_ring =
  ring_name :: string
  ring_flags :: u32
  memzone :: ptr
  ring_size :: u32
  ring_mask :: u32
  ring_capacity :: u32
  prod :: rte_ring_headtail
  cons :: rte_ring_headtail
  ring_table :: "ptr list"

datatype rte_ring_queue_behavior = RTE_RING_QUEUE_FIXED | RTE_RING_QUEUE_VARIABLE

definition IS_SP :: u32 where "IS_SP = 1"
definition IS_MP :: u32 where "IS_MP = 0"
definition IS_SC :: u32 where "IS_SC = 1"
definition IS_MC :: u32 where "IS_MC = 0"

text \<open>
  The external functions: \<open>__rte_ring_move_prod_head\<close> and \<open>__rte_ring_move_cons_head\<close> return the
  number of objects granted, the old and the new head, the free (or used) entries they saw, and the
  ring; \<open>update_tail\<close> returns the updated half of the ring.
\<close>

record ring_sync =
  move_prod_head :: "rte_ring \<Rightarrow> u32 \<Rightarrow> u32 \<Rightarrow> rte_ring_queue_behavior \<Rightarrow>
    u32 \<times> u32 \<times> u32 \<times> u32 \<times> rte_ring"
  move_cons_head :: "rte_ring \<Rightarrow> u32 \<Rightarrow> u32 \<Rightarrow> rte_ring_queue_behavior \<Rightarrow>
    u32 \<times> u32 \<times> u32 \<times> u32 \<times> rte_ring"
  update_tail :: "rte_ring_headtail \<Rightarrow> u32 \<Rightarrow> u32 \<Rightarrow> u32 \<Rightarrow> u32 \<Rightarrow> rte_ring_headtail"

section \<open>Copying to and from the table\<close>

definition ENQUEUE_PTRS :: "rte_ring \<Rightarrow> u32 \<Rightarrow> ptr list \<Rightarrow> u32 \<Rightarrow> ptr list option" where
  "ENQUEUE_PTRS r prod_head obj_table n =
     copy_ptrs (\<lambda>idx i ring. do { x \<leftarrow> arr_get obj_table i; arr_set ring (unat idx) x })
       (ring_size r) (prod_head AND ring_mask r) n (ring_table r)"

definition DEQUEUE_PTRS :: "rte_ring \<Rightarrow> u32 \<Rightarrow> ptr list \<Rightarrow> u32 \<Rightarrow> ptr list option" where
  "DEQUEUE_PTRS r cons_head obj_table n =
     copy_ptrs (\<lambda>idx i obj_table. do { x \<leftarrow> arr_get (ring_table r) (unat idx); arr_set obj_table i x })
       (ring_size r) (cons_head AND ring_mask r) n obj_table"

section \<open>Enqueue and dequeue\<close>

text \<open>
  The pointers \<open>free_space\<close> and \<open>available\<close> may be NULL: the value \<^const>\<open>None\<close>.  The result of an
  operation is the ring, the number of objects, and what that pointer points to afterwards; a
  dequeue also returns the filled \<open>obj_table\<close>.
\<close>

definition rte_ring_do_enqueue :: "ring_sync \<Rightarrow> rte_ring \<Rightarrow> ptr list \<Rightarrow> u32 \<Rightarrow> rte_ring_queue_behavior \<Rightarrow>
    u32 \<Rightarrow> u32 option \<Rightarrow> (rte_ring \<times> u32 \<times> u32 option) option" where
  "rte_ring_do_enqueue S r obj_table n behavior is_sp free_space = do {
     let (n, prod_head, prod_next, free_entries, r) = move_prod_head S r is_sp n behavior;
     r \<leftarrow> (if n = 0 then Some r
          else do {
            ring \<leftarrow> ENQUEUE_PTRS r prod_head obj_table n;
            let r = r\<lparr>ring_table := ring\<rparr>;
            Some (r\<lparr>prod := update_tail S (prod r) prod_head prod_next is_sp 1\<rparr>) });
     Some (r, n, map_option (\<lambda>_. free_entries - n) free_space) }"

definition rte_ring_do_dequeue :: "ring_sync \<Rightarrow> rte_ring \<Rightarrow> ptr list \<Rightarrow> u32 \<Rightarrow> rte_ring_queue_behavior \<Rightarrow>
    u32 \<Rightarrow> u32 option \<Rightarrow> (rte_ring \<times> ptr list \<times> u32 \<times> u32 option) option" where
  "rte_ring_do_dequeue S r obj_table n behavior is_sc available = do {
     let (n, cons_head, cons_next, entries, r) = move_cons_head S r is_sc n behavior;
     (r, obj_table) \<leftarrow> (if n = 0 then Some (r, obj_table)
          else do {
            obj_table \<leftarrow> DEQUEUE_PTRS r cons_head obj_table n;
            Some (r\<lparr>cons := update_tail S (cons r) cons_head cons_next is_sc 0\<rparr>, obj_table) });
     Some (r, obj_table, n, map_option (\<lambda>_. entries - n) available) }"

definition rte_ring_mp_enqueue_bulk where
  "rte_ring_mp_enqueue_bulk S r obj_table n free_space =
     rte_ring_do_enqueue S r obj_table n RTE_RING_QUEUE_FIXED IS_MP free_space"

definition rte_ring_sp_enqueue_bulk where
  "rte_ring_sp_enqueue_bulk S r obj_table n free_space =
     rte_ring_do_enqueue S r obj_table n RTE_RING_QUEUE_FIXED IS_SP free_space"

definition rte_ring_enqueue_bulk where
  "rte_ring_enqueue_bulk S r obj_table n free_space =
     rte_ring_do_enqueue S r obj_table n RTE_RING_QUEUE_FIXED (single (prod r)) free_space"

definition rte_ring_mp_enqueue_burst where
  "rte_ring_mp_enqueue_burst S r obj_table n free_space =
     rte_ring_do_enqueue S r obj_table n RTE_RING_QUEUE_VARIABLE IS_MP free_space"

definition rte_ring_sp_enqueue_burst where
  "rte_ring_sp_enqueue_burst S r obj_table n free_space =
     rte_ring_do_enqueue S r obj_table n RTE_RING_QUEUE_VARIABLE IS_SP free_space"

definition rte_ring_enqueue_burst where
  "rte_ring_enqueue_burst S r obj_table n free_space =
     rte_ring_do_enqueue S r obj_table n RTE_RING_QUEUE_VARIABLE (single (prod r)) free_space"

definition rte_ring_mc_dequeue_bulk where
  "rte_ring_mc_dequeue_bulk S r obj_table n available =
     rte_ring_do_dequeue S r obj_table n RTE_RING_QUEUE_FIXED IS_MC available"

definition rte_ring_sc_dequeue_bulk where
  "rte_ring_sc_dequeue_bulk S r obj_table n available =
     rte_ring_do_dequeue S r obj_table n RTE_RING_QUEUE_FIXED IS_SC available"

definition rte_ring_dequeue_bulk where
  "rte_ring_dequeue_bulk S r obj_table n available =
     rte_ring_do_dequeue S r obj_table n RTE_RING_QUEUE_FIXED (single (cons r)) available"

definition rte_ring_mc_dequeue_burst where
  "rte_ring_mc_dequeue_burst S r obj_table n available =
     rte_ring_do_dequeue S r obj_table n RTE_RING_QUEUE_VARIABLE IS_MC available"

definition rte_ring_sc_dequeue_burst where
  "rte_ring_sc_dequeue_burst S r obj_table n available =
     rte_ring_do_dequeue S r obj_table n RTE_RING_QUEUE_VARIABLE IS_SC available"

definition rte_ring_dequeue_burst where
  "rte_ring_dequeue_burst S r obj_table n available =
     rte_ring_do_dequeue S r obj_table n RTE_RING_QUEUE_VARIABLE (single (cons r)) available"

text \<open>One object: \<open>&obj\<close> is a table of one object, \<open>obj_p\<close> a pointer to a variable.\<close>

definition enqueue_status :: "(rte_ring \<times> u32 \<times> u32 option) option \<Rightarrow> (rte_ring \<times> int) option" where
  "enqueue_status res = do { (r, n, _) \<leftarrow> res; Some (r, if n \<noteq> 0 then 0 else - ENOBUFS) }"

definition dequeue_status ::
    "(rte_ring \<times> ptr list \<times> u32 \<times> u32 option) option \<Rightarrow> (rte_ring \<times> ptr \<times> int) option" where
  "dequeue_status res = do {
     (r, obj_table, n, _) \<leftarrow> res;
     obj \<leftarrow> arr_get obj_table 0;
     Some (r, obj, if n \<noteq> 0 then 0 else - ENOENT) }"

definition rte_ring_mp_enqueue where
  "rte_ring_mp_enqueue S r obj = enqueue_status (rte_ring_mp_enqueue_bulk S r [obj] 1 None)"
definition rte_ring_sp_enqueue where
  "rte_ring_sp_enqueue S r obj = enqueue_status (rte_ring_sp_enqueue_bulk S r [obj] 1 None)"
definition rte_ring_enqueue where
  "rte_ring_enqueue S r obj = enqueue_status (rte_ring_enqueue_bulk S r [obj] 1 None)"
definition rte_ring_mc_dequeue where
  "rte_ring_mc_dequeue S r obj_p = dequeue_status (rte_ring_mc_dequeue_bulk S r [obj_p] 1 None)"
definition rte_ring_sc_dequeue where
  "rte_ring_sc_dequeue S r obj_p = dequeue_status (rte_ring_sc_dequeue_bulk S r [obj_p] 1 None)"
definition rte_ring_dequeue where
  "rte_ring_dequeue S r obj_p = dequeue_status (rte_ring_dequeue_bulk S r [obj_p] 1 None)"

named_theorems ring_api
declare rte_ring_mp_enqueue_bulk_def [ring_api] rte_ring_sp_enqueue_bulk_def [ring_api]
  rte_ring_enqueue_bulk_def [ring_api] rte_ring_mp_enqueue_burst_def [ring_api]
  rte_ring_sp_enqueue_burst_def [ring_api] rte_ring_enqueue_burst_def [ring_api]
  rte_ring_mc_dequeue_bulk_def [ring_api] rte_ring_sc_dequeue_bulk_def [ring_api]
  rte_ring_dequeue_bulk_def [ring_api] rte_ring_mc_dequeue_burst_def [ring_api]
  rte_ring_sc_dequeue_burst_def [ring_api] rte_ring_dequeue_burst_def [ring_api]
  rte_ring_mp_enqueue_def [ring_api] rte_ring_sp_enqueue_def [ring_api] rte_ring_enqueue_def [ring_api]
  rte_ring_mc_dequeue_def [ring_api] rte_ring_sc_dequeue_def [ring_api] rte_ring_dequeue_def [ring_api]

section \<open>Size queries\<close>

definition rte_ring_count :: "rte_ring \<Rightarrow> u32" where
  "rte_ring_count r =
     (let prod_tail = tail (prod r); cons_tail = tail (cons r);
          count = (prod_tail - cons_tail) AND ring_mask r
      in if count > ring_capacity r then ring_capacity r else count)"

definition rte_ring_free_count :: "rte_ring \<Rightarrow> u32" where
  "rte_ring_free_count r = ring_capacity r - rte_ring_count r"

definition rte_ring_full :: "rte_ring \<Rightarrow> bool" where
  "rte_ring_full r \<longleftrightarrow> rte_ring_free_count r = 0"

definition rte_ring_empty :: "rte_ring \<Rightarrow> bool" where
  "rte_ring_empty r \<longleftrightarrow> rte_ring_count r = 0"

definition rte_ring_get_size :: "rte_ring \<Rightarrow> u32" where "rte_ring_get_size r = ring_size r"

definition rte_ring_get_capacity :: "rte_ring \<Rightarrow> u32" where "rte_ring_get_capacity r = ring_capacity r"

end
