(* ===== verification/Ring_Queue.thy ===== *)
theory Ring_Queue
  imports Ring
begin

text \<open>
  The ring as a bounded queue: well-formed rings, the list of objects a ring holds, the laws of the
  head and tail movements, and what every operation of \<^theory_text>\<open>Ring\<close> does to that list.
\<close>

section \<open>Well-formed rings and their contents\<close>

text \<open>What \<open>rte_ring_init\<close> sets up and no operation changes.\<close>

definition ring_shape :: "rte_ring \<Rightarrow> bool" where
  "ring_shape r \<longleftrightarrow> (\<exists>k<32. unat (ring_size r) = 2 ^ k) \<and> ring_mask r = ring_size r - 1 \<and>
     ring_capacity r \<le> ring_mask r \<and> length (ring_table r) = unat (ring_size r)"

definition ring_entries :: "rte_ring \<Rightarrow> nat" where
  "ring_entries r = unat (tail (prod r) - tail (cons r))"

text \<open>
  No producer is in the middle of an operation; a consumer may have moved its head ahead of its
  tail, over at most the entries in the ring.
\<close>

definition ring_ok :: "rte_ring \<Rightarrow> bool" where
  "ring_ok r \<longleftrightarrow> ring_shape r \<and> head (prod r) = tail (prod r) \<and>
     ring_entries r \<le> unat (ring_capacity r) \<and>
     head (cons r) - tail (cons r) \<le> tail (prod r) - tail (cons r)"

definition quiet :: "rte_ring \<Rightarrow> bool" where
  "quiet r \<longleftrightarrow> ring_ok r \<and> head (cons r) = tail (cons r)"

definition slot :: "rte_ring \<Rightarrow> u32 \<Rightarrow> nat" where
  "slot r i = unat (i AND ring_mask r)"

definition contents :: "rte_ring \<Rightarrow> ptr list" where
  "contents r = map (\<lambda>k. ring_table r ! slot r (tail (cons r) + of_nat k)) [0..<ring_entries r]"

lemma ring_shape_update [simp]:
  "ring_shape (r\<lparr>prod := p\<rparr>) = ring_shape r" "ring_shape (r\<lparr>cons := c\<rparr>) = ring_shape r"
  by (simp_all add: ring_shape_def)

lemma length_contents [simp]: "length (contents r) = ring_entries r"
  by (simp add: contents_def)

lemma shapeE:
  assumes "ring_shape r"
  obtains k where "k < 32" "unat (ring_size r) = 2 ^ k" "ring_mask r = 2 ^ k - 1"
    "unat (ring_capacity r) < 2 ^ k" "length (ring_table r) = 2 ^ k"
proof -
  from assms obtain k where k: "k < 32" "unat (ring_size r) = 2 ^ k"
    by (auto simp: ring_shape_def)
  then have sz: "ring_size r = 2 ^ k"
    by (metis of_nat_numeral of_nat_power of_nat_unat ucast_id)
  with assms have mask: "ring_mask r = 2 ^ k - 1" by (simp add: ring_shape_def)
  have "unat (ring_capacity r) \<le> unat (ring_size r - 1)"
    using assms unfolding ring_shape_def by (metis word_le_nat_alt)
  also have "\<dots> < unat (ring_size r)"
    using k by (intro measure_unat) (metis unsigned_0 power_not_zero zero_neq_numeral)
  finally show ?thesis using that k mask assms by (simp add: ring_shape_def)
qed

lemma slot_mod: "ring_shape r \<Longrightarrow> slot r i = unat i mod unat (ring_size r)"
  by (elim shapeE) (simp add: slot_def unat_and_mask)

lemma slot_add:
  assumes "ring_shape r"
  shows "slot r (i + of_nat j) = (slot r i + j) mod unat (ring_size r)"
proof -
  from assms obtain k where k: "k < 32" "unat (ring_size r) = 2 ^ k" by (rule shapeE)
  then have dvd: "(2 :: nat) ^ k dvd 2 ^ LENGTH(32)" by (intro le_imp_power_dvd) simp
  have "unat (i + of_nat j) = (unat i + j mod 2 ^ LENGTH(32)) mod 2 ^ LENGTH(32)"
    by (simp add: unat_word_ariths unsigned_of_nat take_bit_eq_mod)
  also have "\<dots> = (unat i + j) mod 2 ^ LENGTH(32)" by (rule mod_add_right_eq)
  finally have "unat (i + of_nat j) mod 2 ^ k = (unat i + j) mod 2 ^ k"
    by (simp only: mod_mod_cancel [OF dvd])
  with assms k show ?thesis by (simp add: slot_mod mod_simps)
qed

lemma slot_less: "ring_shape r \<Longrightarrow> slot r i < unat (ring_size r)"
  by (elim shapeE) (simp add: slot_def unat_and_mask)

lemma mod_offset_inj:
  "a < n \<Longrightarrow> b < n \<Longrightarrow> (c + a) mod n = (c + b) mod n \<longleftrightarrow> a = (b :: nat)"
proof (induction a b rule: linorder_wlog)
  case (le a b)
  show ?case
  proof
    assume "(c + a) mod n = (c + b) mod n"
    then have "n dvd (c + b) - (c + a)" using le by (subst mod_eq_dvd_iff_nat [symmetric]) simp_all
    then have "n dvd b - a" by simp
    with le show "a = b" by (auto dest: dvd_imp_le)
  qed simp
qed auto

section \<open>The copies\<close>

text \<open>\<open>put_run\<close> is the table after the first \<open>k\<close> objects are stored from position \<open>c\<close> on.\<close>

primrec put_run :: "nat \<Rightarrow> nat \<Rightarrow> 'a list \<Rightarrow> 'a list \<Rightarrow> nat \<Rightarrow> 'a list" where
  "put_run n c xs ring 0 = ring"
| "put_run n c xs ring (Suc k) = (put_run n c xs ring k)[(c + k) mod n := xs ! k]"

lemma length_put_run [simp]: "length (put_run n c xs ring k) = length ring"
  by (induction k) simp_all

lemma put_run_in:
  "k \<le> n \<Longrightarrow> length ring = n \<Longrightarrow> j < k \<Longrightarrow> put_run n c xs ring k ! ((c + j) mod n) = xs ! j"
  by (induction k) (auto simp: nth_list_update mod_offset_inj less_Suc_eq)

lemma put_run_out:
  "k \<le> n \<Longrightarrow> k \<le> i \<Longrightarrow> i < n \<Longrightarrow> put_run n c xs ring k ! ((c + i) mod n) = ring ! ((c + i) mod n)"
  by (induction k) (auto simp: nth_list_update mod_offset_inj)

text \<open>Both macros, at any head and for at most \<open>size\<close> objects.\<close>

lemma slot_word: "ring_shape r \<Longrightarrow> unat (of_nat ((slot r i + k) mod unat (ring_size r)) :: u32) =
    (slot r i + k) mod unat (ring_size r)"
proof -
  assume "ring_shape r"
  then obtain j where "j < 32" "unat (ring_size r) = 2 ^ j" by (rule shapeE)
  then have "(slot r i + k) mod unat (ring_size r) < 2 ^ LENGTH(32)"
    by (metis mod_less_divisor power_strict_increasing less_trans one_less_numeral_iff
        semiring_norm(76) len_num0 len_bit0 len_num1 zero_less_numeral zero_less_power unsigned_less)
  then show ?thesis by (simp add: unsigned_of_nat take_bit_eq_mod)
qed

lemma ring_size_small: "ring_shape r \<Longrightarrow> 0 < unat (ring_size r) \<and> unat (ring_size r) \<le> 2 ^ 31"
proof -
  assume "ring_shape r"
  then obtain j where j: "j < 32" "unat (ring_size r) = 2 ^ j" by (rule shapeE)
  have "(2 :: nat) ^ j \<le> 2 ^ 31" using j(1) by (intro power_increasing) auto
  with j show ?thesis by simp
qed

lemma ENQUEUE_PTRS_put_run:
  assumes r: "ring_shape r" and n: "n \<le> ring_size r" "unat n \<le> length obj_table"
  shows "ENQUEUE_PTRS r i obj_table n =
    Some (put_run (unat (ring_size r)) (slot r i) obj_table (ring_table r) (unat n))"
proof -
  let ?N = "unat (ring_size r)"
  let ?g = "put_run ?N (slot r i) obj_table (ring_table r)"
  let ?f = "\<lambda>(idx :: u32) k ring. do { x \<leftarrow> arr_get obj_table k; arr_set ring (unat idx) x }"
  have "copy_ptrs ?f (ring_size r) (i AND ring_mask r) n (?g 0) = Some (?g (unat n))"
  proof (rule copy_ptrs_run)
    show "i AND ring_mask r < ring_size r"
      using slot_less [OF r, of i] by (simp add: slot_def word_less_nat_alt)
    fix k assume "k < unat n"
    moreover from r have "length (ring_table r) = ?N" by (simp add: ring_shape_def)
    ultimately show "?f (of_nat ((unat (i AND ring_mask r) + k) mod ?N)) k (?g k) = Some (?g (Suc k))"
      using slot_word [OF r, of i k] n(2) ring_size_small [OF r] by (simp add: slot_def)
  qed (use n ring_size_small [OF r] in simp_all)
  then show ?thesis by (simp add: ENQUEUE_PTRS_def)
qed

lemma DEQUEUE_PTRS_take:
  assumes r: "ring_shape r" and n: "n \<le> ring_size r" "unat n \<le> length obj_table"
  shows "DEQUEUE_PTRS r i obj_table n =
    Some (map (\<lambda>k. ring_table r ! slot r (i + of_nat k)) [0..<unat n] @ drop (unat n) obj_table)"
proof -
  let ?N = "unat (ring_size r)"
  let ?x = "\<lambda>k. ring_table r ! slot r (i + of_nat k)"
  let ?g = "\<lambda>k. map ?x [0..<k] @ drop k obj_table"
  let ?f = "\<lambda>(idx :: u32) k obj. do { x \<leftarrow> arr_get (ring_table r) (unat idx); arr_set obj k x }"
  have "copy_ptrs ?f (ring_size r) (i AND ring_mask r) n (?g 0) = Some (?g (unat n))"
  proof (rule copy_ptrs_run)
    show "i AND ring_mask r < ring_size r"
      using slot_less [OF r, of i] by (simp add: slot_def word_less_nat_alt)
    fix k assume k: "k < unat n"
    from r have len: "length (ring_table r) = ?N" by (simp add: ring_shape_def)
    from k n(2) have "drop k obj_table = obj_table ! k # drop (Suc k) obj_table"
      by (simp add: Cons_nth_drop_Suc)
    then have "(?g k)[k := ?x k] = ?g (Suc k)" by (simp add: list_update_append)
    moreover have "(slot r i + k) mod ?N = slot r (i + of_nat k)" by (simp add: slot_add [OF r])
    ultimately show "?f (of_nat ((unat (i AND ring_mask r) + k) mod ?N)) k (?g k) = Some (?g (Suc k))"
      using slot_word [OF r, of i k] slot_less [OF r] k n(2) len
      by (simp add: slot_def [of r i] arr_get_def arr_set_def del: upt_Suc)
  qed (use n ring_size_small [OF r] in simp_all)
  then show ?thesis by (simp add: DEQUEUE_PTRS_def)
qed

section \<open>Counting\<close>

lemma ring_okD:
  assumes "ring_ok r"
  shows "ring_shape r" "ring_entries r \<le> unat (ring_capacity r)" "head (prod r) = tail (prod r)"
    "unat (ring_capacity r) < unat (ring_size r)" "unat (ring_size r) \<le> 2 ^ 31"
    "tail (prod r) = tail (cons r) + of_nat (ring_entries r)"
  using assms ring_size_small [of r] by (auto simp: ring_ok_def ring_entries_def elim!: shapeE)

lemma count_entries: "ring_ok r \<Longrightarrow> unat (rte_ring_count r) = ring_entries r"
proof -
  assume r: "ring_ok r"
  then obtain k where k: "k < 32" "ring_mask r = 2 ^ k - 1" "unat (ring_capacity r) < 2 ^ k"
    by (auto simp: ring_ok_def elim: shapeE)
  have "unat ((tail (prod r) - tail (cons r)) AND ring_mask r) = ring_entries r mod 2 ^ k"
    by (simp add: k unat_and_mask ring_entries_def)
  also have "\<dots> = ring_entries r" using ring_okD(2) [OF r] k(3) by simp
  finally show ?thesis
    using ring_okD(2) [OF r] by (simp add: rte_ring_count_def Let_def word_less_nat_alt)
qed

lemma free_entries: "ring_ok r \<Longrightarrow> unat (rte_ring_free_count r) = unat (ring_capacity r) - ring_entries r"
  using count_entries [of r] ring_okD(2) [of r]
  by (simp add: rte_ring_free_count_def unat_sub word_le_nat_alt)

lemma count_word: "ring_ok r \<Longrightarrow> rte_ring_count r = tail (prod r) - tail (cons r)"
  using count_entries [of r] by (simp add: ring_entries_def word_unat_eq_iff)

lemma free_word: "ring_ok r \<Longrightarrow> ring_capacity r + tail (cons r) - head (prod r) = rte_ring_free_count r"
  by (simp add: rte_ring_free_count_def count_word ring_okD(3))

section \<open>The laws of the head and tail movements\<close>

text \<open>The number of objects an operation gets when it asks for \<open>n\<close> and \<open>limit\<close> are available.\<close>

definition granted :: "rte_ring_queue_behavior \<Rightarrow> u32 \<Rightarrow> u32 \<Rightarrow> u32" where
  "granted behavior n limit =
     (if n \<le> limit then n else case behavior of RTE_RING_QUEUE_FIXED \<Rightarrow> 0 | RTE_RING_QUEUE_VARIABLE \<Rightarrow> limit)"

lemma granted_le: "granted b n limit \<le> limit" "granted b n limit \<le> n"
  by (auto simp: granted_def split: rte_ring_queue_behavior.split)

locale ring_sync_laws =
  fixes S :: ring_sync
  assumes prod_none: "ring_ok r \<Longrightarrow> granted b n (ring_capacity r + tail (cons r) - head (prod r)) = 0 \<Longrightarrow>
      \<exists>old new. move_prod_head S r is_sp n b =
        (0, old, new, ring_capacity r + tail (cons r) - head (prod r), r)"
    and prod_some: "ring_ok r \<Longrightarrow> k = granted b n (ring_capacity r + tail (cons r) - head (prod r)) \<Longrightarrow> k \<noteq> 0 \<Longrightarrow>
      move_prod_head S r is_sp n b = (k, head (prod r), head (prod r) + k,
        ring_capacity r + tail (cons r) - head (prod r),
        r\<lparr>prod := (prod r)\<lparr>head := head (prod r) + k\<rparr>\<rparr>)"
    and cons_none: "ring_ok r \<Longrightarrow> granted b n (tail (prod r) - head (cons r)) = 0 \<Longrightarrow>
      \<exists>old new. move_cons_head S r is_sc n b = (0, old, new, tail (prod r) - head (cons r), r)"
    and cons_some: "ring_ok r \<Longrightarrow> k = granted b n (tail (prod r) - head (cons r)) \<Longrightarrow> k \<noteq> 0 \<Longrightarrow>
      move_cons_head S r is_sc n b = (k, head (cons r), head (cons r) + k,
        tail (prod r) - head (cons r), r\<lparr>cons := (cons r)\<lparr>head := head (cons r) + k\<rparr>\<rparr>)"
    and tail_update: "tail half = old \<Longrightarrow> update_tail S half old new is_single enq = half\<lparr>tail := new\<rparr>"

text \<open>The sequential functions that the laws describe satisfy them.\<close>

definition seq_move_prod_head :: "rte_ring \<Rightarrow> u32 \<Rightarrow> u32 \<Rightarrow> rte_ring_queue_behavior \<Rightarrow>
    u32 \<times> u32 \<times> u32 \<times> u32 \<times> rte_ring" where
  "seq_move_prod_head r is_sp n b =
     (let free = ring_capacity r + tail (cons r) - head (prod r); k = granted b n free
      in (k, head (prod r), head (prod r) + k, free, r\<lparr>prod := (prod r)\<lparr>head := head (prod r) + k\<rparr>\<rparr>))"

definition seq_move_cons_head :: "rte_ring \<Rightarrow> u32 \<Rightarrow> u32 \<Rightarrow> rte_ring_queue_behavior \<Rightarrow>
    u32 \<times> u32 \<times> u32 \<times> u32 \<times> rte_ring" where
  "seq_move_cons_head r is_sc n b =
     (let used = tail (prod r) - head (cons r); k = granted b n used
      in (k, head (cons r), head (cons r) + k, used, r\<lparr>cons := (cons r)\<lparr>head := head (cons r) + k\<rparr>\<rparr>))"

definition seq_sync :: ring_sync where
  "seq_sync = \<lparr>move_prod_head = seq_move_prod_head, move_cons_head = seq_move_cons_head,
     update_tail = (\<lambda>half old new is_single enq. half\<lparr>tail := new\<rparr>)\<rparr>"

interpretation seq: ring_sync_laws seq_sync
  by unfold_locales (simp_all add: seq_sync_def seq_move_prod_head_def seq_move_cons_head_def Let_def)

section \<open>Enqueue appends, dequeue takes from the front\<close>

lemma put_run_before:
  assumes "i < e" "e + k \<le> n"
  shows "put_run n ((c + e) mod n) xs ring k ! ((c + i) mod n) = ring ! ((c + i) mod n)"
proof -
  have "((c + e) mod n + (n - e + i)) mod n = (c + e + (n - e + i)) mod n" by (rule mod_add_left_eq)
  also have "c + e + (n - e + i) = (c + i) + n" using assms by simp
  finally have eq: "((c + e) mod n + (n - e + i)) mod n = (c + i) mod n" by simp
  show ?thesis
    using put_run_out [of k n "n - e + i" "(c + e) mod n" xs ring] assms unfolding eq by simp
qed

lemma put_run_after:
  "length ring = n \<Longrightarrow> k \<le> n \<Longrightarrow> j < k \<Longrightarrow>
   put_run n ((c + e) mod n) xs ring k ! ((c + (e + j)) mod n) = xs ! j"
  using put_run_in [of k n ring j "(c + e) mod n" xs] by (simp add: mod_simps add.assoc)

text \<open>The ring after \<open>k\<close> objects are stored and published.\<close>

definition after_enqueue :: "rte_ring \<Rightarrow> ptr list \<Rightarrow> u32 \<Rightarrow> rte_ring" where
  "after_enqueue r xs k = r\<lparr>
     ring_table := put_run (unat (ring_size r)) (slot r (tail (prod r))) xs (ring_table r) (unat k),
     prod := (prod r)\<lparr>head := tail (prod r) + k, tail := tail (prod r) + k\<rparr>\<rparr>"

lemma after_enqueue_shape [simp]: "ring_shape (after_enqueue r xs k) = ring_shape r"
  by (simp add: after_enqueue_def ring_shape_def)

lemma after_enqueue_fields [simp]:
  "ring_capacity (after_enqueue r xs k) = ring_capacity r" "cons (after_enqueue r xs k) = cons r"
  "ring_size (after_enqueue r xs k) = ring_size r" "ring_mask (after_enqueue r xs k) = ring_mask r"
  "tail (prod (after_enqueue r xs k)) = tail (prod r) + k"
  "head (prod (after_enqueue r xs k)) = tail (prod r) + k"
  by (simp_all add: after_enqueue_def)

lemma after_enqueue_entries:
  assumes r: "ring_ok r" and k: "k \<le> rte_ring_free_count r"
  shows "ring_entries (after_enqueue r xs k) = ring_entries r + unat k"
    and "ring_entries r + unat k \<le> unat (ring_capacity r)"
proof -
  from k have "unat k \<le> unat (ring_capacity r) - ring_entries r"
    by (simp add: word_le_nat_alt free_entries [OF r])
  then show room: "ring_entries r + unat k \<le> unat (ring_capacity r)" using ring_okD(2) [OF r] by simp
  have "tail (prod r) + k - tail (cons r) = (tail (prod r) - tail (cons r)) + of_nat (unat k)"
    by (simp add: algebra_simps)
  moreover have "unat (ring_capacity r) < 2 ^ LENGTH(32)" by (rule unsigned_less)
  then have "unat (tail (prod r) - tail (cons r)) + unat k < 2 ^ LENGTH(32)"
    using room unfolding ring_entries_def by (rule le_less_trans [rotated])
  ultimately show "ring_entries (after_enqueue r xs k) = ring_entries r + unat k"
    unfolding ring_entries_def after_enqueue_fields by (simp only: unat_add_small)
qed

lemma after_enqueue_ok:
  assumes r: "ring_ok r" and k: "k \<le> rte_ring_free_count r"
  shows "ring_ok (after_enqueue r xs k)"
proof -
  note e = after_enqueue_entries [OF r k]
  have "unat (head (cons r) - tail (cons r)) \<le> ring_entries r"
    using r by (simp add: ring_ok_def ring_entries_def word_le_nat_alt)
  then have "unat (head (cons r) - tail (cons r)) \<le> ring_entries (after_enqueue r xs k)"
    using e(1) [of xs] by simp
  then have "head (cons r) - tail (cons r) \<le> tail (prod r) + k - tail (cons r)"
    unfolding ring_entries_def by (simp add: word_le_nat_alt)
  then show ?thesis using ring_okD(1) [OF r] e by (simp add: ring_ok_def)
qed

lemma after_enqueue_slot [simp]: "slot (after_enqueue r xs k) i = slot r i"
  by (simp add: slot_def)

lemma after_enqueue_contents:
  assumes r: "ring_ok r" and k: "k \<le> rte_ring_free_count r" "unat k \<le> length xs"
  shows "contents (after_enqueue r xs k) = contents r @ take (unat k) xs"
proof (rule nth_equalityI)
  note e = after_enqueue_entries [OF r k(1)]
  show "length (contents (after_enqueue r xs k)) = length (contents r @ take (unat k) xs)"
    using e k(2) by simp
  fix i assume "i < length (contents (after_enqueue r xs k))"
  then have i: "i < ring_entries r + unat k" using e(1) by simp
  let ?N = "unat (ring_size r)" and ?c = "slot r (tail (cons r))"
  have size: "ring_entries r + unat k \<le> ?N" using e(2) ring_okD(4) [OF r] by simp
  have len: "length (ring_table r) = ?N" using ring_okD(1) [OF r] by (simp add: ring_shape_def)
  have start: "slot r (tail (prod r)) = (?c + ring_entries r) mod ?N"
    by (subst ring_okD(6) [OF r]) (rule slot_add [OF ring_okD(1) [OF r]])
  have "contents (after_enqueue r xs k) ! i =
      put_run ?N ((?c + ring_entries r) mod ?N) xs (ring_table r) (unat k) ! ((?c + i) mod ?N)"
    using i e(1) by (simp add: contents_def slot_add [OF ring_okD(1) [OF r]])
      (simp add: after_enqueue_def start)
  also have "\<dots> = (contents r @ take (unat k) xs) ! i"
  proof (cases "i < ring_entries r")
    case True
    then show ?thesis
      using put_run_before [OF True size] by (simp add: nth_append)
        (simp add: contents_def slot_add [OF ring_okD(1) [OF r]])
  next
    case False
    then show ?thesis
      using put_run_after [of "ring_table r" ?N "unat k" "i - ring_entries r" ?c "ring_entries r" xs]
        i len size by (simp add: nth_append)
  qed
  finally show "contents (after_enqueue r xs k) ! i = (contents r @ take (unat k) xs) ! i" .
qed

text \<open>The consumer tail moves over \<open>k\<close> objects; the consumer head is at least there.\<close>

definition after_dequeue :: "rte_ring \<Rightarrow> u32 \<Rightarrow> rte_ring" where
  "after_dequeue r k = r\<lparr>cons := (cons r)\<lparr>tail := tail (cons r) + k\<rparr>\<rparr>"

lemma after_dequeue_fields [simp]:
  "ring_capacity (after_dequeue r k) = ring_capacity r" "prod (after_dequeue r k) = prod r"
  "ring_size (after_dequeue r k) = ring_size r" "ring_mask (after_dequeue r k) = ring_mask r"
  "ring_table (after_dequeue r k) = ring_table r" "slot (after_dequeue r k) i = slot r i"
  "tail (cons (after_dequeue r k)) = tail (cons r) + k" "head (cons (after_dequeue r k)) = head (cons r)"
  by (simp_all add: after_dequeue_def slot_def)

lemma after_dequeue_shape [simp]: "ring_shape (after_dequeue r k) = ring_shape r"
  by (simp add: after_dequeue_def)

lemma after_dequeue_entries:
  assumes "unat k \<le> ring_entries r"
  shows "ring_entries (after_dequeue r k) = ring_entries r - unat k"
proof -
  have eq: "tail (prod r) - (tail (cons r) + k) = (tail (prod r) - tail (cons r)) - k" by simp
  moreover have "k \<le> tail (prod r) - tail (cons r)"
    using assms by (simp add: ring_entries_def word_le_nat_alt)
  ultimately show ?thesis unfolding ring_entries_def after_dequeue_fields eq by (simp only: unat_sub)
qed

lemma after_dequeue_contents:
  assumes "unat k \<le> ring_entries r"
  shows "contents (after_dequeue r k) = drop (unat k) (contents r)"
  using assms
  by (intro nth_equalityI) (simp_all add: after_dequeue_entries contents_def ac_simps less_diff_conv)

lemma after_dequeue_ok:
  assumes r: "ring_ok r" and k: "k \<le> head (cons r) - tail (cons r)"
  shows "ring_ok (after_dequeue r k)"
proof -
  have le: "head (cons r) - tail (cons r) \<le> tail (prod r) - tail (cons r)" using r by (simp add: ring_ok_def)
  with k have "k \<le> tail (prod r) - tail (cons r)" by (rule order_trans)
  then have small: "unat k \<le> ring_entries r" by (simp add: ring_entries_def word_le_nat_alt)
  have "unat ((head (cons r) - tail (cons r)) - k) \<le> unat ((tail (prod r) - tail (cons r)) - k)"
    using le k small by (simp add: unat_sub word_le_nat_alt ring_entries_def)
  then have "head (cons r) - (tail (cons r) + k) \<le> tail (prod r) - (tail (cons r) + k)"
    by (simp add: word_le_nat_alt diff_diff_eq)
  then show ?thesis
    using r small after_dequeue_entries [OF small] by (simp add: ring_ok_def le_diff_conv)
qed

text \<open>What a consumer at an arbitrary head reads.\<close>

lemma DEQUEUE_PTRS_contents:
  assumes r: "ring_ok r" and p: "p + unat n \<le> ring_entries r" and n: "unat n \<le> length obj_table"
  shows "DEQUEUE_PTRS r (tail (cons r) + of_nat p) obj_table n =
    Some (take (unat n) (drop p (contents r)) @ drop (unat n) obj_table)"
proof -
  have "unat n \<le> unat (ring_size r)" using p ring_okD(2,4) [OF r] by simp
  then have "n \<le> ring_size r" by (simp add: word_le_nat_alt)
  moreover have "map (\<lambda>k. ring_table r ! slot r (tail (cons r) + of_nat p + of_nat k)) [0..<unat n]
      = take (unat n) (drop p (contents r))"
    using p by (intro nth_equalityI) (simp_all add: contents_def ac_simps)
  ultimately show ?thesis using DEQUEUE_PTRS_take [OF ring_okD(1) [OF r] _ n] by simp
qed

section \<open>The operations, under the laws\<close>

definition enqueue_count :: "rte_ring_queue_behavior \<Rightarrow> rte_ring \<Rightarrow> u32 \<Rightarrow> u32" where
  "enqueue_count b r n = granted b n (rte_ring_free_count r)"

definition dequeue_count :: "rte_ring_queue_behavior \<Rightarrow> rte_ring \<Rightarrow> u32 \<Rightarrow> u32" where
  "dequeue_count b r n = granted b n (rte_ring_count r)"

lemma quietD: "quiet r \<Longrightarrow> ring_ok r" "quiet r \<Longrightarrow> head (cons r) = tail (cons r)"
  by (simp_all add: quiet_def)

lemma after_enqueue_0 [simp]: "ring_ok r \<Longrightarrow> after_enqueue r xs 0 = r"
  using ring_okD(3) [of r] by (simp add: after_enqueue_def)

text \<open>The ring after a consumer has moved its head and its tail over \<open>k\<close> objects.\<close>

definition consumer_ahead :: "rte_ring \<Rightarrow> u32 \<Rightarrow> rte_ring" where
  "consumer_ahead r k = r\<lparr>cons := (cons r)\<lparr>head := head (cons r) + k\<rparr>\<rparr>"

lemma consumer_ahead_fields [simp]:
  "contents (consumer_ahead r k) = contents r" "ring_entries (consumer_ahead r k) = ring_entries r"
  "ring_capacity (consumer_ahead r k) = ring_capacity r" "prod (consumer_ahead r k) = prod r"
  "ring_size (consumer_ahead r k) = ring_size r" "ring_mask (consumer_ahead r k) = ring_mask r"
  "ring_table (consumer_ahead r k) = ring_table r" "slot (consumer_ahead r k) i = slot r i"
  "tail (cons (consumer_ahead r k)) = tail (cons r)" "head (cons (consumer_ahead r k)) = head (cons r) + k"
  "ring_shape (consumer_ahead r k) = ring_shape r"
  by (simp_all add: consumer_ahead_def contents_def ring_entries_def slot_def)

definition after_sc_dequeue :: "rte_ring \<Rightarrow> u32 \<Rightarrow> rte_ring" where
  "after_sc_dequeue r k = after_dequeue (consumer_ahead r k) k"

lemma after_sc_dequeue_0 [simp]: "after_sc_dequeue r 0 = r"
  by (simp add: after_sc_dequeue_def after_dequeue_def consumer_ahead_def)

lemma consumer_ahead_ok:
  assumes r: "ring_ok r" and k: "k \<le> tail (prod r) - head (cons r)"
  shows "ring_ok (consumer_ahead r k)"
proof -
  define a where "a = head (cons r) - tail (cons r)"
  define b where "b = tail (prod r) - tail (cons r)"
  have ab: "a \<le> b" using r by (simp add: ring_ok_def a_def b_def)
  have "tail (prod r) - head (cons r) = b - a" by (simp add: a_def b_def)
  with k have "k \<le> b - a" by simp
  then have "unat k \<le> unat b - unat a" using ab by (simp add: word_le_nat_alt unat_sub)
  then have le: "unat a + unat k \<le> unat b" using ab by (simp add: word_le_nat_alt)
  have "unat b < 2 ^ LENGTH(32)" by (rule unsigned_less)
  with le have "unat (a + of_nat (unat k)) = unat a + unat k" by (intro unat_add_small) simp
  with le have "a + k \<le> b" by (simp add: word_le_nat_alt)
  then have "head (cons r) + k - tail (cons r) \<le> tail (prod r) - tail (cons r)"
    by (simp add: a_def b_def algebra_simps)
  with r show ?thesis by (simp add: ring_ok_def)
qed

lemma after_sc_dequeue_quiet:
  assumes r: "quiet r" and k: "k \<le> rte_ring_count r"
  shows "quiet (after_sc_dequeue r k)" "contents (after_sc_dequeue r k) = drop (unat k) (contents r)"
    "ring_capacity (after_sc_dequeue r k) = ring_capacity r"
proof -
  note ok = quietD(1) [OF r]
  have ok': "ring_ok (consumer_ahead r k)"
    using k by (intro consumer_ahead_ok [OF ok]) (simp add: count_word [OF ok] quietD(2) [OF r])
  have "ring_ok (after_dequeue (consumer_ahead r k) k)"
    by (rule after_dequeue_ok [OF ok']) (simp add: quietD(2) [OF r])
  then show "quiet (after_sc_dequeue r k)" by (simp add: quiet_def after_sc_dequeue_def quietD(2) [OF r])
  have "unat k \<le> ring_entries r" using k count_entries [OF ok] by (simp add: word_le_nat_alt)
  then show "contents (after_sc_dequeue r k) = drop (unat k) (contents r)"
    by (simp add: after_sc_dequeue_def after_dequeue_contents)
  show "ring_capacity (after_sc_dequeue r k) = ring_capacity r" by (simp add: after_sc_dequeue_def)
qed

lemma dequeue_count_le: "dequeue_count b r n \<le> rte_ring_count r"
  by (simp add: dequeue_count_def granted_le)

context ring_sync_laws
begin

lemma do_enqueue:
  assumes r: "ring_ok r" and len: "unat (enqueue_count b r n) \<le> length xs"
  shows "rte_ring_do_enqueue S r xs n b is_sp fs =
    Some (after_enqueue r xs (enqueue_count b r n), enqueue_count b r n,
      map_option (\<lambda>_. rte_ring_free_count r - enqueue_count b r n) fs)"
proof (cases "enqueue_count b r n = 0")
  case True
  with prod_none [OF r, of b n is_sp] show ?thesis
    by (auto simp: rte_ring_do_enqueue_def free_word [OF r] enqueue_count_def r)
next
  case False
  let ?k = "enqueue_count b r n"
  have move: "move_prod_head S r is_sp n b = (?k, tail (prod r), tail (prod r) + ?k,
      rte_ring_free_count r, r\<lparr>prod := (prod r)\<lparr>head := tail (prod r) + ?k\<rparr>\<rparr>)"
    using prod_some [OF r refl, of b n is_sp] False
    unfolding free_word [OF r] by (simp add: enqueue_count_def ring_okD(3) [OF r])
  have "?k \<le> rte_ring_free_count r" by (simp add: enqueue_count_def granted_le)
  then have "unat ?k \<le> unat (ring_size r)"
    using ring_okD(4) [OF r] free_entries [OF r] by (simp add: word_le_nat_alt)
  then have "?k \<le> ring_size r" by (simp add: word_le_nat_alt)
  moreover have "ring_shape (r\<lparr>prod := (prod r)\<lparr>head := tail (prod r) + ?k\<rparr>\<rparr>)"
    using ring_okD(1) [OF r] by simp
  ultimately show ?thesis
    using False len
    by (simp add: rte_ring_do_enqueue_def move ENQUEUE_PTRS_put_run tail_update after_enqueue_def slot_def)
qed

lemma do_dequeue:
  assumes r: "quiet r" and len: "unat (dequeue_count b r n) \<le> length xs"
  shows "rte_ring_do_dequeue S r xs n b is_sc av =
      Some (after_sc_dequeue r (dequeue_count b r n),
        take (unat (dequeue_count b r n)) (contents r) @ drop (unat (dequeue_count b r n)) xs,
        dequeue_count b r n, map_option (\<lambda>_. rte_ring_count r - dequeue_count b r n) av)"
proof (cases "dequeue_count b r n = 0")
  case True
  with cons_none [OF quietD(1) [OF r], of b n is_sc] show ?thesis
    using r by (auto simp: rte_ring_do_dequeue_def count_word quietD dequeue_count_def)
next
  case False
  let ?k = "dequeue_count b r n"
  note ok = quietD(1) [OF r]
  have move: "move_cons_head S r is_sc n b =
      (?k, tail (cons r), tail (cons r) + ?k, rte_ring_count r, consumer_ahead r ?k)"
    using cons_some [OF ok refl, of b n is_sc] False
    by (simp add: count_word [OF ok] dequeue_count_def quietD(2) [OF r] consumer_ahead_def)
  have le: "?k \<le> rte_ring_count r" by (simp add: dequeue_count_def granted_le)
  then have small: "unat ?k \<le> ring_entries r" using count_entries [OF ok] by (simp add: word_le_nat_alt)
  have ok': "ring_ok (consumer_ahead r ?k)"
    using le by (intro consumer_ahead_ok [OF ok]) (simp add: count_word [OF ok] quietD(2) [OF r])
  have "DEQUEUE_PTRS (consumer_ahead r ?k) (tail (cons r)) xs ?k =
      Some (take (unat ?k) (contents r) @ drop (unat ?k) xs)"
    using DEQUEUE_PTRS_contents [OF ok', of 0 ?k xs] small len by simp
  then show ?thesis
    using False
    by (simp add: rte_ring_do_dequeue_def move tail_update after_sc_dequeue_def after_dequeue_def)
qed

end

end
