(* ===== verification/Bounded_Queue.thy ===== *)
theory Bounded_Queue
  imports Ring
begin

text \<open>
  The abstract specification of the ring library: a bounded FIFO queue on lists, with the two
  behaviours of its operations (\<open>RTE_RING_QUEUE_FIXED\<close>: all or nothing, \<open>RTE_RING_QUEUE_VARIABLE\<close>: as
  many as possible), and the locale \<open>bounded_queue\<close> of the implementations of it.  An
  implementation is one step function; the locale proves that every sequence of operations behaves
  as the specification, and that objects leave in the order in which they were accepted.
\<close>

section \<open>The specification\<close>

datatype 'a queue_op =
    Enqueue rte_ring_queue_behavior "'a list"
  | Dequeue rte_ring_queue_behavior nat

datatype 'a queue_result = Accepted nat | Delivered "'a list"

fun transfer :: "rte_ring_queue_behavior \<Rightarrow> nat \<Rightarrow> nat \<Rightarrow> nat" where
  "transfer RTE_RING_QUEUE_FIXED n limit = (if n \<le> limit then n else 0)"
| "transfer RTE_RING_QUEUE_VARIABLE n limit = min n limit"

fun queue_step :: "nat \<Rightarrow> 'a list \<Rightarrow> 'a queue_op \<Rightarrow> 'a list \<times> 'a queue_result" where
  "queue_step cap q (Enqueue b xs) =
     (let k = transfer b (length xs) (cap - length q) in (q @ take k xs, Accepted k))"
| "queue_step cap q (Dequeue b n) =
     (let k = transfer b n (length q) in (drop k q, Delivered (take k q)))"

fun queue_run :: "nat \<Rightarrow> 'a list \<Rightarrow> 'a queue_op list \<Rightarrow> 'a list \<times> 'a queue_result list" where
  "queue_run cap q [] = (q, [])"
| "queue_run cap q (a # ops) =
     (let (q', res) = queue_step cap q a; (q'', ress) = queue_run cap q' ops in (q'', res # ress))"

text \<open>The objects that went in and the objects that came out.\<close>

fun accepted :: "'a queue_op list \<Rightarrow> 'a queue_result list \<Rightarrow> 'a list" where
  "accepted (Enqueue b xs # ops) (Accepted k # ress) = take k xs @ accepted ops ress"
| "accepted (a # ops) (res # ress) = accepted ops ress"
| "accepted _ _ = []"

fun delivered :: "'a queue_result list \<Rightarrow> 'a list" where
  "delivered (Delivered xs # ress) = xs @ delivered ress"
| "delivered (Accepted k # ress) = delivered ress"
| "delivered [] = []"

lemma transfer_le: "transfer b n limit \<le> limit" "transfer b n limit \<le> n"
  by (cases b; simp)+

text \<open>First in, first out: what came out, followed by what is left, is what was there and went in.\<close>

lemma queue_run_fifo:
  "queue_run cap q ops = (q', ress) \<Longrightarrow> delivered ress @ q' = q @ accepted ops ress"
proof (induction ops arbitrary: q q' ress)
  case Nil
  then show ?case by simp
next
  case (Cons a ops)
  obtain q1 res where step: "queue_step cap q a = (q1, res)" by fastforce
  obtain q2 rest where run: "queue_run cap q1 ops = (q2, rest)" by fastforce
  from Cons.prems step run have eq: "q' = q2" "ress = res # rest" by simp_all
  have IH: "delivered rest @ q2 = q1 @ accepted ops rest" by (rule Cons.IH [OF run])
  show ?case
  proof (cases a)
    case (Enqueue b xs)
    with step eq IH show ?thesis by (auto simp: Let_def)
  next
    case (Dequeue b n)
    with step have "res = Delivered (take (transfer b n (length q)) q)" "q1 = drop (transfer b n (length q)) q"
      by (auto simp: Let_def)
    with eq IH Dequeue show ?thesis by (metis accepted.simps(3) append.assoc append_take_drop_id delivered.simps(1))
  qed
qed

lemma queue_run_bounded:
  "queue_run cap q ops = (q', ress) \<Longrightarrow> length q \<le> cap \<Longrightarrow> length q' \<le> cap"
proof (induction ops arbitrary: q q' ress)
  case (Cons a ops)
  obtain q1 res where step: "queue_step cap q a = (q1, res)" by fastforce
  obtain q2 rest where run: "queue_run cap q1 ops = (q2, rest)" by fastforce
  have "length q1 \<le> cap"
  proof (cases a)
    case (Enqueue b xs)
    with step Cons.prems(2) transfer_le [of b "length xs" "cap - length q"] show ?thesis
      by (auto simp: Let_def)
  next
    case (Dequeue b n)
    with step Cons.prems(2) show ?thesis by (auto simp: Let_def)
  qed
  with Cons run step show ?case by (auto simp: Let_def)
qed simp

section \<open>Implementations\<close>

text \<open>A run of an implementation; \<^const>\<open>None\<close> if a step goes wrong.\<close>

primrec run :: "('s \<Rightarrow> 'o \<Rightarrow> ('s \<times> 'r) option) \<Rightarrow> 's \<Rightarrow> 'o list \<Rightarrow> ('s \<times> 'r list) option" where
  "run step s [] = Some (s, [])"
| "run step s (a # ops) = do {
     (s, res) \<leftarrow> step s a; (s, ress) \<leftarrow> run step s ops; Some (s, res # ress) }"

text \<open>Operations with a request that a 32-bit count can express.\<close>

fun op_fits :: "'a queue_op \<Rightarrow> bool" where
  "op_fits (Enqueue b xs) \<longleftrightarrow> length xs < 2 ^ 32"
| "op_fits (Dequeue b n) \<longleftrightarrow> n < 2 ^ 32"

locale bounded_queue =
  fixes step :: "'s \<Rightarrow> 'a queue_op \<Rightarrow> ('s \<times> 'a queue_result) option"
    and inv :: "'s \<Rightarrow> bool" and abs :: "'s \<Rightarrow> 'a list" and cap :: "'s \<Rightarrow> nat"
  assumes bounded: "inv s \<Longrightarrow> length (abs s) \<le> cap s"
    and step: "inv s \<Longrightarrow> op_fits a \<Longrightarrow> queue_step (cap s) (abs s) a = (q', res) \<Longrightarrow>
      \<exists>s'. step s a = Some (s', res) \<and> inv s' \<and> abs s' = q' \<and> cap s' = cap s"
begin

lemma run_refines:
  "inv s \<Longrightarrow> list_all op_fits ops \<Longrightarrow> queue_run (cap s) (abs s) ops = (q', ress) \<Longrightarrow>
   \<exists>s'. run step s ops = Some (s', ress) \<and> inv s' \<and> abs s' = q' \<and> cap s' = cap s"
proof (induction ops arbitrary: s q' ress)
  case Nil
  then show ?case by simp
next
  case (Cons a ops)
  obtain q1 res where q1: "queue_step (cap s) (abs s) a = (q1, res)" by fastforce
  moreover have "op_fits a" using Cons.prems by simp
  ultimately obtain s1 where
    s1: "step s a = Some (s1, res)" "inv s1" "abs s1 = q1" "cap s1 = cap s"
    using step Cons.prems(1) by blast
  obtain q2 rest where q2: "queue_run (cap s) q1 ops = (q2, rest)" by fastforce
  with Cons.IH [of s1] s1 Cons.prems obtain s2 where
    "run step s1 ops = Some (s2, rest)" "inv s2" "abs s2 = q2" "cap s2 = cap s" by auto
  with Cons.prems(3) q1 q2 s1 show ?case by auto
qed

lemma run_fifo:
  assumes "inv s" "list_all op_fits ops"
  obtains s' ress where "run step s ops = Some (s', ress)" "inv s'"
    "delivered ress @ abs s' = abs s @ accepted ops ress"
  by (metis assms queue_run_fifo run_refines surj_pair)

end

end
