(* ===== verification/Ring_Properties.thy ===== *)
theory Ring_Properties
  imports Ring_Queue Bounded_Queue
begin

text \<open>
  The correctness properties of the ring library: the operations in terms of the objects in the
  ring, the status codes of the single-object operations, the size queries, and the refinement of
  the bounded queue by the whole interface.
\<close>

section \<open>The ring is a bounded queue\<close>

text \<open>One operation of the default (flag-selected) interface, with a fresh object table.\<close>

fun ring_step :: "ring_sync \<Rightarrow> rte_ring \<Rightarrow> ptr queue_op \<Rightarrow> (rte_ring \<times> ptr queue_result) option" where
  "ring_step S r (Enqueue RTE_RING_QUEUE_FIXED xs) = do {
     (r, k, _) \<leftarrow> rte_ring_enqueue_bulk S r xs (of_nat (length xs)) None; Some (r, Accepted (unat k)) }"
| "ring_step S r (Enqueue RTE_RING_QUEUE_VARIABLE xs) = do {
     (r, k, _) \<leftarrow> rte_ring_enqueue_burst S r xs (of_nat (length xs)) None; Some (r, Accepted (unat k)) }"
| "ring_step S r (Dequeue RTE_RING_QUEUE_FIXED n) = do {
     (r, objs, k, _) \<leftarrow> rte_ring_dequeue_bulk S r (replicate n 0) (of_nat n) None;
     Some (r, Delivered (take (unat k) objs)) }"
| "ring_step S r (Dequeue RTE_RING_QUEUE_VARIABLE n) = do {
     (r, objs, k, _) \<leftarrow> rte_ring_dequeue_burst S r (replicate n 0) (of_nat n) None;
     Some (r, Delivered (take (unat k) objs)) }"

lemma ring_step_Enqueue: "ring_step S r (Enqueue b xs) = do {
    (r, k, _) \<leftarrow> rte_ring_do_enqueue S r xs (of_nat (length xs)) b (single (prod r)) None;
    Some (r, Accepted (unat k)) }"
  by (cases b) (simp_all add: ring_api)

lemma ring_step_Dequeue: "ring_step S r (Dequeue b n) = do {
    (r, objs, k, _) \<leftarrow> rte_ring_do_dequeue S r (replicate n 0) (of_nat n) b (single (cons r)) None;
    Some (r, Delivered (take (unat k) objs)) }"
  by (cases b) (simp_all add: ring_api)

lemma granted_transfer: "unat (granted b n limit) = transfer b (unat n) (unat limit)"
  by (cases b) (simp_all add: granted_def word_le_nat_alt min_def)

lemma enqueue_count_transfer:
  "quiet r \<Longrightarrow> unat (enqueue_count b r n) =
    transfer b (unat n) (unat (ring_capacity r) - length (contents r))"
  by (simp add: enqueue_count_def granted_transfer free_entries quietD)

lemma dequeue_count_transfer:
  "quiet r \<Longrightarrow> unat (dequeue_count b r n) = transfer b (unat n) (length (contents r))"
  by (simp add: dequeue_count_def granted_transfer count_entries quietD)

lemma quiet_after_enqueue: "quiet r \<Longrightarrow> quiet (after_enqueue r xs (enqueue_count b r n))"
  by (simp add: quiet_def after_enqueue_ok enqueue_count_def granted_le)

lemma contents_after_enqueue:
  "quiet r \<Longrightarrow> unat (enqueue_count b r n) \<le> length xs \<Longrightarrow>
   contents (after_enqueue r xs (enqueue_count b r n)) = contents r @ take (unat (enqueue_count b r n)) xs"
  by (simp add: quiet_def after_enqueue_contents enqueue_count_def granted_le)

lemma after_enqueue_free:
  assumes "ring_ok r" "k \<le> rte_ring_free_count r"
  shows "rte_ring_free_count (after_enqueue r xs k) = rte_ring_free_count r - k"
  using free_entries [OF after_enqueue_ok [OF assms]] free_entries [OF assms(1)] assms
  by (simp add: word_unat_eq_iff unat_sub word_le_nat_alt after_enqueue_entries)

lemma unat_of_count: "n < 2 ^ 32 \<Longrightarrow> unat (of_nat n :: u32) = n"
  by (simp add: unsigned_of_nat take_bit_eq_mod)

sublocale ring_sync_laws \<subseteq> fifo: bounded_queue "ring_step S" quiet contents "\<lambda>r. unat (ring_capacity r)"
proof
  fix r :: rte_ring assume r: "quiet r"
  then show "length (contents r) \<le> unat (ring_capacity r)" by (simp add: quietD ring_okD)
next
  fix r a q' res
  assume r: "quiet r" and fits: "op_fits a"
    and spec: "queue_step (unat (ring_capacity r)) (contents r) a = (q', res)"
  show "\<exists>r'. ring_step S r a = Some (r', res) \<and> quiet r' \<and> contents r' = q' \<and>
      unat (ring_capacity r') = unat (ring_capacity r)"
  proof (cases a)
    case (Enqueue b xs)
    let ?k = "enqueue_count b r (of_nat (length xs))"
    have k: "unat ?k = transfer b (length xs) (unat (ring_capacity r) - length (contents r))"
      using r fits Enqueue by (simp only: enqueue_count_transfer op_fits.simps unat_of_count)
    then have "unat ?k \<le> length xs" by (simp only: transfer_le)
    then show ?thesis
      using Enqueue spec k do_enqueue [OF quietD(1) [OF r], of b "of_nat (length xs)" xs]
        quiet_after_enqueue [OF r] contents_after_enqueue [OF r]
      by (simp add: ring_step_Enqueue Let_def)
  next
    case (Dequeue b n)
    let ?k = "dequeue_count b r (of_nat n)"
    have k: "unat ?k = transfer b n (length (contents r))"
      using r fits Dequeue by (simp only: dequeue_count_transfer op_fits.simps unat_of_count)
    then have le: "unat ?k \<le> n" "unat ?k \<le> length (contents r)" by (simp_all only: transfer_le)
    let ?r = "after_sc_dequeue r ?k"
    from le(1) have "unat ?k \<le> length (replicate n (0 :: ptr))" by simp
    from do_dequeue [OF r this, of "single (cons r)" None] after_sc_dequeue_quiet [OF r dequeue_count_le]
    have r': "rte_ring_do_dequeue S r (replicate n 0) (of_nat n) b (single (cons r)) None =
        Some (?r, take (unat ?k) (contents r) @ drop (unat ?k) (replicate n 0), ?k, None)"
      "quiet ?r" "contents ?r = drop (unat ?k) (contents r)" "ring_capacity ?r = ring_capacity r"
      by simp_all
    with le have "ring_step S r a = Some (?r, Delivered (take (unat ?k) (contents r)))"
      by (simp add: Dequeue ring_step_Dequeue min_def)
    with r' spec k Dequeue show ?thesis by (auto simp: Let_def)
  qed
qed

context ring_sync_laws
begin

lemma fifo_bounded_queue: "bounded_queue (ring_step S) quiet contents (\<lambda>r. unat (ring_capacity r))"
  by (rule fifo.bounded_queue_axioms)

end

section \<open>Properties\<close>

text \<open>A ring of four slots whose indexes are about to wrap around; it holds 10 and 20.\<close>

definition demo_ring :: rte_ring where
  "demo_ring = \<lparr>ring_name = ''demo'', ring_flags = 0, memzone = 0, ring_size = 4, ring_mask = 3,
     ring_capacity = 3, prod = \<lparr>head = 0, tail = 0, single = 1\<rparr>,
     cons = \<lparr>head = 0xFFFFFFFE, tail = 0xFFFFFFFE, single = 1\<rparr>, ring_table = [0, 0, 10, 20]\<rparr>"

lemma demo_ring_quiet: "quiet demo_ring"
proof -
  have "ring_shape demo_ring" by (auto simp: demo_ring_def ring_shape_def intro: exI [of _ 2])
  then show ?thesis by (simp add: quiet_def ring_ok_def ring_entries_def) (simp add: demo_ring_def)
qed

lemma demo_ring_contents: "contents demo_ring = [10, 20]"
  by (simp add: contents_def ring_entries_def slot_def demo_ring_def upt_rec)

lemma demo_ring_capacity: "unat (ring_capacity demo_ring) = 3"
  by (simp add: demo_ring_def)

text \<open>
  C25: Every bulk and burst enqueue, single- or multi-producer, appends the objects it accepts to
  the ring in order and leaves the objects already there alone: all \<open>n\<close> or none for the bulk
  operations, as many as fit for the burst operations.  It returns how many, stores the free space
  left through \<open>free_space\<close> when that is not NULL, and never accesses the table out of bounds, also
  when the 32-bit indexes wrap around.
  The ring is at rest before the operation (\<open>quiet\<close>: well formed, no other operation half
  done), \<open>objs\<close> has at least \<open>n\<close> entries, and the functions that move the heads, which are not in
  the repository, do so as documented when nothing interferes (\<open>ring_sync_laws\<close>); the ring is at rest again
  afterwards.
\<close>

theorem rte_ring_enqueue_appends:
  assumes "ring_sync_laws S" "quiet r" "unat n \<le> length objs"
    and "(b, enqueue) \<in> {(RTE_RING_QUEUE_FIXED, rte_ring_mp_enqueue_bulk),
      (RTE_RING_QUEUE_FIXED, rte_ring_sp_enqueue_bulk), (RTE_RING_QUEUE_FIXED, rte_ring_enqueue_bulk),
      (RTE_RING_QUEUE_VARIABLE, rte_ring_mp_enqueue_burst),
      (RTE_RING_QUEUE_VARIABLE, rte_ring_sp_enqueue_burst), (RTE_RING_QUEUE_VARIABLE, rte_ring_enqueue_burst)}"
    and k: "k = transfer b (unat n) (unat (ring_capacity r) - length (contents r))"
  shows "\<exists>r' moved. enqueue S r objs n free_space = Some (r', moved, map_option (\<lambda>_. rte_ring_free_count r') free_space) \<and>
    unat moved = k \<and> quiet r' \<and> contents r' = contents r @ take k objs \<and> ring_capacity r' = ring_capacity r"
proof -
  let ?m = "enqueue_count b r n"
  have m: "unat ?m = k" using assms(2) k by (simp add: enqueue_count_transfer)
  have len: "unat ?m \<le> length objs" using assms(3) m k transfer_le(2) order_trans by metis
  have op: "\<exists>is_sp. enqueue S r objs n free_space = rte_ring_do_enqueue S r objs n b is_sp free_space"
    using assms(4) by (auto simp: ring_api)
  then have "enqueue S r objs n free_space = Some (after_enqueue r objs ?m, ?m,
      map_option (\<lambda>_. rte_ring_free_count r - ?m) free_space)"
    using ring_sync_laws.do_enqueue [OF assms(1) quietD(1) [OF assms(2)] len] by auto
  moreover have "rte_ring_free_count (after_enqueue r objs ?m) = rte_ring_free_count r - ?m"
    by (simp add: enqueue_count_def granted_le quietD assms(2) after_enqueue_free)
  ultimately show ?thesis
    using quiet_after_enqueue [OF assms(2)] contents_after_enqueue [OF assms(2) len] m by auto
qed

theorem rte_ring_enqueue_appends_witness:
  "\<exists>r' moved. rte_ring_enqueue_burst seq_sync demo_ring [7, 8] 2 (Some 0) =
      Some (r', moved, Some (rte_ring_free_count r')) \<and>
    unat moved = 1 \<and> quiet r' \<and> contents r' = [10, 20] @ take 1 [7, 8] \<and>
    ring_capacity r' = ring_capacity demo_ring"
  using rte_ring_enqueue_appends [OF seq.ring_sync_laws_axioms demo_ring_quiet, of 2 "[7, 8]"
      RTE_RING_QUEUE_VARIABLE rte_ring_enqueue_burst 1 "Some 0"]
  by (simp add: demo_ring_contents demo_ring_capacity)

text \<open>
  C26: Every bulk and burst dequeue, single- or multi-consumer, removes the oldest objects of the
  ring and writes them to the front of \<open>obj_table\<close>, whose other entries keep their value: exactly
  \<open>n\<close> or none for the bulk operations, as many as there are for the burst operations.  It returns how many, and
  stores the number of objects left through \<open>available\<close>.
  The ring is at rest before the operation (\<open>quiet\<close>: well formed, no other operation half
  done), \<open>obj_table\<close> has at least \<open>n\<close> entries, and the functions that move the heads, which are not in
  the repository, do so as documented when nothing interferes (\<open>ring_sync_laws\<close>); the ring is at rest again
  afterwards.
\<close>

theorem rte_ring_dequeue_takes_oldest:
  assumes "ring_sync_laws S" "quiet r" "unat n \<le> length objs"
    and "(b, dequeue) \<in> {(RTE_RING_QUEUE_FIXED, rte_ring_mc_dequeue_bulk),
      (RTE_RING_QUEUE_FIXED, rte_ring_sc_dequeue_bulk), (RTE_RING_QUEUE_FIXED, rte_ring_dequeue_bulk),
      (RTE_RING_QUEUE_VARIABLE, rte_ring_mc_dequeue_burst),
      (RTE_RING_QUEUE_VARIABLE, rte_ring_sc_dequeue_burst), (RTE_RING_QUEUE_VARIABLE, rte_ring_dequeue_burst)}"
    and k: "k = transfer b (unat n) (length (contents r))"
  shows "\<exists>r' moved. dequeue S r objs n available =
      Some (r', take k (contents r) @ drop k objs, moved, map_option (\<lambda>_. rte_ring_count r') available) \<and>
    unat moved = k \<and> quiet r' \<and> contents r' = drop k (contents r) \<and> ring_capacity r' = ring_capacity r"
proof -
  let ?m = "dequeue_count b r n"
  have m: "unat ?m = k" using assms(2) k by (simp add: dequeue_count_transfer)
  have len: "unat ?m \<le> length objs" using assms(3) m k transfer_le(2) order_trans by metis
  have op: "\<exists>is_sc. dequeue S r objs n available = rte_ring_do_dequeue S r objs n b is_sc available"
    using assms(4) by (auto simp: ring_api)
  let ?r = "after_sc_dequeue r ?m"
  from op ring_sync_laws.do_dequeue [OF assms(1,2) len] after_sc_dequeue_quiet [OF assms(2) dequeue_count_le]
  have r': "dequeue S r objs n available = Some (?r, take (unat ?m) (contents r) @ drop (unat ?m) objs, ?m,
        map_option (\<lambda>_. rte_ring_count r - ?m) available)"
      "quiet ?r" "contents ?r = drop (unat ?m) (contents r)" "ring_capacity ?r = ring_capacity r"
    by auto
  have "?m \<le> rte_ring_count r" by (rule dequeue_count_le)
  moreover from r'(3) have "ring_entries ?r = ring_entries r - unat ?m"
    by (metis length_contents length_drop)
  ultimately have "rte_ring_count ?r = rte_ring_count r - ?m"
    using count_entries [OF quietD(1) [OF r'(2)]] count_entries [OF quietD(1) [OF assms(2)]]
    by (simp add: word_unat_eq_iff unat_sub)
  with r' m show ?thesis by auto
qed

theorem rte_ring_dequeue_takes_oldest_witness:
  "\<exists>r' moved. rte_ring_sc_dequeue_burst seq_sync demo_ring [1, 2, 3] 3 (Some 0) =
      Some (r', take 2 [10, 20] @ drop 2 [1, 2, 3], moved, Some (rte_ring_count r')) \<and>
    unat moved = 2 \<and> quiet r' \<and> contents r' = drop 2 [10, 20] \<and> ring_capacity r' = ring_capacity demo_ring"
proof -
  have op: "(RTE_RING_QUEUE_VARIABLE, rte_ring_sc_dequeue_burst) \<in> {(RTE_RING_QUEUE_FIXED, rte_ring_mc_dequeue_bulk),
      (RTE_RING_QUEUE_FIXED, rte_ring_sc_dequeue_bulk), (RTE_RING_QUEUE_FIXED, rte_ring_dequeue_bulk),
      (RTE_RING_QUEUE_VARIABLE, rte_ring_mc_dequeue_burst),
      (RTE_RING_QUEUE_VARIABLE, rte_ring_sc_dequeue_burst), (RTE_RING_QUEUE_VARIABLE, rte_ring_dequeue_burst)}"
    by blast
  have "unat (3 :: u32) \<le> length [1, 2, 3 :: ptr]" by simp
  moreover have "2 = transfer RTE_RING_QUEUE_VARIABLE (unat (3 :: u32)) (length (contents demo_ring))"
    by (simp only: demo_ring_contents) simp
  ultimately show ?thesis
    using rte_ring_dequeue_takes_oldest [OF seq.ring_sync_laws_axioms demo_ring_quiet _ op, of 3 "[1, 2, 3]" 2 "Some 0"]
    unfolding demo_ring_contents option.map by blast
qed

text \<open>
  The single-object operations return 0 and transfer the object when there is room (or an
  object), and otherwise return \<open>-ENOBUFS\<close> (\<open>-ENOENT\<close>) and leave the ring and \<open>*obj_p\<close> unchanged.
\<close>

theorem rte_ring_single_object:
  assumes "ring_sync_laws S" "quiet r"
    and "enqueue \<in> {rte_ring_mp_enqueue, rte_ring_sp_enqueue, rte_ring_enqueue}"
    and "dequeue \<in> {rte_ring_mc_dequeue, rte_ring_sc_dequeue, rte_ring_dequeue}"
  shows "(\<exists>r' res. enqueue S r obj = Some (r', res) \<and> quiet r' \<and>
      (if length (contents r) < unat (ring_capacity r) then res = 0 \<and> contents r' = contents r @ [obj]
       else res = - ENOBUFS \<and> r' = r)) \<and>
    (\<exists>r' x res. dequeue S r old = Some (r', x, res) \<and> quiet r' \<and>
      (case contents r of [] \<Rightarrow> res = - ENOENT \<and> x = old \<and> contents r' = []
       | y # ys \<Rightarrow> res = 0 \<and> x = y \<and> contents r' = ys))"
proof
  note ok = quietD(1) [OF assms(2)]
  let ?e = "enqueue_count RTE_RING_QUEUE_FIXED r 1"
  have e: "unat ?e = (if length (contents r) < unat (ring_capacity r) then 1 else 0)"
    using assms(2) by (auto simp: enqueue_count_transfer)
  then have "unat ?e \<le> length [obj]" by simp
  note enq = ring_sync_laws.do_enqueue [OF assms(1) ok this]
  have "\<exists>is_sp. enqueue S r obj = enqueue_status (rte_ring_do_enqueue S r [obj] 1 RTE_RING_QUEUE_FIXED is_sp None)"
    using assms(3) by (auto simp: ring_api)
  then have "enqueue S r obj = Some (after_enqueue r [obj] ?e, if ?e \<noteq> 0 then 0 else - ENOBUFS)"
    by (auto simp: enq enqueue_status_def)
  moreover have "?e = 0 \<longleftrightarrow> \<not> length (contents r) < unat (ring_capacity r)"
    using e by (auto simp: word_unat_eq_iff split: if_splits)
  moreover have "quiet (after_enqueue r [obj] ?e)" by (rule quiet_after_enqueue [OF assms(2)])
  moreover have "contents (after_enqueue r [obj] ?e) = contents r @ take (unat ?e) [obj]"
    using e by (intro contents_after_enqueue [OF assms(2)]) simp
  ultimately show "\<exists>r' res. enqueue S r obj = Some (r', res) \<and> quiet r' \<and>
      (if length (contents r) < unat (ring_capacity r) then res = 0 \<and> contents r' = contents r @ [obj]
       else res = - ENOBUFS \<and> r' = r)"
    using e ok by auto
next
  let ?d = "dequeue_count RTE_RING_QUEUE_FIXED r 1"
  have d: "unat ?d = (if contents r = [] then 0 else 1)"
    using assms(2) by (cases "contents r") (auto simp: dequeue_count_transfer simp flip: length_contents)
  then have "unat ?d \<le> length [old]" by simp
  note deq = ring_sync_laws.do_dequeue [OF assms(1,2) this]
  have "\<exists>is_sc. dequeue S r old = dequeue_status (rte_ring_do_dequeue S r [old] 1 RTE_RING_QUEUE_FIXED is_sc None)"
    using assms(4) by (auto simp: ring_api)
  then have r': "dequeue S r old = dequeue_status (Some (after_sc_dequeue r ?d,
      take (unat ?d) (contents r) @ drop (unat ?d) [old], ?d, None))"
    by (auto simp: deq)
  note after = after_sc_dequeue_quiet [OF assms(2) dequeue_count_le [of RTE_RING_QUEUE_FIXED r 1]]
  have "?d = 0 \<longleftrightarrow> contents r = []" using d by (auto simp: word_unat_eq_iff split: if_splits)
  with r' after d show "\<exists>r' x res. dequeue S r old = Some (r', x, res) \<and> quiet r' \<and>
      (case contents r of [] \<Rightarrow> res = - ENOENT \<and> x = old \<and> contents r' = []
       | y # ys \<Rightarrow> res = 0 \<and> x = y \<and> contents r' = ys)"
    by (cases "contents r") (auto simp: dequeue_status_def)
qed

theorem rte_ring_single_object_witness:
  "(\<exists>r' res. rte_ring_enqueue seq_sync demo_ring 30 = Some (r', res) \<and> quiet r' \<and>
      res = 0 \<and> contents r' = [10, 20, 30]) \<and>
   (\<exists>r' x res. rte_ring_dequeue seq_sync demo_ring 5 = Some (r', x, res) \<and> quiet r' \<and>
      res = 0 \<and> x = 10 \<and> contents r' = [20])"
proof -
  have "rte_ring_enqueue \<in> {rte_ring_mp_enqueue, rte_ring_sp_enqueue, rte_ring_enqueue}"
    "rte_ring_dequeue \<in> {rte_ring_mc_dequeue, rte_ring_sc_dequeue, rte_ring_dequeue}" by blast+
  from rte_ring_single_object [OF seq.ring_sync_laws_axioms demo_ring_quiet this, of 30 5]
  show ?thesis unfolding demo_ring_contents demo_ring_capacity by simp
qed

text \<open>
  The size queries agree with the contents: \<open>rte_ring_count\<close> is the number of objects in the
  ring, \<open>rte_ring_free_count\<close> the number of objects that can still be added up to
  \<open>rte_ring_get_capacity\<close>, which is less than \<open>rte_ring_get_size\<close>, and \<open>rte_ring_full\<close> and
  \<open>rte_ring_empty\<close> are the two extremes.
\<close>

theorem rte_ring_sizes:
  assumes "quiet r"
  shows "unat (rte_ring_count r) = length (contents r) \<and>
    unat (rte_ring_free_count r) + length (contents r) = unat (rte_ring_get_capacity r) \<and>
    rte_ring_get_capacity r < rte_ring_get_size r \<and>
    (rte_ring_full r \<longleftrightarrow> length (contents r) = unat (rte_ring_get_capacity r)) \<and>
    (rte_ring_empty r \<longleftrightarrow> contents r = [])"
proof -
  note ok = quietD(1) [OF assms]
  have "rte_ring_empty r \<longleftrightarrow> ring_entries r = 0"
    using count_entries [OF ok] by (simp add: rte_ring_empty_def word_unat_eq_iff)
  moreover have "rte_ring_full r \<longleftrightarrow> ring_entries r = unat (ring_capacity r)"
    using free_entries [OF ok] ring_okD(2) [OF ok] by (auto simp: rte_ring_full_def word_unat_eq_iff)
  moreover have "contents r = [] \<longleftrightarrow> ring_entries r = 0" by (simp flip: length_0_conv)
  ultimately show ?thesis
    using count_entries [OF ok] free_entries [OF ok] ring_okD(2,4) [OF ok]
    by (auto simp: rte_ring_get_capacity_def rte_ring_get_size_def word_less_nat_alt)
qed

theorem rte_ring_sizes_witness:
  "quiet demo_ring \<and> unat (rte_ring_count demo_ring) = 2 \<and> unat (rte_ring_free_count demo_ring) = 1 \<and>
   \<not> rte_ring_full demo_ring \<and> \<not> rte_ring_empty demo_ring"
  using demo_ring_quiet rte_ring_sizes [OF demo_ring_quiet, unfolded demo_ring_contents]
  by (simp add: rte_ring_get_capacity_def demo_ring_capacity)

text \<open>
  C5: Any sequence of bulk and burst operations on a quiet ring behaves as the same sequence on a
  list bounded by the capacity: every operation succeeds, returns what the specification returns,
  and the objects come out in the order in which they were accepted.
\<close>

theorem rte_ring_refines_bounded_queue:
  assumes "ring_sync_laws S" "quiet r" "list_all op_fits ops"
    and "queue_run (unat (ring_capacity r)) (contents r) ops = (q', results)"
  shows "\<exists>r'. run (ring_step S) r ops = Some (r', results) \<and> quiet r' \<and> contents r' = q' \<and>
    length (contents r') \<le> unat (ring_capacity r) \<and>
    delivered results @ contents r' = contents r @ accepted ops results"
proof -
  have fifo: "bounded_queue (ring_step S) quiet contents (\<lambda>r. unat (ring_capacity r))"
    by (rule ring_sync_laws.fifo_bounded_queue [OF assms(1)])
  from bounded_queue.run_refines [OF this assms(2-4)] bounded_queue.bounded [OF this]
    queue_run_fifo [OF assms(4)] show ?thesis by metis
qed

theorem rte_ring_refines_bounded_queue_witness:
  "\<exists>r'. run (ring_step seq_sync) demo_ring
      [Enqueue RTE_RING_QUEUE_VARIABLE [30, 40], Dequeue RTE_RING_QUEUE_FIXED 2, Dequeue RTE_RING_QUEUE_FIXED 2]
      = Some (r', [Accepted 1, Delivered [10, 20], Delivered []]) \<and> quiet r' \<and> contents r' = [30]"
proof -
  have "queue_run (unat (ring_capacity demo_ring)) (contents demo_ring)
      [Enqueue RTE_RING_QUEUE_VARIABLE [30, 40], Dequeue RTE_RING_QUEUE_FIXED 2, Dequeue RTE_RING_QUEUE_FIXED 2]
      = ([30], [Accepted 1, Delivered [10, 20], Delivered []])"
    unfolding demo_ring_contents demo_ring_capacity by simp
  from rte_ring_refines_bounded_queue [OF seq.ring_sync_laws_axioms demo_ring_quiet _ this]
  show ?thesis by auto
qed

end
