(* ===== verification/Ring_Extra.thy ===== *)
theory Ring_Extra
  imports Ring_Properties
begin

text \<open>
  The two-phase dequeue of \<open>src/src/ext/rte_ring_extra.c\<close>: \<open>rte_ring_sc_dequeue_burst_peek\<close> moves the
  consumer head and copies the objects out, and \<open>update_sc_tail\<close> later gives the slots back to the
  producers.  One consumer interleaved with producers is a step relation; its invariant says that
  the objects between tail and head are the ones peeked, in order, and that no producer reuses
  their slots before the commit.
\<close>

section \<open>The operations\<close>

text \<open>
  \<open>new_head\<close> is the variable behind the pointer of that name: it is left alone when no object is
  taken.  The result is the count, \<open>*old_head\<close>, \<open>*new_head\<close>, \<open>*entries\<close> and the ring.
\<close>

definition rte_ring_move_sc_cons_head_burst :: "rte_ring \<Rightarrow> u32 \<Rightarrow> u32 \<Rightarrow> u32 \<times> u32 \<times> u32 \<times> u32 \<times> rte_ring" where
  "rte_ring_move_sc_cons_head_burst r n new_head =
     (let old_head = head (cons r);
          prod_tail = tail (prod r);
          entries = prod_tail - old_head;
          n = (if n > entries then entries else n)
      in if n = 0 then (0, old_head, new_head, entries, r)
         else let new_head = old_head + n
              in (n, old_head, new_head, entries, r\<lparr>cons := (cons r)\<lparr>head := new_head\<rparr>\<rparr>))"

definition rte_ring_sc_dequeue_burst_peek :: "rte_ring \<Rightarrow> ptr list \<Rightarrow> u32 \<Rightarrow> u32 \<Rightarrow>
    (rte_ring \<times> ptr list \<times> u32 \<times> u32) option" where
  "rte_ring_sc_dequeue_burst_peek r obj_table n cons_next = do {
     let (n, cons_head, cons_next, entries, r) = rte_ring_move_sc_cons_head_burst r n cons_next;
     obj_table \<leftarrow> (if n = 0 then Some obj_table else DEQUEUE_PTRS r cons_head obj_table n);
     Some (r, obj_table, n, cons_next) }"

definition update_sc_tail :: "rte_ring \<Rightarrow> u32 \<Rightarrow> rte_ring" where
  "update_sc_tail r new_val = r\<lparr>cons := (cons r)\<lparr>tail := new_val\<rparr>\<rparr>"

section \<open>Peeking\<close>

definition ahead :: "rte_ring \<Rightarrow> nat" where
  "ahead r = unat (head (cons r) - tail (cons r))"

text \<open>The objects that have been peeked and not yet committed.\<close>

definition in_flight :: "rte_ring \<Rightarrow> ptr list" where
  "in_flight r = take (ahead r) (contents r)"

definition peek_count :: "rte_ring \<Rightarrow> u32 \<Rightarrow> u32" where
  "peek_count r n = granted RTE_RING_QUEUE_VARIABLE n (tail (prod r) - head (cons r))"

lemma ahead_le: "ring_ok r \<Longrightarrow> ahead r \<le> ring_entries r"
  by (simp add: ring_ok_def ahead_def ring_entries_def word_le_nat_alt)

lemma left_to_peek: "ring_ok r \<Longrightarrow> unat (tail (prod r) - head (cons r)) = ring_entries r - ahead r"
proof -
  assume r: "ring_ok r"
  have "tail (prod r) - head (cons r) =
      (tail (prod r) - tail (cons r)) - (head (cons r) - tail (cons r))" by simp
  moreover have "head (cons r) - tail (cons r) \<le> tail (prod r) - tail (cons r)"
    using r by (simp add: ring_ok_def)
  ultimately show ?thesis unfolding ring_entries_def ahead_def by (simp only: unat_sub)
qed

lemma unat_peek_count: "ring_ok r \<Longrightarrow> unat (peek_count r n) = min (unat n) (ring_entries r - ahead r)"
  by (simp add: peek_count_def granted_transfer left_to_peek)

lemma move_sc_cons_head:
  "rte_ring_move_sc_cons_head_burst r n new_head =
    (peek_count r n, head (cons r), if peek_count r n = 0 then new_head else head (cons r) + peek_count r n,
     tail (prod r) - head (cons r), consumer_ahead r (peek_count r n))"
  by (auto simp: rte_ring_move_sc_cons_head_burst_def peek_count_def granted_def consumer_ahead_def Let_def
      word_gt_0)

lemma consumer_ahead_peek_ok: "ring_ok r \<Longrightarrow> ring_ok (consumer_ahead r (peek_count r n))"
  by (rule consumer_ahead_ok) (simp_all add: peek_count_def granted_le)

lemma ahead_consumer_ahead:
  assumes "ring_ok r"
  shows "ahead (consumer_ahead r (peek_count r n)) = ahead r + unat (peek_count r n)"
proof -
  have "ring_entries r < 2 ^ LENGTH(32)" unfolding ring_entries_def by (rule unsigned_less)
  then have "unat (head (cons r) - tail (cons r)) + unat (peek_count r n) < 2 ^ LENGTH(32)"
    using ahead_le [OF assms] unat_peek_count [OF assms, of n] by (simp add: ahead_def)
  then have "unat ((head (cons r) - tail (cons r)) + of_nat (unat (peek_count r n))) =
      ahead r + unat (peek_count r n)"
    unfolding ahead_def by (rule unat_add_small)
  then show ?thesis by (simp add: ahead_def algebra_simps)
qed

lemma peek_result:
  assumes r: "ring_ok r" and n: "unat (peek_count r n) \<le> length objs"
  shows "rte_ring_sc_dequeue_burst_peek r objs n nxt = Some (consumer_ahead r (peek_count r n),
      take (unat (peek_count r n)) (drop (ahead r) (contents r)) @ drop (unat (peek_count r n)) objs,
      peek_count r n, if peek_count r n = 0 then nxt else head (cons r) + peek_count r n)"
proof -
  let ?k = "peek_count r n"
  have start: "head (cons r) = tail (cons r) + of_nat (ahead r)" by (simp add: ahead_def)
  have "ahead r + unat ?k \<le> ring_entries r"
    using unat_peek_count [OF r, of n] ahead_le [OF r] by simp
  then have "DEQUEUE_PTRS (consumer_ahead r ?k) (head (cons r)) objs ?k =
      Some (take (unat ?k) (drop (ahead r) (contents r)) @ drop (unat ?k) objs)"
    using DEQUEUE_PTRS_contents [OF consumer_ahead_peek_ok [OF r, of n], of "ahead r" ?k objs] n
    by (simp add: ahead_def)
  then show ?thesis by (simp add: rte_ring_sc_dequeue_burst_peek_def move_sc_cons_head)
qed

section \<open>The protocol\<close>

text \<open>
  A consumer that has \<open>peeked\<close> objects and keeps the value to commit, with producers at work.  The
  fields \<open>sent\<close> and \<open>received\<close> are history: everything that was put into the ring, and everything
  the consumer has committed.
\<close>

record peek_state =
  the_ring :: rte_ring
  peeked :: "ptr list"
  commit_to :: u32
  sent :: "ptr list"
  received :: "ptr list"

inductive peek_step :: "ring_sync \<Rightarrow> peek_state \<Rightarrow> peek_state \<Rightarrow> bool" for S where
  produce: "unat n \<le> length objs \<Longrightarrow>
    rte_ring_do_enqueue S (the_ring s) objs n b is_sp fs = Some (r, k, fs') \<Longrightarrow>
    peek_step S s (s\<lparr>the_ring := r, sent := sent s @ take (unat k) objs\<rparr>)"
| peek: "unat n \<le> length objs \<Longrightarrow>
    rte_ring_sc_dequeue_burst_peek (the_ring s) objs n (commit_to s) = Some (r, objs', k, nxt) \<Longrightarrow>
    peek_step S s (s\<lparr>the_ring := r, peeked := peeked s @ take (unat k) objs', commit_to := nxt\<rparr>)"
| commit: "peeked s \<noteq> [] \<Longrightarrow>
    peek_step S s (s\<lparr>the_ring := update_sc_tail (the_ring s) (commit_to s), peeked := [],
      received := received s @ peeked s\<rparr>)"

inductive_cases peek_stepE: "peek_step S s s'"

definition peek_start :: "rte_ring \<Rightarrow> peek_state" where
  "peek_start r = \<lparr>the_ring = r, peeked = [], commit_to = 0, sent = contents r, received = []\<rparr>"

definition peek_inv :: "peek_state \<Rightarrow> bool" where
  "peek_inv s \<longleftrightarrow> ring_ok (the_ring s) \<and> peeked s = in_flight (the_ring s) \<and>
     (peeked s \<noteq> [] \<longrightarrow> commit_to s = head (cons (the_ring s))) \<and>
     sent s = received s @ contents (the_ring s)"

lemma peek_inv_start: "quiet r \<Longrightarrow> peek_inv (peek_start r)"
  by (simp add: peek_inv_def peek_start_def quiet_def in_flight_def ahead_def)

lemma length_in_flight: "ring_ok r \<Longrightarrow> length (in_flight r) = ahead r"
  using ahead_le [of r] by (simp add: in_flight_def)

lemma peek_inv_peek:
  assumes inv: "peek_inv s" and n: "unat n \<le> length objs"
    and op: "rte_ring_sc_dequeue_burst_peek (the_ring s) objs n (commit_to s) = Some (r, objs', k, nxt)"
  shows "peek_inv (s\<lparr>the_ring := r, peeked := peeked s @ take (unat k) objs', commit_to := nxt\<rparr>)"
proof -
  let ?r = "the_ring s"
  let ?k = "peek_count ?r n"
  have r: "ring_ok ?r" using inv by (simp add: peek_inv_def)
  have kn: "unat ?k \<le> unat n" "unat ?k \<le> ring_entries ?r - ahead ?r"
    by (simp_all add: unat_peek_count [OF r])
  have eqs: "r = consumer_ahead ?r ?k" "k = ?k"
    "objs' = take (unat ?k) (drop (ahead ?r) (contents ?r)) @ drop (unat ?k) objs"
    "nxt = (if ?k = 0 then commit_to s else head (cons ?r) + ?k)"
    using op [unfolded peek_result [OF r order_trans [OF kn(1) n]]] by auto
  have "take (unat k) objs' = take (unat ?k) (drop (ahead ?r) (contents ?r))"
    using kn(2) by (simp add: eqs)
  then have "peeked s @ take (unat k) objs' = in_flight r"
    using inv by (simp add: peek_inv_def eqs(1) in_flight_def ahead_consumer_ahead [OF r] take_add)
  moreover have "in_flight r \<noteq> [] \<longrightarrow> nxt = head (cons r)"
  proof (cases "?k = 0")
    case True
    then have "in_flight r = in_flight ?r" by (simp add: eqs(1) in_flight_def ahead_def)
    with inv True show ?thesis by (simp add: eqs peek_inv_def)
  qed (simp add: eqs)
  ultimately show ?thesis
    using inv consumer_ahead_peek_ok [OF r, of n] by (simp add: peek_inv_def eqs(1))
qed

lemma peek_inv_commit:
  assumes inv: "peek_inv s" and p: "peeked s \<noteq> []"
  shows "peek_inv (s\<lparr>the_ring := update_sc_tail (the_ring s) (commit_to s), peeked := [],
      received := received s @ peeked s\<rparr>)"
proof -
  let ?r = "the_ring s"
  let ?k = "head (cons ?r) - tail (cons ?r)"
  have r: "ring_ok ?r" using inv by (simp add: peek_inv_def)
  have "commit_to s = head (cons ?r)" using inv p by (simp add: peek_inv_def)
  then have upd: "update_sc_tail ?r (commit_to s) = after_dequeue ?r ?k"
    by (simp add: update_sc_tail_def after_dequeue_def)
  have k: "unat ?k \<le> ring_entries ?r" using ahead_le [OF r] by (simp add: ahead_def)
  have "peeked s @ drop (unat ?k) (contents ?r) = contents ?r"
    using inv by (simp add: peek_inv_def in_flight_def ahead_def)
  then show ?thesis
    using inv after_dequeue_ok [OF r order_refl] after_dequeue_contents [OF k]
    by (simp add: peek_inv_def upd in_flight_def ahead_def)
qed

context ring_sync_laws
begin

lemma peek_inv_produce:
  assumes inv: "peek_inv s" and n: "unat n \<le> length objs"
    and op: "rte_ring_do_enqueue S (the_ring s) objs n b is_sp fs = Some (r, k, fs')"
  shows "peek_inv (s\<lparr>the_ring := r, sent := sent s @ take (unat k) objs\<rparr>)"
proof -
  let ?r = "the_ring s"
  let ?k = "enqueue_count b ?r n"
  have r: "ring_ok ?r" using inv by (simp add: peek_inv_def)
  have "?k \<le> n" by (simp add: enqueue_count_def granted_le)
  with n have len: "unat ?k \<le> length objs" by (simp add: word_le_nat_alt)
  have room: "?k \<le> rte_ring_free_count ?r" by (simp add: enqueue_count_def granted_le)
  from op [unfolded do_enqueue [OF r len]] have eqs: "r = after_enqueue ?r objs ?k" "k = ?k" by auto
  have c: "contents r = contents ?r @ take (unat k) objs"
    using after_enqueue_contents [OF r room len] by (simp add: eqs)
  have "ahead r = ahead ?r" by (simp add: eqs ahead_def)
  with c have "in_flight r = in_flight ?r" using ahead_le [OF r] by (simp add: in_flight_def)
  with inv c after_enqueue_ok [OF r room, of objs] show ?thesis by (simp add: peek_inv_def eqs)
qed

lemma peek_inv_step: "peek_step S s s' \<Longrightarrow> peek_inv s \<Longrightarrow> peek_inv s'"
  by (elim peek_stepE) (auto intro: peek_inv_produce peek_inv_peek peek_inv_commit)

lemma peek_inv_reachable: "(peek_step S)\<^sup>*\<^sup>* s s' \<Longrightarrow> peek_inv s \<Longrightarrow> peek_inv s'"
  by (induction rule: rtranclp_induct) (auto intro: peek_inv_step)

end

section \<open>Properties\<close>

lemma peek_count_quiet: "quiet r \<Longrightarrow> peek_count r n = dequeue_count RTE_RING_QUEUE_VARIABLE r n"
  by (simp add: peek_count_def dequeue_count_def count_word quietD)

text \<open>
  C27: A peek followed, when it took something, by the commit of the value it returned is a
  single-consumer burst dequeue: the same objects, the same count and the same ring.
\<close>

theorem peek_then_commit_is_dequeue:
  assumes "ring_sync_laws S" "quiet r" "unat n \<le> length objs"
  shows "\<exists>r' objs' k nxt. rte_ring_sc_dequeue_burst_peek r objs n cons_next = Some (r', objs', k, nxt) \<and>
    rte_ring_sc_dequeue_burst S r objs n None =
      Some (if k = 0 then r' else update_sc_tail r' nxt, objs', k, None) \<and>
    contents r' = contents r"
proof -
  let ?k = "peek_count r n"
  note ok = quietD(1) [OF assms(2)]
  have len: "unat ?k \<le> length objs" using assms(3) by (simp add: unat_peek_count [OF ok])
  have ahead0: "ahead r = 0" using quietD(2) [OF assms(2)] by (simp add: ahead_def)
  have "rte_ring_sc_dequeue_burst S r objs n None = Some (after_sc_dequeue r ?k,
      take (unat ?k) (contents r) @ drop (unat ?k) objs, ?k, None)"
    using ring_sync_laws.do_dequeue [OF assms(1,2), of RTE_RING_QUEUE_VARIABLE n objs IS_SC None]
      len peek_count_quiet [OF assms(2)] by (simp add: ring_api)
  moreover have "update_sc_tail (consumer_ahead r ?k) (head (cons r) + ?k) = after_sc_dequeue r ?k"
    by (simp add: update_sc_tail_def after_sc_dequeue_def after_dequeue_def consumer_ahead_def
        quietD(2) [OF assms(2)])
  moreover have "consumer_ahead r 0 = r" by (simp add: consumer_ahead_def)
  ultimately show ?thesis
    using peek_result [OF ok len, of cons_next] by (simp add: ahead0)
qed

theorem peek_then_commit_is_dequeue_witness:
  "\<exists>r' objs' k nxt. rte_ring_sc_dequeue_burst_peek demo_ring [1, 2, 3] 3 99 = Some (r', objs', k, nxt) \<and>
    rte_ring_sc_dequeue_burst seq_sync demo_ring [1, 2, 3] 3 None =
      Some (if k = 0 then r' else update_sc_tail r' nxt, objs', k, None) \<and> contents r' = [10, 20]"
  using peek_then_commit_is_dequeue [OF seq.ring_sync_laws_axioms demo_ring_quiet, of 3 "[1, 2, 3]" 99]
  unfolding demo_ring_contents by simp

text \<open>
  C11: Whatever producers do between the peeks and the commits of a consumer, nothing is lost,
  repeated or reordered: everything sent is what was committed, then what the consumer holds, then
  what is still to be peeked; and the slots of the objects the consumer holds are not overwritten
  before it commits.
\<close>

theorem peek_protocol_safe:
  assumes "ring_sync_laws S" "quiet r" "(peek_step S)\<^sup>*\<^sup>* (peek_start r) s"
  shows "ring_ok (the_ring s) \<and>
    (\<exists>waiting. sent s = received s @ peeked s @ waiting \<and> contents (the_ring s) = peeked s @ waiting)"
proof -
  have "peek_inv s"
    using ring_sync_laws.peek_inv_reachable [OF assms(1,3)] peek_inv_start [OF assms(2)] by blast
  then have "ring_ok (the_ring s)" "sent s = received s @ contents (the_ring s)"
    "contents (the_ring s) = peeked s @ drop (ahead (the_ring s)) (contents (the_ring s))"
    by (simp_all add: peek_inv_def in_flight_def)
  then show ?thesis by metis
qed

lemma demo_peek: "rte_ring_sc_dequeue_burst_peek demo_ring [0] 1 0 =
    Some (consumer_ahead demo_ring 1, [10], 1, 0xFFFFFFFF)"
proof -
  have start: "ahead demo_ring = 0" "head (cons demo_ring) + 1 = 0xFFFFFFFF"
    by (simp_all add: ahead_def demo_ring_def)
  have "ring_entries demo_ring = 2" using demo_ring_contents by (metis length_contents length_Cons list.size(3) numeral_2_eq_2)
  with start have "unat (peek_count demo_ring 1) = unat (1 :: u32)"
    by (simp add: unat_peek_count [OF quietD(1) [OF demo_ring_quiet]])
  then have "peek_count demo_ring 1 = 1" by (simp only: word_unat_eq_iff)
  moreover note start
  ultimately show ?thesis
    using peek_result [OF quietD(1) [OF demo_ring_quiet], of 1 "[0]" 0] by (simp add: demo_ring_contents)
qed

theorem peek_protocol_safe_witness:
  "\<exists>s. (peek_step seq_sync)\<^sup>*\<^sup>* (peek_start demo_ring) s \<and> peeked s = [10] \<and> ring_ok (the_ring s) \<and>
    (\<exists>waiting. sent s = received s @ [10] @ waiting \<and> contents (the_ring s) = [10] @ waiting)"
proof -
  let ?s = "(peek_start demo_ring)\<lparr>the_ring := consumer_ahead demo_ring 1, peeked := [10], commit_to := 0xFFFFFFFF\<rparr>"
  have "peek_step seq_sync (peek_start demo_ring) ?s"
    using peek_step.peek [of 1 "[0]" "peek_start demo_ring" _ "[10]" 1 "0xFFFFFFFF" seq_sync] demo_peek
    by (simp add: peek_start_def)
  then have "(peek_step seq_sync)\<^sup>*\<^sup>* (peek_start demo_ring) ?s" by blast
  from this peek_protocol_safe [OF seq.ring_sync_laws_axioms demo_ring_quiet this] show ?thesis
    by (intro exI [of _ ?s]) simp
qed

end
