(* ===== verification/Ring_Threads.thy ===== *)
theory Ring_Threads
  imports Ring_Properties
begin

text \<open>
  Many producers and many consumers on one ring of \<open>src/src/ext/rte_ring.c\<close>.  An operation of a thread is the
  three steps of \<open>__rte_ring_do_enqueue\<close> and \<open>__rte_ring_do_dequeue\<close>: the move of the head, the copy, and
  the move of the tail, which waits for the operations that reserved before.  The steps of
  different threads interleave freely.  The external functions are taken as atomic; the copies of
  different operations touch different slots, which is part of what is proved.

  The safety result is that whatever the interleaving the consumers receive the objects that the
  producers were granted, each once and in the order of the reservations; the progress result is
  that no operation in progress can be blocked for good by the others.
\<close>

section \<open>The head and tail movements while other operations are in progress\<close>

definition ring_busy_ok :: "rte_ring \<Rightarrow> bool" where
  "ring_busy_ok r \<longleftrightarrow> ring_shape r \<and> head (prod r) - tail (cons r) \<le> ring_capacity r \<and>
     head (cons r) - tail (cons r) \<le> tail (prod r) - tail (cons r) \<and>
     tail (prod r) - tail (cons r) \<le> head (prod r) - tail (cons r)"

lemma ring_ok_busy: "ring_ok r \<Longrightarrow> ring_busy_ok r"
  by (simp add: ring_ok_def ring_busy_ok_def ring_entries_def word_le_nat_alt)

locale ring_mt_laws =
  fixes S :: ring_sync
  assumes mt_prod_none: "ring_busy_ok r \<Longrightarrow> granted b n (ring_capacity r + tail (cons r) - head (prod r)) = 0 \<Longrightarrow>
      \<exists>old new. move_prod_head S r is_sp n b =
        (0, old, new, ring_capacity r + tail (cons r) - head (prod r), r)"
    and mt_prod_some: "ring_busy_ok r \<Longrightarrow> k = granted b n (ring_capacity r + tail (cons r) - head (prod r)) \<Longrightarrow> k \<noteq> 0 \<Longrightarrow>
      move_prod_head S r is_sp n b = (k, head (prod r), head (prod r) + k,
        ring_capacity r + tail (cons r) - head (prod r),
        r\<lparr>prod := (prod r)\<lparr>head := head (prod r) + k\<rparr>\<rparr>)"
    and mt_cons_none: "ring_busy_ok r \<Longrightarrow> granted b n (tail (prod r) - head (cons r)) = 0 \<Longrightarrow>
      \<exists>old new. move_cons_head S r is_sc n b = (0, old, new, tail (prod r) - head (cons r), r)"
    and mt_cons_some: "ring_busy_ok r \<Longrightarrow> k = granted b n (tail (prod r) - head (cons r)) \<Longrightarrow> k \<noteq> 0 \<Longrightarrow>
      move_cons_head S r is_sc n b = (k, head (cons r), head (cons r) + k,
        tail (prod r) - head (cons r), r\<lparr>cons := (cons r)\<lparr>head := head (cons r) + k\<rparr>\<rparr>)"
    and mt_tail_update: "tail half = old \<Longrightarrow> update_tail S half old new is_single enq = half\<lparr>tail := new\<rparr>"

text \<open>The laws for threads in progress give those for a ring at rest.\<close>

sublocale ring_mt_laws \<subseteq> ring_sync_laws
  by unfold_locales
    (auto intro: mt_prod_none mt_prod_some mt_cons_none mt_cons_some mt_tail_update dest: ring_ok_busy)

context ring_mt_laws
begin

lemma sync_laws: "ring_sync_laws S"
  by unfold_locales

end

interpretation seq_mt: ring_mt_laws seq_sync
  by unfold_locales (simp_all add: seq_sync_def seq_move_prod_head_def seq_move_cons_head_def Let_def)

section \<open>Threads\<close>

text \<open>An operation between its two moves: the local variables, and whether the copy is done.\<close>

record pending =
  op_thread :: nat
  op_head :: u32
  op_next :: u32
  op_count :: u32
  op_table :: "ptr list"
  op_copied :: bool

text \<open>
  The operations in progress are listed in the order of their reservations.  History:
  \<open>accepted\<close> are the objects granted to producers, in that order; \<open>received\<close> those that finished
  dequeues returned.
\<close>

record mt_state =
  mt_ring :: rte_ring
  enqs :: "pending list"
  deqs :: "pending list"
  accepted_objs :: "ptr list"
  received_objs :: "ptr list"

definition idle :: "nat \<Rightarrow> mt_state \<Rightarrow> bool" where
  "idle t s \<longleftrightarrow> t \<notin> op_thread ` set (enqs s) \<union> op_thread ` set (deqs s)"

definition remove_nth :: "nat \<Rightarrow> 'a list \<Rightarrow> 'a list" where
  "remove_nth i xs = take i xs @ drop (Suc i) xs"

text \<open>The steps that start an operation.  One that is granted nothing returns at once.\<close>

inductive start_step :: "ring_sync \<Rightarrow> mt_state \<Rightarrow> mt_state \<Rightarrow> bool" for S where
  enqueue_start: "idle t s \<Longrightarrow> unat n \<le> length objs \<Longrightarrow>
    move_prod_head S (mt_ring s) IS_MP n b = (k, prod_head, prod_next, free, r) \<Longrightarrow>
    start_step S s (if k = 0 then s\<lparr>mt_ring := r\<rparr>
      else s\<lparr>mt_ring := r, enqs := enqs s @ [\<lparr>op_thread = t, op_head = prod_head, op_next = prod_next,
               op_count = k, op_table = objs, op_copied = False\<rparr>],
             accepted_objs := accepted_objs s @ take (unat k) objs\<rparr>)"
| dequeue_start: "idle t s \<Longrightarrow> unat n \<le> length objs \<Longrightarrow>
    move_cons_head S (mt_ring s) IS_MC n b = (k, cons_head, cons_next, used, r) \<Longrightarrow>
    start_step S s (if k = 0 then s\<lparr>mt_ring := r\<rparr>
      else s\<lparr>mt_ring := r, deqs := deqs s @ [\<lparr>op_thread = t, op_head = cons_head, op_next = cons_next,
               op_count = k, op_table = objs, op_copied = False\<rparr>]\<rparr>)"

text \<open>The steps that carry on an operation; \<open>update_tail\<close> waits until the tail is the old head.\<close>

inductive work_step :: "ring_sync \<Rightarrow> mt_state \<Rightarrow> mt_state \<Rightarrow> bool" for S where
  enqueue_copy: "i < length (enqs s) \<Longrightarrow> p = enqs s ! i \<Longrightarrow> \<not> op_copied p \<Longrightarrow>
    ENQUEUE_PTRS (mt_ring s) (op_head p) (op_table p) (op_count p) = Some ring \<Longrightarrow>
    work_step S s (s\<lparr>mt_ring := (mt_ring s)\<lparr>ring_table := ring\<rparr>,
      enqs := (enqs s)[i := p\<lparr>op_copied := True\<rparr>]\<rparr>)"
| enqueue_tail: "i < length (enqs s) \<Longrightarrow> p = enqs s ! i \<Longrightarrow> op_copied p \<Longrightarrow>
    tail (prod (mt_ring s)) = op_head p \<Longrightarrow>
    half = update_tail S (prod (mt_ring s)) (op_head p) (op_next p) IS_MP 1 \<Longrightarrow>
    work_step S s (s\<lparr>mt_ring := (mt_ring s)\<lparr>prod := half\<rparr>, enqs := remove_nth i (enqs s)\<rparr>)"
| dequeue_copy: "i < length (deqs s) \<Longrightarrow> p = deqs s ! i \<Longrightarrow> \<not> op_copied p \<Longrightarrow>
    DEQUEUE_PTRS (mt_ring s) (op_head p) (op_table p) (op_count p) = Some objs \<Longrightarrow>
    work_step S s (s\<lparr>deqs := (deqs s)[i := p\<lparr>op_table := objs, op_copied := True\<rparr>]\<rparr>)"
| dequeue_tail: "i < length (deqs s) \<Longrightarrow> p = deqs s ! i \<Longrightarrow> op_copied p \<Longrightarrow>
    tail (cons (mt_ring s)) = op_head p \<Longrightarrow>
    half = update_tail S (cons (mt_ring s)) (op_head p) (op_next p) IS_MC 0 \<Longrightarrow>
    work_step S s (s\<lparr>mt_ring := (mt_ring s)\<lparr>cons := half\<rparr>, deqs := remove_nth i (deqs s),
      received_objs := received_objs s @ take (unat (op_count p)) (op_table p)\<rparr>)"

definition mt_step :: "ring_sync \<Rightarrow> mt_state \<Rightarrow> mt_state \<Rightarrow> bool" where
  "mt_step S s s' \<longleftrightarrow> start_step S s s' \<or> work_step S s s'"

inductive_cases start_stepE: "start_step S s s'"
inductive_cases work_stepE: "work_step S s s'"

definition mt_start :: "rte_ring \<Rightarrow> mt_state" where
  "mt_start r = \<lparr>mt_ring = r, enqs = [], deqs = [], accepted_objs = contents r, received_objs = []\<rparr>"

section \<open>Operations laid out one after the other\<close>

definition claimed :: "pending list \<Rightarrow> nat" where
  "claimed ps = sum_list (map (\<lambda>p. unat (op_count p)) ps)"

lemma claimed_simps [simp]: "claimed [] = 0" "claimed (p # ps) = unat (op_count p) + claimed ps"
    "claimed (ps @ qs) = claimed ps + claimed qs"
  by (simp_all add: claimed_def)

text \<open>\<open>P\<close> holds of every operation and the position it starts at, the first starting at \<open>a\<close>.\<close>

definition every_op :: "(nat \<Rightarrow> pending \<Rightarrow> bool) \<Rightarrow> nat \<Rightarrow> pending list \<Rightarrow> bool" where
  "every_op P a ps \<longleftrightarrow> (\<forall>i<length ps. P (a + claimed (take i ps)) (ps ! i))"

lemma every_op_Nil [simp]: "every_op P a []"
  by (simp add: every_op_def)

lemma every_op_Cons [simp]: "every_op P a (p # ps) \<longleftrightarrow> P a p \<and> every_op P (a + unat (op_count p)) ps"
  by (auto simp: every_op_def nth_Cons' take_Cons' all_conj_distrib add.assoc
      dest: spec [of _ "Suc _"] spec [of _ 0])

lemma every_op_append [simp]:
  "every_op P a (ps @ qs) \<longleftrightarrow> every_op P a ps \<and> every_op P (a + claimed ps) qs"
  by (induction ps arbitrary: a) (simp_all add: add.assoc)

lemma every_op_nth: "every_op P a ps \<Longrightarrow> i < length ps \<Longrightarrow> P (a + claimed (take i ps)) (ps ! i)"
  by (simp add: every_op_def)

lemma claimed_take_update:
  "op_count p = op_count (ps ! i) \<Longrightarrow> claimed (take j (ps[i := p])) = claimed (take j ps)"
proof (cases "i < length ps")
  case True
  assume "op_count p = op_count (ps ! i)"
  then have "map (\<lambda>p. unat (op_count p)) (ps[i := p]) = map (\<lambda>p. unat (op_count p)) ps"
    using True by (simp add: map_update) (metis length_map list_update_id nth_map)
  then show ?thesis by (metis take_map claimed_def)
qed (simp add: list_update_beyond)

lemma claimed_update [simp]: "op_count p = op_count (ps ! i) \<Longrightarrow> claimed (ps[i := p]) = claimed ps"
  using claimed_take_update [of p ps i "length ps"] by simp

lemma every_op_update:
  assumes "every_op P a ps" "i < length ps" "op_count p = op_count (ps ! i)"
    "Q (a + claimed (take i ps)) p"
    "\<And>j. j < length ps \<Longrightarrow> j \<noteq> i \<Longrightarrow> P (a + claimed (take j ps)) (ps ! j) \<Longrightarrow> Q (a + claimed (take j ps)) (ps ! j)"
  shows "every_op Q a (ps[i := p])"
  using assms by (auto simp: every_op_def claimed_take_update nth_list_update)

lemma claimed_take_nth: "i < length ps \<Longrightarrow> claimed (take i ps) + unat (op_count (ps ! i)) = claimed (take (Suc i) ps)"
  by (simp add: take_Suc_conv_app_nth)

lemma claimed_take_mono: "i \<le> j \<Longrightarrow> claimed (take i ps) \<le> claimed (take j ps)"
  by (metis le_add1 le_add_diff_inverse take_add claimed_simps(3))

lemma claimed_take_le: "claimed (take i ps) \<le> claimed ps"
  using claimed_take_mono [of i "max i (length ps)" ps] by simp

text \<open>Different operations have separate ranges.\<close>

lemma ranges_disjoint:
  assumes "i < length ps" "j < length ps" "i \<noteq> j"
  shows "claimed (take i ps) + unat (op_count (ps ! i)) \<le> claimed (take j ps) \<or>
    claimed (take j ps) + unat (op_count (ps ! j)) \<le> claimed (take i ps)"
  using assms claimed_take_mono [of "Suc i" j ps] claimed_take_mono [of "Suc j" i ps]
  by (cases "i < j") (auto simp: claimed_take_nth)

section \<open>The invariant\<close>

text \<open>
  Positions count the objects since the start: \<open>length (received_objs s)\<close> is that of the consumer
  tail, \<open>published s\<close> that of the producer tail.  \<open>base\<close> is the consumer tail at the start, so the
  object at position \<open>i\<close> has the slot \<open>(base + i) mod size\<close>.
\<close>

definition published :: "mt_state \<Rightarrow> nat" where
  "published s = length (accepted_objs s) - claimed (enqs s)"

definition op_frame :: "nat \<Rightarrow> nat \<Rightarrow> pending \<Rightarrow> bool" where
  "op_frame base a p \<longleftrightarrow> op_count p \<noteq> 0 \<and> op_head p = of_nat (base + a) \<and>
     op_next p = of_nat (base + a + unat (op_count p)) \<and> unat (op_count p) \<le> length (op_table p)"

definition enq_op :: "nat \<Rightarrow> rte_ring \<Rightarrow> ptr list \<Rightarrow> nat \<Rightarrow> pending \<Rightarrow> bool" where
  "enq_op base r acc a p \<longleftrightarrow> op_frame base a p \<and>
     (\<forall>j<unat (op_count p). acc ! (a + j) = op_table p ! j \<and>
        (op_copied p \<longrightarrow> ring_table r ! ((base + (a + j)) mod unat (ring_size r)) = acc ! (a + j)))"

definition deq_op :: "nat \<Rightarrow> ptr list \<Rightarrow> nat \<Rightarrow> pending \<Rightarrow> bool" where
  "deq_op base acc a p \<longleftrightarrow> op_frame base a p \<and>
     (op_copied p \<longrightarrow> take (unat (op_count p)) (op_table p) = take (unat (op_count p)) (drop a acc))"

definition mt_indexes :: "nat \<Rightarrow> mt_state \<Rightarrow> bool" where
  "mt_indexes base s \<longleftrightarrow> ring_shape (mt_ring s) \<and> claimed (enqs s) \<le> length (accepted_objs s) \<and>
     length (received_objs s) + claimed (deqs s) \<le> published s \<and>
     length (accepted_objs s) \<le> length (received_objs s) + unat (ring_capacity (mt_ring s)) \<and>
     tail (cons (mt_ring s)) = of_nat (base + length (received_objs s)) \<and>
     head (cons (mt_ring s)) = of_nat (base + (length (received_objs s) + claimed (deqs s))) \<and>
     tail (prod (mt_ring s)) = of_nat (base + published s) \<and>
     head (prod (mt_ring s)) = of_nat (base + length (accepted_objs s))"

definition mt_inv :: "nat \<Rightarrow> mt_state \<Rightarrow> bool" where
  "mt_inv base s \<longleftrightarrow> mt_indexes base s \<and>
     received_objs s = take (length (received_objs s)) (accepted_objs s) \<and>
     every_op (enq_op base (mt_ring s) (accepted_objs s)) (published s) (enqs s) \<and>
     every_op (deq_op base (accepted_objs s)) (length (received_objs s)) (deqs s) \<and>
     (\<forall>i. length (received_objs s) \<le> i \<and> i < published s \<longrightarrow>
        ring_table (mt_ring s) ! ((base + i) mod unat (ring_size (mt_ring s))) = accepted_objs s ! i)"

lemma of_nat_distance: "b \<le> a \<Longrightarrow> a - b < 2 ^ 32 \<Longrightarrow> unat (of_nat (c + a) - of_nat (c + b) :: u32) = a - b"
  by (metis add_diff_cancel_left nat_add_left_cancel_le of_nat_diff unat_of_count)

lemma mt_indexes_bounds:
  assumes "mt_indexes base s"
  shows "unat (ring_capacity (mt_ring s)) < unat (ring_size (mt_ring s))"
    "unat (ring_size (mt_ring s)) \<le> 2 ^ 31"
  using assms ring_size_small [of "mt_ring s"] by (auto simp: mt_indexes_def elim!: shapeE)

lemma mt_indexes_distances:
  assumes "mt_indexes base s"
  shows "unat (head (prod (mt_ring s)) - tail (cons (mt_ring s))) = length (accepted_objs s) - length (received_objs s)"
    "unat (tail (prod (mt_ring s)) - tail (cons (mt_ring s))) = published s - length (received_objs s)"
    "unat (head (cons (mt_ring s)) - tail (cons (mt_ring s))) = claimed (deqs s)"
    "unat (tail (prod (mt_ring s)) - head (cons (mt_ring s))) = published s - (length (received_objs s) + claimed (deqs s))"
proof -
  note i = assms [unfolded mt_indexes_def]
  have le: "length (received_objs s) + claimed (deqs s) \<le> published s" "published s \<le> length (accepted_objs s)"
    using i by (simp_all add: published_def)
  have small: "length (accepted_objs s) - length (received_objs s) < 2 ^ 32"
  proof -
    have "length (accepted_objs s) \<le> length (received_objs s) + unat (ring_capacity (mt_ring s))" using i by blast
    then show ?thesis using mt_indexes_bounds [OF assms] by simp
  qed
  show "unat (head (prod (mt_ring s)) - tail (cons (mt_ring s))) = length (accepted_objs s) - length (received_objs s)"
    "unat (tail (prod (mt_ring s)) - tail (cons (mt_ring s))) = published s - length (received_objs s)"
    "unat (tail (prod (mt_ring s)) - head (cons (mt_ring s))) = published s - (length (received_objs s) + claimed (deqs s))"
    using i le small by (simp_all only: of_nat_distance)
  have "unat (head (cons (mt_ring s)) - tail (cons (mt_ring s))) =
      (length (received_objs s) + claimed (deqs s)) - length (received_objs s)"
    using i le small by (simp only: of_nat_distance)
  then show "unat (head (cons (mt_ring s)) - tail (cons (mt_ring s))) = claimed (deqs s)" by simp
qed

lemma mt_indexes_busy:
  assumes "mt_indexes base s"
  shows "ring_busy_ok (mt_ring s)"
proof -
  note i = assms [unfolded mt_indexes_def]
  have "published s \<le> length (accepted_objs s)" by (simp add: published_def)
  then show ?thesis
    using i mt_indexes_distances [OF assms] unfolding ring_busy_ok_def word_le_nat_alt by linarith
qed

lemma mt_free:
  assumes "mt_indexes base s"
  shows "unat (ring_capacity (mt_ring s) + tail (cons (mt_ring s)) - head (prod (mt_ring s))) =
    unat (ring_capacity (mt_ring s)) - (length (accepted_objs s) - length (received_objs s))"
proof -
  have "ring_capacity (mt_ring s) + tail (cons (mt_ring s)) - head (prod (mt_ring s)) =
      ring_capacity (mt_ring s) - (head (prod (mt_ring s)) - tail (cons (mt_ring s)))" by simp
  moreover have "head (prod (mt_ring s)) - tail (cons (mt_ring s)) \<le> ring_capacity (mt_ring s)"
    using mt_indexes_busy [OF assms] by (simp add: ring_busy_ok_def)
  ultimately show ?thesis by (simp only: unat_sub mt_indexes_distances(1) [OF assms])
qed

lemma mt_slot:
  assumes "ring_shape r"
  shows "slot r (of_nat i) = i mod unat (ring_size r)"
proof -
  from assms obtain k where k: "k < 32" "unat (ring_size r) = 2 ^ k" by (rule shapeE)
  then have "(2 :: nat) ^ k dvd 2 ^ 32" by (intro le_imp_power_dvd) simp
  then show ?thesis
    using k by (simp add: slot_mod [OF assms] unsigned_of_nat take_bit_eq_mod mod_mod_cancel)
qed

section \<open>Starting an operation\<close>

lemma put_run_window:
  assumes "i < a \<or> a + k \<le> i" "a + k \<le> i + n" "i < a + n"
  shows "put_run n ((c + a) mod n) xs ring k ! ((c + i) mod n) = ring ! ((c + i) mod n)"
proof (cases "i < a")
  case True
  have "((c + a) mod n + (n + i - a)) mod n = (c + a + (n + i - a)) mod n" by (rule mod_add_left_eq)
  also have "c + a + (n + i - a) = (c + i) + n" using assms(2) by linarith
  finally have "((c + a) mod n + (n + i - a)) mod n = (c + i) mod n" by simp
  then show ?thesis
    using put_run_out [of k n "n + i - a" "(c + a) mod n" xs ring] True assms by fastforce
next
  case False
  have "((c + a) mod n + (i - a)) mod n = (c + a + (i - a)) mod n" by (rule mod_add_left_eq)
  also have "c + a + (i - a) = c + i" using False by simp
  finally show ?thesis
    using put_run_out [of k n "i - a" "(c + a) mod n" xs ring] False assms by fastforce
qed

lemma enq_op_append:
  "enq_op base r acc a p \<Longrightarrow> a + unat (op_count p) \<le> length acc \<Longrightarrow> enq_op base r (acc @ xs) a p"
  by (auto simp: enq_op_def nth_append)

lemma every_enq_op_append:
  assumes "every_op (enq_op base r acc) a ps" "a + claimed ps \<le> length acc"
  shows "every_op (enq_op base r (acc @ xs)) a ps"
  using assms by (induction ps arbitrary: a) (auto intro: enq_op_append)

lemma deq_op_append:
  "deq_op base acc a p \<Longrightarrow> a + unat (op_count p) \<le> length acc \<Longrightarrow> deq_op base (acc @ xs) a p"
  by (auto simp: deq_op_def)

lemma every_deq_op_append:
  assumes "every_op (deq_op base acc) a ps" "a + claimed ps \<le> length acc"
  shows "every_op (deq_op base (acc @ xs)) a ps"
  using assms by (induction ps arbitrary: a) (auto intro: deq_op_append)

lemma enq_op_ring_cong:
  "ring_table r' = ring_table r \<Longrightarrow> ring_size r' = ring_size r \<Longrightarrow> enq_op base r' = enq_op base r"
  by (intro ext) (simp add: enq_op_def)

lemma mt_invD:
  assumes "mt_inv base s"
  shows "mt_indexes base s" "published s \<le> length (accepted_objs s)"
    "length (received_objs s) + claimed (deqs s) \<le> published s"
    "published s + claimed (enqs s) = length (accepted_objs s)"
  using assms by (auto simp: mt_inv_def mt_indexes_def published_def)

context ring_mt_laws
begin

lemma enqueue_start_inv:
  assumes inv: "mt_inv base s" and len: "unat n \<le> length objs"
    and move: "move_prod_head S (mt_ring s) IS_MP n b = (k, prod_head, prod_next, free, r)"
  shows "mt_inv base (if k = 0 then s\<lparr>mt_ring := r\<rparr>
      else s\<lparr>mt_ring := r, enqs := enqs s @ [\<lparr>op_thread = t, op_head = prod_head, op_next = prod_next,
               op_count = k, op_table = objs, op_copied = False\<rparr>],
             accepted_objs := accepted_objs s @ take (unat k) objs\<rparr>)"
proof -
  let ?r = "mt_ring s"
  note ix = mt_invD(1) [OF inv]
  note busy = mt_indexes_busy [OF ix]
  let ?limit = "ring_capacity ?r + tail (cons ?r) - head (prod ?r)"
  show ?thesis
  proof (cases "granted b n ?limit = 0")
    case True
    then have "k = 0" "r = ?r" using mt_prod_none [OF busy True, of IS_MP] move by auto
    then show ?thesis using inv by simp
  next
    case False
    let ?k = "granted b n ?limit"
    have kd: "k = ?k" and eqs: "prod_head = head (prod ?r)" "prod_next = head (prod ?r) + k"
      "r = ?r\<lparr>prod := (prod ?r)\<lparr>head := head (prod ?r) + k\<rparr>\<rparr>"
      using mt_prod_some [OF busy refl False, of IS_MP] move by auto
    have k: "unat k \<le> unat ?limit" "unat k \<le> length objs" "k \<noteq> 0"
      using granted_le [of b n ?limit] len False by (simp_all add: kd word_le_nat_alt)
    have nxt: "of_nat (base + x) + k = of_nat (base + (x + unat k))" for x by (simp add: add.assoc)
    define s' where "s' = s\<lparr>mt_ring := r, enqs := enqs s @ [\<lparr>op_thread = t, op_head = prod_head, op_next = prod_next,
               op_count = k, op_table = objs, op_copied = False\<rparr>],
             accepted_objs := accepted_objs s @ take (unat k) objs\<rparr>"
    have same [simp]: "published s' = published s" "received_objs s' = received_objs s" "deqs s' = deqs s"
        "ring_table (mt_ring s') = ring_table ?r" "ring_size (mt_ring s') = ring_size ?r"
        "accepted_objs s' = accepted_objs s @ take (unat k) objs"
      using k(2) by (simp_all add: s'_def published_def eqs)
    have "mt_indexes base s'"
      using ix k(1,2) mt_free [OF ix] mt_invD [OF inv]
      by (auto simp: mt_indexes_def s'_def published_def eqs nxt simp del: of_nat_add)
    moreover have "every_op (enq_op base (mt_ring s') (accepted_objs s')) (published s') (enqs s')"
      using inv k mt_invD(2,4) [OF inv] ix
      by (simp add: mt_inv_def enq_op_ring_cong [of "mt_ring s'" ?r])
         (auto simp: s'_def enq_op_def op_frame_def eqs nth_append mt_indexes_def
            intro!: every_enq_op_append)
    moreover have "every_op (deq_op base (accepted_objs s')) (length (received_objs s')) (deqs s')"
      using inv mt_invD [OF inv] by (simp add: mt_inv_def every_deq_op_append)
    ultimately show ?thesis
      using inv k mt_invD [OF inv] unfolding s'_def [symmetric]
      by (auto simp: mt_inv_def nth_append)
  qed
qed

lemma dequeue_start_inv:
  assumes inv: "mt_inv base s" and len: "unat n \<le> length objs"
    and move: "move_cons_head S (mt_ring s) IS_MC n b = (k, cons_head, cons_next, used, r)"
  shows "mt_inv base (if k = 0 then s\<lparr>mt_ring := r\<rparr>
      else s\<lparr>mt_ring := r, deqs := deqs s @ [\<lparr>op_thread = t, op_head = cons_head, op_next = cons_next,
               op_count = k, op_table = objs, op_copied = False\<rparr>]\<rparr>)"
proof -
  let ?r = "mt_ring s"
  note ix = mt_invD(1) [OF inv]
  note busy = mt_indexes_busy [OF ix]
  let ?limit = "tail (prod ?r) - head (cons ?r)"
  show ?thesis
  proof (cases "granted b n ?limit = 0")
    case True
    then have "k = 0" "r = ?r" using mt_cons_none [OF busy True, of IS_MC] move by auto
    then show ?thesis using inv by simp
  next
    case False
    have kd: "k = granted b n ?limit" and eqs: "cons_head = head (cons ?r)" "cons_next = head (cons ?r) + k"
      "r = ?r\<lparr>cons := (cons ?r)\<lparr>head := head (cons ?r) + k\<rparr>\<rparr>"
      using mt_cons_some [OF busy refl False, of IS_MC] move by auto
    have k: "unat k \<le> unat ?limit" "unat k \<le> length objs" "k \<noteq> 0"
      using granted_le [of b n ?limit] len False by (simp_all add: kd word_le_nat_alt)
    have nxt: "of_nat (base + x) + k = of_nat (base + (x + unat k))" for x by (simp add: add.assoc)
    define s' where "s' = s\<lparr>mt_ring := r, deqs := deqs s @ [\<lparr>op_thread = t, op_head = cons_head, op_next = cons_next,
               op_count = k, op_table = objs, op_copied = False\<rparr>]\<rparr>"
    have same [simp]: "published s' = published s" "received_objs s' = received_objs s" "enqs s' = enqs s"
        "ring_table (mt_ring s') = ring_table ?r" "ring_size (mt_ring s') = ring_size ?r"
        "accepted_objs s' = accepted_objs s"
      by (simp_all add: s'_def published_def eqs)
    have "mt_indexes base s'"
      using ix k(1,2) mt_indexes_distances(4) [OF ix] mt_invD [OF inv]
      by (auto simp: mt_indexes_def s'_def published_def eqs nxt add.assoc simp del: of_nat_add)
    moreover have "every_op (deq_op base (accepted_objs s')) (length (received_objs s')) (deqs s')"
      using inv k ix by (auto simp: mt_inv_def s'_def deq_op_def op_frame_def eqs mt_indexes_def add.assoc)
    ultimately show ?thesis
      using inv k unfolding s'_def [symmetric]
      by (simp add: mt_inv_def enq_op_ring_cong [of "mt_ring s'" ?r])
  qed
qed

end

section \<open>Copying\<close>

lemma op_in_window:
  assumes inv: "mt_inv base s" and i: "i < length (enqs s)"
  shows "published s + claimed (take i (enqs s)) + unat (op_count (enqs s ! i)) \<le> length (accepted_objs s)"
    "length (accepted_objs s) < length (received_objs s) + unat (ring_size (mt_ring s))"
proof -
  have "claimed (take i (enqs s)) + unat (op_count (enqs s ! i)) \<le> claimed (enqs s)"
    using claimed_take_nth [OF i] claimed_take_le [of "Suc i" "enqs s"] by simp
  then show "published s + claimed (take i (enqs s)) + unat (op_count (enqs s ! i)) \<le> length (accepted_objs s)"
    using mt_invD(4) [OF inv] by linarith
  have "length (accepted_objs s) \<le> length (received_objs s) + unat (ring_capacity (mt_ring s))"
    using mt_invD(1) [OF inv] by (simp add: mt_indexes_def)
  then show "length (accepted_objs s) < length (received_objs s) + unat (ring_size (mt_ring s))"
    using mt_indexes_bounds(1) [OF mt_invD(1) [OF inv]] by linarith
qed

lemma enqueue_copy_table:
  assumes inv: "mt_inv base s" and i: "i < length (enqs s)"
  defines "a \<equiv> published s + claimed (take i (enqs s))"
  defines "c \<equiv> unat (op_count (enqs s ! i))"
  shows "\<exists>ring. ENQUEUE_PTRS (mt_ring s) (op_head (enqs s ! i)) (op_table (enqs s ! i)) (op_count (enqs s ! i)) = Some ring \<and>
    length ring = length (ring_table (mt_ring s)) \<and>
    (\<forall>j<c. ring ! ((base + (a + j)) mod unat (ring_size (mt_ring s))) = accepted_objs s ! (a + j)) \<and>
    (\<forall>x. length (received_objs s) \<le> x \<and> x < length (accepted_objs s) \<and> (x < a \<or> a + c \<le> x) \<longrightarrow>
       ring ! ((base + x) mod unat (ring_size (mt_ring s))) =
       ring_table (mt_ring s) ! ((base + x) mod unat (ring_size (mt_ring s))))"
proof -
  let ?r = "mt_ring s" and ?p = "enqs s ! i"
  let ?N = "unat (ring_size ?r)"
  have shape: "ring_shape ?r" using mt_invD(1) [OF inv] by (simp add: mt_indexes_def)
  have op: "enq_op base ?r (accepted_objs s) a ?p"
    unfolding a_def using every_op_nth [where P = "enq_op base ?r (accepted_objs s)"] inv i by (simp add: mt_inv_def)
  have win: "a + c \<le> length (accepted_objs s)" "length (accepted_objs s) < length (received_objs s) + ?N"
    using op_in_window [OF inv i] by (simp_all add: a_def c_def)
  have fr: "length (received_objs s) \<le> a" using mt_invD(3) [OF inv] by (simp add: a_def)
  have c: "c \<le> ?N" using win fr by linarith
  have "slot ?r (op_head ?p) = (base + a) mod ?N"
    using op by (simp only: enq_op_def op_frame_def mt_slot [OF shape])
  then have run: "ENQUEUE_PTRS ?r (op_head ?p) (op_table ?p) (op_count ?p) =
      Some (put_run ?N ((base + a) mod ?N) (op_table ?p) (ring_table ?r) c)"
    using ENQUEUE_PTRS_put_run [OF shape, of "op_count ?p" "op_table ?p" "op_head ?p"] c op
    by (simp add: word_le_nat_alt c_def enq_op_def op_frame_def)
  have len: "length (ring_table ?r) = ?N" using shape by (simp add: ring_shape_def)
  have inside: "put_run ?N ((base + a) mod ?N) (op_table ?p) (ring_table ?r) c ! ((base + (a + j)) mod ?N) =
      accepted_objs s ! (a + j)" if "j < c" for j
    using put_run_in [OF c len that, of "(base + a) mod ?N" "op_table ?p"] op that
    by (simp add: enq_op_def c_def mod_simps add.assoc)
  have outside: "put_run ?N ((base + a) mod ?N) (op_table ?p) (ring_table ?r) c ! ((base + x) mod ?N) =
      ring_table ?r ! ((base + x) mod ?N)"
    if "length (received_objs s) \<le> x" "x < length (accepted_objs s)" "x < a \<or> a + c \<le> x" for x
    using that win fr by (intro put_run_window) linarith+
  show ?thesis using run inside outside by simp
qed

lemma ring_shape_table:
  "length t = length (ring_table r) \<Longrightarrow> ring_shape (r\<lparr>ring_table := t\<rparr>) = ring_shape r"
  by (simp add: ring_shape_def)

lemma enqueue_copy_inv:
  assumes inv: "mt_inv base s" and i: "i < length (enqs s)"
    and copy: "ENQUEUE_PTRS (mt_ring s) (op_head (enqs s ! i)) (op_table (enqs s ! i)) (op_count (enqs s ! i)) = Some ring"
  shows "mt_inv base (s\<lparr>mt_ring := (mt_ring s)\<lparr>ring_table := ring\<rparr>,
      enqs := (enqs s)[i := (enqs s ! i)\<lparr>op_copied := True\<rparr>]\<rparr>)"
proof -
  let ?r = "mt_ring s" and ?p = "enqs s ! i"
  let ?N = "unat (ring_size ?r)"
  define a where "a = published s + claimed (take i (enqs s))"
  define c where "c = unat (op_count ?p)"
  define r' where "r' = ?r\<lparr>ring_table := ring\<rparr>"
  define s' where "s' = s\<lparr>mt_ring := r', enqs := (enqs s)[i := ?p\<lparr>op_copied := True\<rparr>]\<rparr>"
  have len: "length ring = length (ring_table ?r)"
    and inside: "\<And>j. j < c \<Longrightarrow> ring ! ((base + (a + j)) mod ?N) = accepted_objs s ! (a + j)"
    and outside: "\<And>x. length (received_objs s) \<le> x \<Longrightarrow> x < length (accepted_objs s) \<Longrightarrow> x < a \<or> a + c \<le> x \<Longrightarrow>
       ring ! ((base + x) mod ?N) = ring_table ?r ! ((base + x) mod ?N)"
    using enqueue_copy_table [OF inv i] copy by (auto simp: a_def c_def)
  have pub [simp]: "published s' = published s" by (simp add: published_def s'_def)
  have ops: "every_op (enq_op base ?r (accepted_objs s)) (published s) (enqs s)" using inv by (simp add: mt_inv_def)
  have fr: "length (received_objs s) \<le> published s" using mt_invD(3) [OF inv] by simp
  have "every_op (enq_op base r' (accepted_objs s)) (published s) ((enqs s)[i := ?p\<lparr>op_copied := True\<rparr>])"
  proof (rule every_op_update [OF ops i])
    show "enq_op base r' (accepted_objs s) (published s + claimed (take i (enqs s))) (?p\<lparr>op_copied := True\<rparr>)"
      using every_op_nth [OF ops i] inside by (simp add: enq_op_def op_frame_def r'_def a_def c_def)
    fix j assume j: "j < length (enqs s)" "j \<noteq> i"
      and op: "enq_op base ?r (accepted_objs s) (published s + claimed (take j (enqs s))) (enqs s ! j)"
    let ?b = "published s + claimed (take j (enqs s))"
    have "ring ! ((base + (?b + m)) mod ?N) = ring_table ?r ! ((base + (?b + m)) mod ?N)"
      if "m < unat (op_count (enqs s ! j))" for m
      using that ranges_disjoint [OF i j(1)] j(2) op_in_window(1) [OF inv j(1)] fr
      by (intro outside) (auto simp: a_def c_def)
    then show "enq_op base r' (accepted_objs s) ?b (enqs s ! j)" using op by (simp add: enq_op_def r'_def)
  qed simp
  moreover have "ring ! ((base + x) mod ?N) = accepted_objs s ! x"
    if "length (received_objs s) \<le> x" "x < published s" for x
    using that outside [of x] inv mt_invD(2) [OF inv] by (simp add: mt_inv_def a_def)
  moreover have "mt_indexes base s'"
    using mt_invD(1) [OF inv] ring_shape_table [OF len] by (simp add: mt_indexes_def s'_def r'_def published_def)
  ultimately show ?thesis
    using inv unfolding r'_def [symmetric] s'_def [symmetric] by (simp add: mt_inv_def) (simp add: s'_def r'_def)
qed

lemma dequeue_copy_inv:
  assumes inv: "mt_inv base s" and i: "i < length (deqs s)"
    and copy: "DEQUEUE_PTRS (mt_ring s) (op_head (deqs s ! i)) (op_table (deqs s ! i)) (op_count (deqs s ! i)) = Some objs"
  shows "mt_inv base (s\<lparr>deqs := (deqs s)[i := (deqs s ! i)\<lparr>op_table := objs, op_copied := True\<rparr>]\<rparr>)"
proof -
  let ?r = "mt_ring s" and ?p = "deqs s ! i"
  let ?N = "unat (ring_size ?r)"
  define a where "a = length (received_objs s) + claimed (take i (deqs s))"
  define c where "c = unat (op_count ?p)"
  have shape: "ring_shape ?r" using mt_invD(1) [OF inv] by (simp add: mt_indexes_def)
  have ops: "every_op (deq_op base (accepted_objs s)) (length (received_objs s)) (deqs s)"
    using inv by (simp add: mt_inv_def)
  have op: "deq_op base (accepted_objs s) a ?p" unfolding a_def by (rule every_op_nth [OF ops i])
  have "claimed (take i (deqs s)) + c \<le> claimed (deqs s)"
    using claimed_take_nth [OF i] claimed_take_le [of "Suc i" "deqs s"] by (simp add: c_def)
  then have win: "a + c \<le> published s" using mt_invD(3) [OF inv] by (simp add: a_def)
  have "length (accepted_objs s) \<le> length (received_objs s) + unat (ring_capacity ?r)"
    using mt_invD(1) [OF inv] by (simp add: mt_indexes_def)
  then have "c \<le> ?N"
    using win mt_invD(2) [OF inv] mt_indexes_bounds(1) [OF mt_invD(1) [OF inv]] by (simp add: a_def)
  then have objs: "objs = map (\<lambda>k. ring_table ?r ! slot ?r (op_head ?p + of_nat k)) [0..<c] @ drop c (op_table ?p)"
    using copy DEQUEUE_PTRS_take [OF shape, of "op_count ?p" "op_table ?p" "op_head ?p"] op
    by (simp add: word_le_nat_alt c_def deq_op_def op_frame_def)
  have "ring_table ?r ! slot ?r (op_head ?p + of_nat k) = accepted_objs s ! (a + k)" if "k < c" for k
  proof -
    have "op_head ?p + of_nat k = of_nat (base + (a + k))" using op by (simp add: deq_op_def op_frame_def)
    then have "slot ?r (op_head ?p + of_nat k) = (base + (a + k)) mod ?N" by (simp only: mt_slot [OF shape])
    moreover have "length (received_objs s) \<le> a + k" "a + k < published s" using that win by (simp_all add: a_def)
    ultimately show ?thesis using inv by (simp add: mt_inv_def)
  qed
  then have got: "take c objs = take c (drop a (accepted_objs s))"
    using win mt_invD(2) [OF inv] by (intro nth_equalityI) (simp_all add: objs)
  have "c \<le> length (op_table ?p)" using op by (simp add: deq_op_def op_frame_def c_def)
  then have len: "c \<le> length objs" by (simp add: objs)
  have "every_op (deq_op base (accepted_objs s)) (length (received_objs s))
      ((deqs s)[i := ?p\<lparr>op_table := objs, op_copied := True\<rparr>])"
  proof (rule every_op_update [OF ops i])
    show "deq_op base (accepted_objs s) (length (received_objs s) + claimed (take i (deqs s)))
        (?p\<lparr>op_table := objs, op_copied := True\<rparr>)"
      using op got len by (simp add: deq_op_def op_frame_def a_def c_def)
  qed simp_all
  moreover have "published (s\<lparr>deqs := d\<rparr>) = published s" for d by (simp add: published_def)
  ultimately show ?thesis using inv by (simp add: mt_inv_def mt_indexes_def)
qed

section \<open>Moving the tails\<close>

text \<open>The tail is the old head of the first operation only: the others wait.\<close>

lemma tail_of_first:
  assumes "every_op (\<lambda>a p. op_frame base a p) a ps" "claimed ps < 2 ^ 32" "i < length ps"
    "op_head (ps ! i) = of_nat (base + a)"
  shows "i = 0"
proof (rule ccontr)
  assume "i \<noteq> 0"
  let ?d = "claimed (take i ps)"
  have "op_head (ps ! i) = of_nat (base + (a + ?d))"
    using every_op_nth [OF assms(1,3)] by (simp add: op_frame_def)
  then have "unat (of_nat (base + (a + ?d)) - of_nat (base + a) :: u32) = 0" using assms(4) by simp
  moreover have "?d < 2 ^ 32" using claimed_take_le [of i ps] assms(2) by linarith
  ultimately have "?d = 0" using of_nat_distance [of a "a + ?d" base] by simp
  moreover obtain p qs where "ps = p # qs" using assms(3) by (cases ps) auto
  with assms(1) \<open>i \<noteq> 0\<close> have "0 < ?d" by (cases i) (auto simp: op_frame_def unat_gt_0)
  ultimately show False by simp
qed

lemma every_op_mono: "every_op P a ps \<Longrightarrow> (\<And>a p. P a p \<Longrightarrow> Q a p) \<Longrightarrow> every_op Q a ps"
  by (simp add: every_op_def)

lemma remove_first [simp]: "remove_nth 0 (p # ps) = ps"
  by (simp add: remove_nth_def)

lemma mt_small:
  assumes "mt_inv base s"
  shows "claimed (enqs s) < 2 ^ 32" "claimed (deqs s) < 2 ^ 32"
proof -
  note ix = mt_invD(1) [OF assms]
  have "length (accepted_objs s) \<le> length (received_objs s) + unat (ring_capacity (mt_ring s))"
    using ix by (simp add: mt_indexes_def)
  then have "claimed (enqs s) + claimed (deqs s) \<le> unat (ring_capacity (mt_ring s))"
    using mt_invD [OF assms] by linarith
  then show "claimed (enqs s) < 2 ^ 32" "claimed (deqs s) < 2 ^ 32"
    using mt_indexes_bounds [OF ix] by simp_all
qed

lemma enqueue_tail_first:
  assumes inv: "mt_inv base s" and "i < length (enqs s)" "tail (prod (mt_ring s)) = op_head (enqs s ! i)"
  shows "i = 0"
proof (rule tail_of_first [OF _ mt_small(1) [OF inv] assms(2)])
  show "every_op (op_frame base) (published s) (enqs s)"
    using inv by (auto simp: mt_inv_def enq_op_def intro: every_op_mono)
  show "op_head (enqs s ! i) = of_nat (base + published s)"
    using mt_invD(1) [OF inv] assms(3) by (simp add: mt_indexes_def)
qed

lemma dequeue_tail_first:
  assumes inv: "mt_inv base s" and "i < length (deqs s)" "tail (cons (mt_ring s)) = op_head (deqs s ! i)"
  shows "i = 0"
proof (rule tail_of_first [OF _ mt_small(2) [OF inv] assms(2)])
  show "every_op (op_frame base) (length (received_objs s)) (deqs s)"
    using inv by (auto simp: mt_inv_def deq_op_def intro: every_op_mono)
  show "op_head (deqs s ! i) = of_nat (base + length (received_objs s))"
    using mt_invD(1) [OF inv] assms(3) by (simp add: mt_indexes_def)
qed

context ring_mt_laws
begin

lemma enqueue_tail_inv:
  assumes inv: "mt_inv base s" and i: "i < length (enqs s)" and c: "op_copied (enqs s ! i)"
    and t: "tail (prod (mt_ring s)) = op_head (enqs s ! i)"
  shows "mt_inv base (s\<lparr>mt_ring := (mt_ring s)\<lparr>prod :=
      update_tail S (prod (mt_ring s)) (op_head (enqs s ! i)) (op_next (enqs s ! i)) IS_MP 1\<rparr>,
      enqs := remove_nth i (enqs s)\<rparr>)"
proof -
  obtain p ps where ps: "enqs s = p # ps" and i0: "i = 0"
    using enqueue_tail_first [OF inv i t] i by (cases "enqs s") auto
  define r' where "r' = (mt_ring s)\<lparr>prod := (prod (mt_ring s))\<lparr>tail := op_next p\<rparr>\<rparr>"
  have upd: "(mt_ring s)\<lparr>prod := update_tail S (prod (mt_ring s)) (op_head p) (op_next p) IS_MP 1\<rparr> = r'"
    using mt_tail_update t by (simp add: ps i0 r'_def)
  define s' where "s' = s\<lparr>mt_ring := r', enqs := ps\<rparr>"
  have pub: "published s' = published s + unat (op_count p)"
    using mt_invD(1) [OF inv] by (simp add: published_def s'_def ps mt_indexes_def)
  have op: "enq_op base (mt_ring s) (accepted_objs s) (published s) p"
    "every_op (enq_op base (mt_ring s) (accepted_objs s)) (published s + unat (op_count p)) ps"
    using inv by (simp_all add: mt_inv_def ps)
  have "mt_indexes base s'"
    using mt_invD(1) [OF inv] op(1) pub mt_invD(3) [OF inv]
    by (auto simp: mt_indexes_def s'_def r'_def ps enq_op_def op_frame_def add.assoc)
  moreover have "ring_table (mt_ring s) ! ((base + x) mod unat (ring_size (mt_ring s))) = accepted_objs s ! x"
    if "length (received_objs s) \<le> x" "x < published s + unat (op_count p)" for x
  proof (cases "x < published s")
    case False
    then have "x - published s < unat (op_count p)" "published s + (x - published s) = x" using that(2) by simp_all
    then show ?thesis using op(1) c unfolding enq_op_def by (metis i0 nth_Cons_0 ps)
  qed (use inv that in \<open>simp add: mt_inv_def\<close>)
  ultimately have "mt_inv base s'"
    using inv op(2) pub enq_op_ring_cong [of r' "mt_ring s"]
    by (simp add: mt_inv_def) (simp add: s'_def r'_def)
  then show ?thesis by (simp add: s'_def ps i0 upd)
qed

lemma dequeue_tail_inv:
  assumes inv: "mt_inv base s" and i: "i < length (deqs s)" and c: "op_copied (deqs s ! i)"
    and t: "tail (cons (mt_ring s)) = op_head (deqs s ! i)"
  shows "mt_inv base (s\<lparr>mt_ring := (mt_ring s)\<lparr>cons :=
      update_tail S (cons (mt_ring s)) (op_head (deqs s ! i)) (op_next (deqs s ! i)) IS_MC 0\<rparr>,
      deqs := remove_nth i (deqs s),
      received_objs := received_objs s @ take (unat (op_count (deqs s ! i))) (op_table (deqs s ! i))\<rparr>)"
proof -
  obtain p ps where ps: "deqs s = p # ps" and i0: "i = 0"
    using dequeue_tail_first [OF inv i t] i by (cases "deqs s") auto
  define r' where "r' = (mt_ring s)\<lparr>cons := (cons (mt_ring s))\<lparr>tail := op_next p\<rparr>\<rparr>"
  have upd: "(mt_ring s)\<lparr>cons := update_tail S (cons (mt_ring s)) (op_head p) (op_next p) IS_MC 0\<rparr> = r'"
    using mt_tail_update t by (simp add: ps i0 r'_def)
  let ?got = "take (unat (op_count p)) (op_table p)"
  define s' where "s' = s\<lparr>mt_ring := r', deqs := ps, received_objs := received_objs s @ ?got\<rparr>"
  have pub: "published s' = published s" by (simp add: published_def s'_def)
  have op: "deq_op base (accepted_objs s) (length (received_objs s)) p"
    "every_op (deq_op base (accepted_objs s)) (length (received_objs s) + unat (op_count p)) ps"
    using inv by (simp_all add: mt_inv_def ps)
  have got: "length ?got = unat (op_count p)" using op(1) by (simp add: deq_op_def op_frame_def)
  have got2: "?got = take (unat (op_count p)) (drop (length (received_objs s)) (accepted_objs s))"
    using op(1) c by (simp add: deq_op_def ps i0)
  have rec: "received_objs s = take (length (received_objs s)) (accepted_objs s)" using inv by (simp add: mt_inv_def)
  have len: "length (received_objs s') = length (received_objs s) + unat (op_count p)"
    using got by (simp add: s'_def)
  have "received_objs s' = take (length (received_objs s')) (accepted_objs s)"
    unfolding len using rec got2 by (simp add: s'_def take_add)
  moreover have "mt_indexes base s'"
    using mt_invD(1) [OF inv] op(1) pub len mt_invD(3) [OF inv]
    by (auto simp: mt_indexes_def s'_def r'_def ps deq_op_def op_frame_def add.assoc)
  ultimately have "mt_inv base s'"
    using inv op(2) pub len enq_op_ring_cong [of r' "mt_ring s"]
    by (simp add: mt_inv_def) (simp add: s'_def r'_def)
  then show ?thesis by (simp add: s'_def ps i0 upd)
qed

lemma start_step_inv: "start_step S s s' \<Longrightarrow> mt_inv base s \<Longrightarrow> mt_inv base s'"
  by (elim start_stepE) (simp_all only: enqueue_start_inv dequeue_start_inv)

lemma work_step_inv: "work_step S s s' \<Longrightarrow> mt_inv base s \<Longrightarrow> mt_inv base s'"
  by (elim work_stepE)
    (simp_all only: enqueue_copy_inv enqueue_tail_inv dequeue_copy_inv dequeue_tail_inv)

lemma mt_inv_reachable: "(mt_step S)\<^sup>*\<^sup>* s s' \<Longrightarrow> mt_inv base s \<Longrightarrow> mt_inv base s'"
  by (induction rule: rtranclp_induct) (auto simp: mt_step_def intro: start_step_inv work_step_inv)

end

lemma mt_inv_start:
  assumes "quiet r"
  shows "mt_inv (unat (tail (cons r))) (mt_start r)"
proof -
  note ok = quietD(1) [OF assms]
  have "slot r (tail (cons r) + of_nat i) = (unat (tail (cons r)) + i) mod unat (ring_size r)" for i
    using mt_slot [OF ring_okD(1) [OF ok], of "unat (tail (cons r)) + i"] by simp
  then show ?thesis
    using ring_okD [OF ok] quietD(2) [OF assms]
    by (simp add: mt_inv_def mt_indexes_def mt_start_def published_def) (simp add: contents_def)
qed

section \<open>Progress\<close>

text \<open>Two steps are left to an operation that has not copied, one to an operation that has.\<close>

definition work_left :: "mt_state \<Rightarrow> nat" where
  "work_left s = sum_list (map (\<lambda>p. if op_copied p then 1 else 2) (enqs s @ deqs s))"

lemma sum_list_remove_nth:
  "i < length xs \<Longrightarrow> sum_list (map f (remove_nth i xs)) + f (xs ! i) = sum_list (map f xs)"
  for f :: "'a \<Rightarrow> nat"
proof -
  assume "i < length xs"
  then have "xs = take i xs @ xs ! i # drop (Suc i) xs" by (rule id_take_nth_drop)
  then have "sum_list (map f xs) = sum_list (map f (take i xs @ xs ! i # drop (Suc i) xs))" by simp
  then show ?thesis by (simp add: remove_nth_def)
qed

lemma sum_list_update_less:
  "i < length xs \<Longrightarrow> f y < f (xs ! i) \<Longrightarrow> sum_list (map f (xs[i := y])) < sum_list (map f xs)"
  for f :: "'a \<Rightarrow> nat"
  by (induction xs arbitrary: i) (auto split: nat.split)

lemma work_step_decreases:
  assumes "work_step S s s'"
  shows "work_left s' < work_left s"
  using assms
proof cases
  case (enqueue_copy i p ring)
  then show ?thesis
    using sum_list_update_less [of i "enqs s" "\<lambda>p. if op_copied p then 1 else 2" "p\<lparr>op_copied := True\<rparr>"]
    by (simp add: work_left_def)
next
  case (enqueue_tail i p half)
  then show ?thesis
    using sum_list_remove_nth [of i "enqs s" "\<lambda>p. if op_copied p then 1 else 2"]
    by (simp add: work_left_def)
next
  case (dequeue_copy i p objs)
  then show ?thesis
    using sum_list_update_less [of i "deqs s" "\<lambda>p. if op_copied p then 1 else 2" "p\<lparr>op_table := objs, op_copied := True\<rparr>"]
    by (simp add: work_left_def)
next
  case (dequeue_tail i p half)
  then show ?thesis
    using sum_list_remove_nth [of i "deqs s" "\<lambda>p. if op_copied p then 1 else 2"]
    by (simp add: work_left_def)
qed

text \<open>The copies stay inside their arrays.\<close>

lemma dequeue_copy_runs:
  assumes inv: "mt_inv base s" and i: "i < length (deqs s)"
  shows "\<exists>objs. DEQUEUE_PTRS (mt_ring s) (op_head (deqs s ! i)) (op_table (deqs s ! i)) (op_count (deqs s ! i)) = Some objs"
proof -
  note ix = mt_invD(1) [OF inv]
  have shape: "ring_shape (mt_ring s)" using ix by (simp add: mt_indexes_def)
  have "every_op (deq_op base (accepted_objs s)) (length (received_objs s)) (deqs s)"
    using inv by (simp add: mt_inv_def)
  from every_op_nth [OF this i] have "unat (op_count (deqs s ! i)) \<le> length (op_table (deqs s ! i))"
    by (simp add: deq_op_def op_frame_def)
  moreover have "unat (op_count (deqs s ! i)) \<le> claimed (deqs s)"
    using claimed_take_nth [OF i] claimed_take_le [of "Suc i" "deqs s"] by linarith
  then have "unat (op_count (deqs s ! i)) \<le> unat (ring_size (mt_ring s))"
    using mt_invD [OF inv] mt_indexes_bounds(1) [OF ix] ix
    by (simp add: mt_indexes_def)
  ultimately show ?thesis using DEQUEUE_PTRS_take [OF shape] by (simp add: word_le_nat_alt)
qed

lemma work_enabled:
  assumes inv: "mt_inv base s" and busy: "enqs s \<noteq> [] \<or> deqs s \<noteq> []"
  shows "\<exists>s'. work_step S s s'"
proof (cases "enqs s")
  case (Cons p ps)
  then have 0: "0 < length (enqs s)" "p = enqs s ! 0" by simp_all
  show ?thesis
  proof (cases "op_copied p")
    case False
    then show ?thesis using enqueue_copy [OF 0] enqueue_copy_table [OF inv 0(1)] 0(2) by blast
  next
    case True
    have "tail (prod (mt_ring s)) = op_head p"
      using inv Cons by (simp add: mt_inv_def mt_indexes_def enq_op_def op_frame_def)
    then show ?thesis using enqueue_tail [OF 0 True] by blast
  qed
next
  case Nil
  then obtain p ps where ps: "deqs s = p # ps" using busy by (cases "deqs s") auto
  then have 0: "0 < length (deqs s)" "p = deqs s ! 0" by simp_all
  show ?thesis
  proof (cases "op_copied p")
    case False
    then show ?thesis using dequeue_copy [OF 0] dequeue_copy_runs [OF inv 0(1)] 0(2) by blast
  next
    case True
    have "tail (cons (mt_ring s)) = op_head p"
      using inv ps by (simp add: mt_inv_def mt_indexes_def deq_op_def op_frame_def)
    then show ?thesis using dequeue_tail [OF 0 True] by blast
  qed
qed

lemma work_step_accepted: "work_step S s s' \<Longrightarrow> accepted_objs s' = accepted_objs s"
  by (elim work_stepE) simp_all

section \<open>Properties\<close>

lemma finish_all:
  assumes "ring_mt_laws S" "mt_inv base s"
  shows "\<exists>s'. (work_step S)\<^sup>*\<^sup>* s s' \<and> enqs s' = [] \<and> deqs s' = [] \<and> mt_inv base s' \<and>
    accepted_objs s' = accepted_objs s"
  using assms(2)
proof (induction "work_left s" arbitrary: s rule: less_induct)
  case less
  show ?case
  proof (cases "enqs s = [] \<and> deqs s = []")
    case False
    then obtain s1 where s1: "work_step S s s1" using work_enabled [OF less.prems] by blast
    have "mt_inv base s1" by (rule ring_mt_laws.work_step_inv [OF assms(1) s1 less.prems])
    from less.hyps [OF work_step_decreases [OF s1] this] show ?thesis
      using s1 work_step_accepted [OF s1] by (metis converse_rtranclp_into_rtranclp)
  qed (use less.prems in blast)
qed

lemma finished_quiet:
  assumes inv: "mt_inv base s" and "enqs s = []" "deqs s = []"
  shows "quiet (mt_ring s)" "contents (mt_ring s) = drop (length (received_objs s)) (accepted_objs s)"
proof -
  let ?r = "mt_ring s"
  note ix = mt_invD(1) [OF inv]
  have pub: "published s = length (accepted_objs s)" by (simp add: published_def assms)
  have shape: "ring_shape ?r" using ix by (simp add: mt_indexes_def)
  have n: "ring_entries ?r = length (accepted_objs s) - length (received_objs s)"
    unfolding ring_entries_def using mt_indexes_distances(2) [OF ix] by (simp add: pub)
  have heads: "head (prod ?r) = tail (prod ?r)" "head (cons ?r) = tail (cons ?r)"
    using ix by (simp_all add: mt_indexes_def pub assms)
  have "length (accepted_objs s) \<le> length (received_objs s) + unat (ring_capacity ?r)"
    using ix by (simp add: mt_indexes_def)
  then show "quiet ?r" using shape n heads by (simp add: quiet_def ring_ok_def)
  have "tail (cons ?r) + of_nat k = of_nat (base + (length (received_objs s) + k))" for k
    using ix by (simp add: mt_indexes_def)
  then have "slot ?r (tail (cons ?r) + of_nat k) = (base + (length (received_objs s) + k)) mod unat (ring_size ?r)" for k
    by (simp only: mt_slot [OF shape])
  then show "contents ?r = drop (length (received_objs s)) (accepted_objs s)"
    using inv mt_invD(3) [OF inv] by (intro nth_equalityI) (simp_all add: contents_def n mt_inv_def pub)
qed

text \<open>
  Two consumers on the demonstration ring: both reserve an object, and the second has copied its own
  while the first has not started to.
\<close>

definition demo_op :: "nat \<Rightarrow> u32 \<Rightarrow> u32 \<Rightarrow> ptr \<Rightarrow> bool \<Rightarrow> pending" where
  "demo_op t h h' x c = \<lparr>op_thread = t, op_head = h, op_next = h', op_count = 1, op_table = [x], op_copied = c\<rparr>"

definition demo_threads :: mt_state where
  "demo_threads = \<lparr>mt_ring = demo_ring\<lparr>cons := (cons demo_ring)\<lparr>head := 0\<rparr>\<rparr>, enqs = [],
     deqs = [demo_op 1 0xFFFFFFFE 0xFFFFFFFF 0 False, demo_op 2 0xFFFFFFFF 0 20 True],
     accepted_objs = [10, 20], received_objs = []\<rparr>"

lemma demo_threads_reachable: "(mt_step seq_sync)\<^sup>*\<^sup>* (mt_start demo_ring) demo_threads"
proof -
  let ?s1 = "\<lparr>mt_ring = demo_ring\<lparr>cons := (cons demo_ring)\<lparr>head := 0xFFFFFFFF\<rparr>\<rparr>, enqs = [],
     deqs = [demo_op 1 0xFFFFFFFE 0xFFFFFFFF 0 False], accepted_objs = [10, 20], received_objs = []\<rparr>"
  let ?s2 = "\<lparr>mt_ring = demo_ring\<lparr>cons := (cons demo_ring)\<lparr>head := 0\<rparr>\<rparr>, enqs = [],
     deqs = [demo_op 1 0xFFFFFFFE 0xFFFFFFFF 0 False, demo_op 2 0xFFFFFFFF 0 0 False], accepted_objs = [10, 20], received_objs = []\<rparr>"
  have "move_cons_head seq_sync demo_ring IS_MC 1 RTE_RING_QUEUE_FIXED =
      (1, 0xFFFFFFFE, 0xFFFFFFFF, 2, demo_ring\<lparr>cons := (cons demo_ring)\<lparr>head := 0xFFFFFFFF\<rparr>\<rparr>)"
    by (simp add: seq_sync_def seq_move_cons_head_def granted_def demo_ring_def Let_def word_le_nat_alt)
  then have 1: "start_step seq_sync (mt_start demo_ring) ?s1"
    using dequeue_start [of 1 "mt_start demo_ring" 1 "[0]" seq_sync RTE_RING_QUEUE_FIXED 1 "0xFFFFFFFE" "0xFFFFFFFF" 2
        "demo_ring\<lparr>cons := (cons demo_ring)\<lparr>head := 0xFFFFFFFF\<rparr>\<rparr>"]
    by (simp add: mt_start_def idle_def demo_op_def demo_ring_contents)
  have "move_cons_head seq_sync (mt_ring ?s1) IS_MC 1 RTE_RING_QUEUE_FIXED =
      (1, 0xFFFFFFFF, 0, 1, demo_ring\<lparr>cons := (cons demo_ring)\<lparr>head := 0\<rparr>\<rparr>)"
    by (simp add: seq_sync_def seq_move_cons_head_def granted_def demo_ring_def Let_def word_le_nat_alt)
  then have 2: "start_step seq_sync ?s1 ?s2"
    using dequeue_start [of 2 ?s1 1 "[0]" seq_sync RTE_RING_QUEUE_FIXED 1 "0xFFFFFFFF" 0 1
        "demo_ring\<lparr>cons := (cons demo_ring)\<lparr>head := 0\<rparr>\<rparr>"]
    by (simp add: idle_def demo_op_def)
  have "DEQUEUE_PTRS (mt_ring ?s2) 0xFFFFFFFF [0] 1 = Some [20]"
    using DEQUEUE_PTRS_take [of "mt_ring ?s2" 1 "[0]" "0xFFFFFFFF"] quietD(1) [OF demo_ring_quiet]
    by (simp add: ring_okD(1)) (simp add: demo_ring_def slot_def)
  then have 3: "work_step seq_sync ?s2 demo_threads"
    using dequeue_copy [of 1 ?s2 "demo_op 2 0xFFFFFFFF 0 0 False" "[20]" seq_sync]
    by (simp add: demo_op_def demo_threads_def)
  from 1 2 3 show ?thesis by (meson mt_step_def converse_rtranclp_into_rtranclp r_into_rtranclp)
qed

text \<open>
  C1: Whatever the interleaving of producers and consumers, consumers never see a slot that is not
  written or is being overwritten: what the finished dequeues returned is the beginning of the
  sequence of accepted objects, what a dequeue in progress has copied is the section that its
  reservation stands for, in the order of the reservations, and never more objects are accepted
  than the capacity allows.
\<close>

theorem concurrent_ring_safe:
  assumes "ring_mt_laws S" "quiet r" "(mt_step S)\<^sup>*\<^sup>* (mt_start r) s"
  shows "received_objs s = take (length (received_objs s)) (accepted_objs s) \<and>
    length (accepted_objs s) \<le> length (received_objs s) + unat (ring_capacity (mt_ring s)) \<and>
    every_op (\<lambda>a p. op_copied p \<longrightarrow>
        take (unat (op_count p)) (op_table p) = take (unat (op_count p)) (drop a (accepted_objs s)))
      (length (received_objs s)) (deqs s)"
proof -
  have inv: "mt_inv (unat (tail (cons r))) s"
    using ring_mt_laws.mt_inv_reachable [OF assms(1,3)] mt_inv_start [OF assms(2)] by blast
  then have "every_op (\<lambda>a p. op_copied p \<longrightarrow>
        take (unat (op_count p)) (op_table p) = take (unat (op_count p)) (drop a (accepted_objs s)))
      (length (received_objs s)) (deqs s)"
    unfolding mt_inv_def deq_op_def by (auto intro: every_op_mono)
  then show ?thesis using inv mt_invD(1) [OF inv] by (simp add: mt_inv_def mt_indexes_def)
qed

theorem concurrent_ring_safe_witness:
  "\<exists>s. (mt_step seq_sync)\<^sup>*\<^sup>* (mt_start demo_ring) s \<and> map op_copied (deqs s) = [False, True] \<and>
     take 1 (op_table (deqs s ! 1)) = take 1 (drop 1 (accepted_objs s)) \<and> accepted_objs s = [10, 20]"
  using concurrent_ring_safe [OF seq_mt.ring_mt_laws_axioms demo_ring_quiet demo_threads_reachable]
    demo_threads_reachable
  by (intro exI [of _ demo_threads]) (simp add: demo_threads_def demo_op_def)

text \<open>
  C8: No operation in progress is blocked for good: as long as one is left some operation can take a
  step inside its arrays, every such step brings the end nearer, and when no new operation starts
  all of them finish, leaving a ring at rest that holds the accepted objects not yet received.
\<close>

theorem concurrent_ring_progress:
  assumes "ring_mt_laws S" "quiet r" "(mt_step S)\<^sup>*\<^sup>* (mt_start r) s"
  shows "(enqs s \<noteq> [] \<or> deqs s \<noteq> [] \<longrightarrow> (\<exists>s'. work_step S s s')) \<and>
    (\<forall>s'. work_step S s s' \<longrightarrow> work_left s' < work_left s) \<and>
    (\<exists>s'. (work_step S)\<^sup>*\<^sup>* s s' \<and> enqs s' = [] \<and> deqs s' = [] \<and> accepted_objs s' = accepted_objs s \<and>
       quiet (mt_ring s') \<and> accepted_objs s' = received_objs s' @ contents (mt_ring s'))"
proof -
  have inv: "mt_inv (unat (tail (cons r))) s"
    using ring_mt_laws.mt_inv_reachable [OF assms(1,3)] mt_inv_start [OF assms(2)] by blast
  obtain s' where s': "(work_step S)\<^sup>*\<^sup>* s s'" "enqs s' = []" "deqs s' = []" "mt_inv (unat (tail (cons r))) s'"
    "accepted_objs s' = accepted_objs s"
    using finish_all [OF assms(1) inv] by blast
  have "received_objs s' = take (length (received_objs s')) (accepted_objs s')"
    using s'(4) by (simp add: mt_inv_def)
  then have "accepted_objs s' = received_objs s' @ contents (mt_ring s')"
    using finished_quiet(2) [OF s'(4,2,3)] by (metis append_take_drop_id)
  then show ?thesis
    using s' finished_quiet(1) [OF s'(4,2,3)] work_enabled [OF inv] work_step_decreases by blast
qed

theorem concurrent_ring_progress_witness:
  "\<exists>s'. (work_step seq_sync)\<^sup>*\<^sup>* demo_threads s' \<and> deqs s' = [] \<and>
     [10, 20] = received_objs s' @ contents (mt_ring s') \<and> quiet (mt_ring s')"
  using concurrent_ring_progress [OF seq_mt.ring_mt_laws_axioms demo_ring_quiet demo_threads_reachable]
  by (auto simp: demo_threads_def)

lemma start_and_work:
  "mt_step S a b \<Longrightarrow> work_step S b c \<Longrightarrow> work_step S c d \<Longrightarrow> (mt_step S)\<^sup>*\<^sup>* a d"
  by (meson mt_step_def converse_rtranclp_into_rtranclp r_into_rtranclp)

lemma enqueue_alone:
  assumes L: "ring_mt_laws S" and r: "quiet r" and len: "unat n \<le> length objs"
    and op: "rte_ring_do_enqueue S r objs n b IS_MP None = Some (r', k, fs)"
  shows "(mt_step S)\<^sup>*\<^sup>* (mt_start r) ((mt_start r)\<lparr>mt_ring := r', accepted_objs := contents r @ take (unat k) objs\<rparr>)"
proof -
  note ok = quietD(1) [OF r]
  obtain k0 ph pn free r1 where mv: "move_prod_head S r IS_MP n b = (k0, ph, pn, free, r1)"
    by (cases "move_prod_head S r IS_MP n b") auto
  have start: "mt_step S (mt_start r) (if k0 = 0 then (mt_start r)\<lparr>mt_ring := r1\<rparr>
      else (mt_start r)\<lparr>mt_ring := r1, enqs := enqs (mt_start r) @ [\<lparr>op_thread = 0, op_head = ph, op_next = pn,
               op_count = k0, op_table = objs, op_copied = False\<rparr>],
             accepted_objs := accepted_objs (mt_start r) @ take (unat k0) objs\<rparr>)"
    unfolding mt_step_def
    by (rule disjI1, rule enqueue_start [OF _ len, where b = b and free = free]) (simp_all add: idle_def mt_start_def mv)
  show ?thesis
  proof (cases "k0 = 0")
    case True
    then have "r' = r1" "k = 0" using op by (auto simp: rte_ring_do_enqueue_def mv)
    then show ?thesis using start True by (simp add: mt_start_def r_into_rtranclp)
  next
    case False
    then obtain ring where ring: "ENQUEUE_PTRS r1 ph objs k0 = Some ring"
      and r': "r' = r1\<lparr>ring_table := ring, prod := update_tail S (prod r1) ph pn IS_MP 1\<rparr>" and k: "k = k0"
      using op by (auto simp: rte_ring_do_enqueue_def mv bind_eq_Some_conv)
    have k0: "k0 = granted b n (ring_capacity r + tail (cons r) - head (prod r))"
      and ph: "tail (prod r1) = ph"
      using ring_mt_laws.mt_prod_none [OF L ring_ok_busy [OF ok], of b n IS_MP]
        ring_mt_laws.mt_prod_some [OF L ring_ok_busy [OF ok] refl, of b n IS_MP] mv False ring_okD(3) [OF ok]
      by (cases "granted b n (ring_capacity r + tail (cons r) - head (prod r)) = 0"; force)+
    let ?p = "\<lparr>op_thread = 0, op_head = ph, op_next = pn, op_count = k0, op_table = objs, op_copied = False\<rparr>"
    let ?acc = "contents r @ take (unat k0) objs"
    let ?s1 = "\<lparr>mt_ring = r1, enqs = [?p], deqs = [], accepted_objs = ?acc, received_objs = []\<rparr>"
    let ?s2 = "\<lparr>mt_ring = r1\<lparr>ring_table := ring\<rparr>, enqs = [?p\<lparr>op_copied := True\<rparr>], deqs = [], accepted_objs = ?acc, received_objs = []\<rparr>"
    let ?s3 = "(mt_start r)\<lparr>mt_ring := r', accepted_objs := ?acc\<rparr>"
    have "mt_step S (mt_start r) ?s1" using start False by (simp add: mt_start_def)
    moreover have "work_step S ?s1 ?s2"
      using enqueue_copy [of 0 ?s1 ?p ring S] ring by simp
    moreover have "work_step S ?s2 ?s3"
      using enqueue_tail [of 0 ?s2 "?p\<lparr>op_copied := True\<rparr>" _ S] ph r' by (simp add: mt_start_def)
    ultimately show ?thesis unfolding k by (rule start_and_work)
  qed
qed

lemma dequeue_alone:
  assumes L: "ring_mt_laws S" and r: "quiet r" and len: "unat n \<le> length objs"
    and op: "rte_ring_do_dequeue S r objs n b IS_MC None = Some (r', objs', k, av)"
  shows "(mt_step S)\<^sup>*\<^sup>* (mt_start r) ((mt_start r)\<lparr>mt_ring := r', received_objs := take (unat k) objs'\<rparr>)"
proof -
  note ok = quietD(1) [OF r]
  obtain k0 ch cn used r1 where mv: "move_cons_head S r IS_MC n b = (k0, ch, cn, used, r1)"
    by (cases "move_cons_head S r IS_MC n b") auto
  have start: "mt_step S (mt_start r) (if k0 = 0 then (mt_start r)\<lparr>mt_ring := r1\<rparr>
      else (mt_start r)\<lparr>mt_ring := r1, deqs := deqs (mt_start r) @ [\<lparr>op_thread = 0, op_head = ch, op_next = cn,
               op_count = k0, op_table = objs, op_copied = False\<rparr>]\<rparr>)"
    unfolding mt_step_def
    by (rule disjI1, rule dequeue_start [OF _ len, where b = b and used = used]) (simp_all add: idle_def mt_start_def mv)
  show ?thesis
  proof (cases "k0 = 0")
    case True
    then have "r' = r1" "k = 0" using op by (auto simp: rte_ring_do_dequeue_def mv)
    then show ?thesis using start True by (simp add: mt_start_def r_into_rtranclp)
  next
    case False
    then have ptrs: "DEQUEUE_PTRS r1 ch objs k0 = Some objs'"
      and r': "r' = r1\<lparr>cons := update_tail S (cons r1) ch cn IS_MC 0\<rparr>" and k: "k = k0"
      using op by (auto simp: rte_ring_do_dequeue_def mv bind_eq_Some_conv)
    have ch: "tail (cons r1) = ch"
      using ring_mt_laws.mt_cons_none [OF L ring_ok_busy [OF ok], of b n IS_MC]
        ring_mt_laws.mt_cons_some [OF L ring_ok_busy [OF ok] refl, of b n IS_MC] mv False quietD(2) [OF r]
      by (cases "granted b n (tail (prod r) - head (cons r)) = 0"; force)
    let ?p = "\<lparr>op_thread = 0, op_head = ch, op_next = cn, op_count = k0, op_table = objs, op_copied = False\<rparr>"
    let ?q = "?p\<lparr>op_table := objs', op_copied := True\<rparr>"
    let ?s1 = "\<lparr>mt_ring = r1, enqs = [], deqs = [?p], accepted_objs = contents r, received_objs = []\<rparr>"
    let ?s2 = "\<lparr>mt_ring = r1, enqs = [], deqs = [?q], accepted_objs = contents r, received_objs = []\<rparr>"
    let ?s3 = "(mt_start r)\<lparr>mt_ring := r', received_objs := take (unat k0) objs'\<rparr>"
    have "mt_step S (mt_start r) ?s1" using start False by (simp add: mt_start_def)
    moreover have "work_step S ?s1 ?s2"
      using dequeue_copy [of 0 ?s1 ?p objs' S] ptrs by simp
    moreover have "work_step S ?s2 ?s3"
      using dequeue_tail [of 0 ?s2 ?q _ S] ch r' by (simp add: mt_start_def)
    ultimately show ?thesis unfolding k by (rule start_and_work)
  qed
qed

text \<open>
  C28: A thread that is alone on the ring and runs its steps one after the other performs
  \<open>rte_ring_mp_enqueue\<close> and \<open>rte_ring_mc_dequeue\<close> in bulk or burst form: the same ring, and the objects it
  is granted.
\<close>

theorem steps_are_operations:
  assumes "ring_mt_laws S" "quiet r" "unat n \<le> length objs"
  shows "(\<exists>r' k. rte_ring_do_enqueue S r objs n b IS_MP None = Some (r', k, None) \<and>
      (mt_step S)\<^sup>*\<^sup>* (mt_start r) ((mt_start r)\<lparr>mt_ring := r', accepted_objs := contents r @ take (unat k) objs\<rparr>)) \<and>
    (\<exists>r' k objs'. rte_ring_do_dequeue S r objs n b IS_MC None = Some (r', objs', k, None) \<and>
      (mt_step S)\<^sup>*\<^sup>* (mt_start r) ((mt_start r)\<lparr>mt_ring := r', received_objs := take (unat k) objs'\<rparr>))"
proof -
  have laws: "ring_sync_laws S" by (rule ring_mt_laws.sync_laws [OF assms(1)])
  have "unat (enqueue_count b r n) \<le> length objs" "unat (dequeue_count b r n) \<le> length objs"
    using assms(3) granted_le(2) [of b n] by (simp_all add: enqueue_count_def dequeue_count_def word_le_nat_alt
        order_trans [OF _ assms(3)])
  then show ?thesis
    using ring_sync_laws.do_enqueue [OF laws quietD(1) [OF assms(2)], of b n objs IS_MP None]
      ring_sync_laws.do_dequeue [OF laws assms(2), of b n objs IS_MC None]
      enqueue_alone [OF assms] dequeue_alone [OF assms] by (metis (no_types, lifting) option.simps(8))
qed

theorem steps_are_operations_witness:
  "\<exists>r' k. rte_ring_do_enqueue seq_sync demo_ring [7, 8] 2 RTE_RING_QUEUE_VARIABLE IS_MP None = Some (r', k, None) \<and>
     (mt_step seq_sync)\<^sup>*\<^sup>* (mt_start demo_ring)
       ((mt_start demo_ring)\<lparr>mt_ring := r', accepted_objs := [10, 20] @ take (unat k) [7, 8]\<rparr>)"
  using steps_are_operations [OF seq_mt.ring_mt_laws_axioms demo_ring_quiet, of 2 "[7, 8]" RTE_RING_QUEUE_VARIABLE]
  unfolding demo_ring_contents by auto

end
