(* ===== verification/Lpm.thy ===== *)
theory Lpm
  imports Dpdk_Prelude
begin

text \<open>
  Longest prefix match, \<open>src/src/ext/rte_lpm.c\<close>: the table entries and their layout in a 32-bit word,
  the LPM structure, \<open>rte_lpm_lookup\<close> and \<open>rte_lpm_lookup_bulk\<close>.  The functions that build the
  tables (\<open>rte_lpm_create\<close>, \<open>rte_lpm_add\<close>, \<open>rte_lpm_delete\<close>) are prototypes in the repository; what the
  comments of the structures say the tables hold is the predicate \<open>represents\<close>, against a rule
  list, and the lookup is shown to return the next hop of the most specific rule.
\<close>

section \<open>The data structures\<close>

text \<open>Bit fields of 24, 1, 1 and 6 bits; on a little-endian machine the first is the lowest.\<close>

record rte_lpm_tbl_entry =
  next_hop :: "24 word"
  valid :: bool
  valid_group :: bool
  depth :: "6 word"

definition entry_word :: "rte_lpm_tbl_entry \<Rightarrow> u32" where
  "entry_word e = ucast (next_hop e) OR push_bit 24 (of_bool (valid e)) OR
     push_bit 25 (of_bool (valid_group e)) OR push_bit 26 (ucast (depth e))"

definition word_entry :: "u32 \<Rightarrow> rte_lpm_tbl_entry" where
  "word_entry w = \<lparr>next_hop = ucast w, valid = bit w 24, valid_group = bit w 25,
     depth = ucast (drop_bit 26 w)\<rparr>"

record rte_lpm_rule =
  rule_ip :: u32
  rule_next_hop :: u32

record rte_lpm_rule_info =
  used_rules :: u32
  first_rule :: u32

text \<open>
  The arrays \<open>tbl24\<close> and \<open>tbl8\<close> are functions of the index; the accesses below check the bound.
\<close>

record rte_lpm =
  lpm_name :: string
  max_rules :: u32
  number_tbl8s :: u32
  rule_info :: "rte_lpm_rule_info list"
  tbl24 :: "nat \<Rightarrow> rte_lpm_tbl_entry"
  tbl8 :: "nat \<Rightarrow> rte_lpm_tbl_entry"
  rules_tbl :: "rte_lpm_rule list"

definition RTE_LPM_TBL24_NUM_ENTRIES :: nat where "RTE_LPM_TBL24_NUM_ENTRIES = 2 ^ 24"
definition RTE_LPM_TBL8_GROUP_NUM_ENTRIES :: u32 where "RTE_LPM_TBL8_GROUP_NUM_ENTRIES = 256"
definition RTE_LPM_VALID_EXT_ENTRY_BITMASK :: u32 where "RTE_LPM_VALID_EXT_ENTRY_BITMASK = 0x03000000"
definition RTE_LPM_LOOKUP_SUCCESS :: u32 where "RTE_LPM_LOOKUP_SUCCESS = 0x01000000"

named_theorems lpm_consts
declare RTE_LPM_TBL24_NUM_ENTRIES_def [lpm_consts] RTE_LPM_TBL8_GROUP_NUM_ENTRIES_def [lpm_consts]
  RTE_LPM_VALID_EXT_ENTRY_BITMASK_def [lpm_consts] RTE_LPM_LOOKUP_SUCCESS_def [lpm_consts]

text \<open>Reading an entry as a 32-bit word, as the lookups do through a cast pointer.\<close>

definition tbl24_word :: "rte_lpm \<Rightarrow> u32 \<Rightarrow> u32 option" where
  "tbl24_word lpm i =
     (if unat i < RTE_LPM_TBL24_NUM_ENTRIES then Some (entry_word (tbl24 lpm (unat i))) else None)"

definition tbl8_word :: "rte_lpm \<Rightarrow> u32 \<Rightarrow> u32 option" where
  "tbl8_word lpm i =
     (if unat i < unat (number_tbl8s lpm) * unat RTE_LPM_TBL8_GROUP_NUM_ENTRIES
      then Some (entry_word (tbl8 lpm (unat i))) else None)"

section \<open>Lookup\<close>

text \<open>
  The pointer arguments may be NULL, the value \<^const>\<open>None\<close>.  \<open>debug\<close> is whether the library is
  compiled with \<open>RTE_LIBRTE_LPM_DEBUG\<close>; without it the arguments are not checked and a NULL pointer
  is a fault.  The result is the return value and what \<open>next_hop\<close> points to.
\<close>

definition rte_lpm_lookup :: "bool \<Rightarrow> rte_lpm option \<Rightarrow> u32 \<Rightarrow> u32 option \<Rightarrow> (int \<times> u32 option) option" where
  "rte_lpm_lookup debug lpm ip nh =
     (if debug \<and> (lpm = None \<or> nh = None) then Some (- EINVAL, nh)
      else do {
        let tbl24_index = drop_bit 8 ip;
        lpm \<leftarrow> lpm;
        tbl_entry \<leftarrow> tbl24_word lpm tbl24_index;
        tbl_entry \<leftarrow>
          (if tbl_entry AND RTE_LPM_VALID_EXT_ENTRY_BITMASK = RTE_LPM_VALID_EXT_ENTRY_BITMASK
           then do {
             let tbl8_index = ucast (ucast ip :: u8) +
               (tbl_entry AND 0x00FFFFFF) * RTE_LPM_TBL8_GROUP_NUM_ENTRIES;
             tbl8_word lpm tbl8_index }
           else Some tbl_entry);
        _ \<leftarrow> nh;
        Some (if tbl_entry AND RTE_LPM_LOOKUP_SUCCESS \<noteq> 0 then 0 else - ENOENT,
          Some (tbl_entry AND 0x00FFFFFF)) })"

text \<open>The first loop of the bulk lookup fills \<open>tbl24_indexes\<close>, the second \<open>next_hops\<close>.\<close>

fun lookup_bulk_indexes :: "u32 list \<Rightarrow> nat \<Rightarrow> nat \<Rightarrow> u32 list \<Rightarrow> u32 list option" where
  "lookup_bulk_indexes ips i 0 tbl24_indexes = Some tbl24_indexes"
| "lookup_bulk_indexes ips i (Suc left) tbl24_indexes = do {
     ip \<leftarrow> arr_get ips i;
     tbl24_indexes \<leftarrow> arr_set tbl24_indexes i (drop_bit 8 ip);
     lookup_bulk_indexes ips (i + 1) left tbl24_indexes }"

fun lookup_bulk_entries :: "rte_lpm \<Rightarrow> u32 list \<Rightarrow> u32 list \<Rightarrow> nat \<Rightarrow> nat \<Rightarrow> u32 list \<Rightarrow> u32 list option" where
  "lookup_bulk_entries lpm ips tbl24_indexes i 0 next_hops = Some next_hops"
| "lookup_bulk_entries lpm ips tbl24_indexes i (Suc left) next_hops = do {
     index \<leftarrow> arr_get tbl24_indexes i;
     entry \<leftarrow> tbl24_word lpm index;
     next_hops \<leftarrow> arr_set next_hops i entry;
     next_hops \<leftarrow>
       (if entry AND RTE_LPM_VALID_EXT_ENTRY_BITMASK = RTE_LPM_VALID_EXT_ENTRY_BITMASK
        then do {
          ip \<leftarrow> arr_get ips i;
          let tbl8_index = ucast (ucast ip :: u8) +
            (entry AND 0x00FFFFFF) * RTE_LPM_TBL8_GROUP_NUM_ENTRIES;
          entry \<leftarrow> tbl8_word lpm tbl8_index;
          arr_set next_hops i entry }
        else Some next_hops);
     lookup_bulk_entries lpm ips tbl24_indexes (i + 1) left next_hops }"

definition rte_lpm_lookup_bulk_func :: "bool \<Rightarrow> rte_lpm option \<Rightarrow> u32 list option \<Rightarrow>
    u32 list option \<Rightarrow> u32 \<Rightarrow> (int \<times> u32 list option) option" where
  "rte_lpm_lookup_bulk_func debug lpm ips next_hops n =
     (if debug \<and> (lpm = None \<or> ips = None \<or> next_hops = None) then Some (- EINVAL, next_hops)
      else if n = 0 then Some (0, next_hops)
      else do {
        lpm \<leftarrow> lpm; ips \<leftarrow> ips; hops \<leftarrow> next_hops;
        tbl24_indexes \<leftarrow> lookup_bulk_indexes ips 0 (unat n) (replicate (unat n) 0);
        hops \<leftarrow> lookup_bulk_entries lpm ips tbl24_indexes 0 (unat n) hops;
        Some (0, Some hops) })"

section \<open>The entry word\<close>

lemma entry_word_bits:
  "bit (entry_word e) i \<longleftrightarrow> i < 32 \<and> (i < 24 \<and> bit (next_hop e) i \<or> i = 24 \<and> valid e \<or>
     i = 25 \<and> valid_group e \<or> 26 \<le> i \<and> bit (depth e) (i - 26))"
  by (auto simp: entry_word_def bit_simps dest: bit_imp_le_length)

lemma lpm_masks:
  "(0x03000000 :: u32) = push_bit 24 (mask 2)"
  "(0x00FFFFFF :: u32) = mask 24"
  by (simp_all add: mask_eq_exp_minus_1 push_bit_eq_mult)

lemma and_eq_mask_iff: "(w AND m = m) \<longleftrightarrow> (\<forall>i. bit m i \<longrightarrow> bit (w :: 'a :: len word) i)"
  by (auto simp: bit_eq_iff bit_simps dest: bit_imp_le_length)

lemma entry_extended:
  "entry_word e AND RTE_LPM_VALID_EXT_ENTRY_BITMASK = RTE_LPM_VALID_EXT_ENTRY_BITMASK \<longleftrightarrow>
   valid e \<and> valid_group e"
proof -
  have "bit (0x03000000 :: u32) i \<longleftrightarrow> i = 24 \<or> i = 25" for i
    unfolding lpm_masks(1) by (auto simp: bit_simps)
  then show ?thesis by (auto simp: lpm_consts and_eq_mask_iff entry_word_bits)
qed

lemma entry_success: "entry_word e AND RTE_LPM_LOOKUP_SUCCESS \<noteq> 0 \<longleftrightarrow> valid e"
proof -
  have "(0x01000000 :: u32) = 2 ^ 24" by simp
  then have b: "bit (0x01000000 :: u32) i \<longleftrightarrow> i = 24" for i
    by (simp only: bit_exp_iff) auto
  have "entry_word e AND 0x01000000 = 0 \<longleftrightarrow> \<not> bit (entry_word e) 24"
  proof
    assume "entry_word e AND 0x01000000 = 0"
    then have "\<not> bit (entry_word e AND 0x01000000) 24" by simp
    then show "\<not> bit (entry_word e) 24" by (simp add: bit_and_iff b)
  next
    assume "\<not> bit (entry_word e) 24"
    then show "entry_word e AND 0x01000000 = 0" by (intro bit_word_eqI) (auto simp only: bit_and_iff b bit_0_eq bot_apply bot_bool_def)
  qed
  then show ?thesis by (simp add: lpm_consts entry_word_bits)
qed

lemma entry_next_hop: "entry_word e AND 0x00FFFFFF = ucast (next_hop e)"
  unfolding lpm_masks(2)
  by (rule bit_word_eqI) (auto simp: bit_simps entry_word_bits dest: bit_imp_le_length)

text \<open>
  The entry layout loses nothing: reading the fields back from the word gives the entry, and
  writing the fields read from a word gives the word.
\<close>

theorem entry_word_roundtrip: "word_entry (entry_word e) = e \<and> entry_word (word_entry w) = w"
proof
  show "word_entry (entry_word e) = e"
    by (cases e) (auto simp: word_entry_def bit_simps entry_word_bits dest: bit_imp_le_length
        intro!: bit_word_eqI)
  show "entry_word (word_entry w) = w"
  proof (rule bit_word_eqI)
    fix n assume n: "n < LENGTH(32)"
    consider "n < 24" | "n = 24" | "n = 25" | "26 \<le> n" by linarith
    then show "bit (entry_word (word_entry w)) n \<longleftrightarrow> bit w n"
      using n by cases (simp_all add: entry_word_bits word_entry_def bit_ucast_iff bit_drop_bit_eq less_diff_conv2)
  qed
qed

section \<open>The tbl8 index\<close>

lemma tbl8_index:
  "unat (ucast (ucast ip :: u8) + (entry_word e AND 0x00FFFFFF) * RTE_LPM_TBL8_GROUP_NUM_ENTRIES) =
   unat (next_hop e) * 256 + unat ip mod 256"
proof -
  have "unat (next_hop e) < 2 ^ LENGTH(24)" by (rule unsigned_less)
  then have small: "unat (next_hop e) * 256 + unat ip mod 256 < 2 ^ LENGTH(32)" by simp
  have "(ucast (ucast ip :: u8) :: u32) = of_nat (unat ip mod 256)"
    by (simp add: word_unat_eq_iff unsigned_ucast_eq unsigned_take_bit_eq
        take_bit_nat_def unsigned_of_nat mod_mod_cancel)
  moreover have "(ucast (next_hop e) :: u32) = of_nat (unat (next_hop e))" by simp
  ultimately have "ucast (ucast ip :: u8) + (entry_word e AND 0x00FFFFFF) * RTE_LPM_TBL8_GROUP_NUM_ENTRIES =
      (of_nat (unat (next_hop e) * 256 + unat ip mod 256) :: u32)"
    unfolding entry_next_hop by (simp add: lpm_consts)
  with small show ?thesis by (simp only: unsigned_of_nat take_bit_nat_eq_self of_nat_id)
qed

section \<open>Rules and the most specific one\<close>

text \<open>A rule: an address, a depth (prefix length) up to 32 and a next hop.\<close>

record route =
  route_ip :: u32
  route_depth :: nat
  route_hop :: "24 word"

definition covers :: "route \<Rightarrow> u32 \<Rightarrow> bool" where
  "covers r ip \<longleftrightarrow> drop_bit (32 - route_depth r) ip = drop_bit (32 - route_depth r) (route_ip r)"

text \<open>The deepest rule that covers an address, and its next hop.\<close>

fun most_specific :: "route list \<Rightarrow> u32 \<Rightarrow> route option" where
  "most_specific [] ip = None"
| "most_specific (r # rs) ip =
     (if covers r ip then
        (case most_specific rs ip of
           None \<Rightarrow> Some r
         | Some r' \<Rightarrow> if route_depth r < route_depth r' then Some r' else Some r)
      else most_specific rs ip)"

definition lpm_spec :: "route list \<Rightarrow> u32 \<Rightarrow> 24 word option" where
  "lpm_spec rs ip = map_option route_hop (most_specific rs ip)"

lemma most_specific_None: "most_specific rs ip = None \<longleftrightarrow> (\<forall>r \<in> set rs. \<not> covers r ip)"
  by (induction rs) (auto split: option.splits)

lemma most_specific_Some:
  "most_specific rs ip = Some r \<Longrightarrow>
   r \<in> set rs \<and> covers r ip \<and> (\<forall>r' \<in> set rs. covers r' ip \<longrightarrow> route_depth r' \<le> route_depth r)"
proof (induction rs arbitrary: r)
  case (Cons a rs)
  show ?case
  proof (cases "most_specific rs ip")
    case None
    with Cons.prems have "covers a ip" "r = a" by (simp_all split: if_splits)
    with None show ?thesis by (simp add: most_specific_None)
  next
    case (Some q)
    with Cons.IH [OF Some] Cons.prems show ?thesis by (force split: if_splits)
  qed
qed simp

section \<open>What the tables hold\<close>

text \<open>An entry says that the answer is \<open>nh\<close>.\<close>

definition entry_answers :: "rte_lpm_tbl_entry \<Rightarrow> 24 word option \<Rightarrow> bool" where
  "entry_answers e nh \<longleftrightarrow> (case nh of None \<Rightarrow> \<not> valid e | Some h \<Rightarrow> valid e \<and> next_hop e = h)"

definition deep_in :: "route list \<Rightarrow> u32 \<Rightarrow> bool" where
  "deep_in rs i \<longleftrightarrow> list_ex (\<lambda>r. 24 < route_depth r \<and> drop_bit 8 (route_ip r) = i) rs"

text \<open>
  The tables as documented at the structures: \<open>tbl24\<close> has one entry for every 24-bit prefix.  Where
  no rule is deeper than 24 it stores the answer of the rules (\<open>valid_group\<close> is 0); otherwise it is
  valid with \<open>valid_group\<close> set and the index of a group of 256 entries of \<open>tbl8\<close>, one for every
  address of that prefix.
\<close>

definition represents :: "rte_lpm \<Rightarrow> route list \<Rightarrow> bool" where
  "represents lpm rs \<longleftrightarrow> (\<forall>ip.
     let i = drop_bit 8 ip; e = tbl24 lpm (unat i) in
     if deep_in rs i then
       valid e \<and> valid_group e \<and> unat (next_hop e) < unat (number_tbl8s lpm) \<and>
       entry_answers (tbl8 lpm (unat (next_hop e) * 256 + unat ip mod 256)) (lpm_spec rs ip)
     else
       \<not> valid_group e \<and>
       entry_answers e (lpm_spec (filter (\<lambda>r. route_depth r \<le> 24) rs) (push_bit 8 i)))"

section \<open>The lookup finds the most specific rule\<close>

lemma tbl24_word_block: "tbl24_word lpm (drop_bit 8 ip) = Some (entry_word (tbl24 lpm (unat (drop_bit 8 ip))))"
proof -
  have "unat ip < 2 ^ LENGTH(32)" by (rule unsigned_less)
  then have "unat (drop_bit 8 ip) < 2 ^ 24"
    by (simp add: unsigned_drop_bit_eq drop_bit_eq_div [where 'a = nat] take_bit_nat_def
        div_less_iff_less_mult)
  then show ?thesis by (simp add: tbl24_word_def lpm_consts)
qed

lemma covers_shallow:
  assumes "route_depth r \<le> 24"
  shows "covers r (push_bit 8 (drop_bit 8 ip)) \<longleftrightarrow> covers r ip"
proof -
  have "drop_bit (32 - route_depth r) (push_bit 8 (drop_bit 8 ip)) = drop_bit (32 - route_depth r) (ip :: u32)"
    using assms by (intro bit_word_eqI) (auto simp: bit_simps dest: bit_imp_le_length)
  then show ?thesis by (simp add: covers_def)
qed

lemma covers_deep:
  assumes "24 < route_depth r" "covers r ip"
  shows "drop_bit 8 (route_ip r) = drop_bit 8 ip"
proof (rule bit_word_eqI)
  fix n assume n: "n < LENGTH(32)"
  have "bit (drop_bit (32 - route_depth r) ip) k \<longleftrightarrow> bit (drop_bit (32 - route_depth r) (route_ip r)) k" for k
    using assms(2) by (simp add: covers_def)
  from this [of "8 + n - (32 - route_depth r)"] assms(1) show "bit (drop_bit 8 (route_ip r)) n \<longleftrightarrow> bit (drop_bit 8 ip) n"
    by (auto simp: bit_simps)
qed

lemma lpm_spec_shallow:
  assumes "\<not> deep_in rs (drop_bit 8 ip)"
  shows "lpm_spec (filter (\<lambda>r. route_depth r \<le> 24) rs) (push_bit 8 (drop_bit 8 ip)) = lpm_spec rs ip"
proof -
  from assms have "most_specific (filter (\<lambda>r. route_depth r \<le> 24) rs) (push_bit 8 (drop_bit 8 ip)) = most_specific rs ip"
  proof (induction rs)
    case (Cons r rs)
    then have IH: "most_specific (filter (\<lambda>r. route_depth r \<le> 24) rs) (push_bit 8 (drop_bit 8 ip)) = most_specific rs ip"
      by (simp add: deep_in_def)
    show ?case
    proof (cases "route_depth r \<le> 24")
      case True
      with IH show ?thesis by (simp add: covers_shallow)
    next
      case False
      with Cons.prems covers_deep [of r ip] have "\<not> covers r ip" by (auto simp: deep_in_def)
      with IH False show ?thesis by simp
    qed
  qed simp
  then show ?thesis by (simp add: lpm_spec_def)
qed

text \<open>The word at which a lookup ends.\<close>

definition final_entry :: "rte_lpm \<Rightarrow> u32 \<Rightarrow> rte_lpm_tbl_entry" where
  "final_entry lpm ip =
     (let e = tbl24 lpm (unat (drop_bit 8 ip))
      in if valid e \<and> valid_group e then tbl8 lpm (unat (next_hop e) * 256 + unat ip mod 256) else e)"

definition lookup_in_range :: "rte_lpm \<Rightarrow> u32 \<Rightarrow> bool" where
  "lookup_in_range lpm ip \<longleftrightarrow>
     (let e = tbl24 lpm (unat (drop_bit 8 ip))
      in valid e \<and> valid_group e \<longrightarrow> unat (next_hop e) < unat (number_tbl8s lpm))"

lemma tbl8_word_group:
  assumes "unat (next_hop e) < unat (number_tbl8s lpm)"
  shows "tbl8_word lpm (ucast (ucast ip :: u8) + (entry_word e AND 0x00FFFFFF) * RTE_LPM_TBL8_GROUP_NUM_ENTRIES) =
    Some (entry_word (tbl8 lpm (unat (next_hop e) * 256 + unat ip mod 256)))"
proof -
  have "unat (next_hop e) * 256 + unat ip mod 256 < Suc (unat (next_hop e)) * 256" by simp
  also have "\<dots> \<le> unat (number_tbl8s lpm) * 256" using assms by (intro mult_le_mono1) simp
  finally show ?thesis
    unfolding tbl8_word_def tbl8_index by (simp add: lpm_consts)
qed

lemma lookup_result:
  assumes "lookup_in_range lpm ip"
  shows "rte_lpm_lookup debug (Some lpm) ip (Some old) =
    Some (if valid (final_entry lpm ip) then 0 else - ENOENT, Some (ucast (next_hop (final_entry lpm ip))))"
  using assms
  by (auto simp: rte_lpm_lookup_def tbl24_word_block entry_extended entry_success entry_next_hop
      tbl8_word_group [unfolded entry_next_hop] final_entry_def lookup_in_range_def Let_def )

lemma represents_final:
  assumes "represents lpm rs"
  shows "lookup_in_range lpm ip \<and> entry_answers (final_entry lpm ip) (lpm_spec rs ip)"
proof -
  note tables = assms [unfolded represents_def, rule_format, of ip, unfolded Let_def]
  show ?thesis
  proof (cases "deep_in rs (drop_bit 8 ip)")
    case True
    with tables show ?thesis by (simp add: lookup_in_range_def final_entry_def Let_def)
  next
    case False
    with tables show ?thesis
      by (simp add: lookup_in_range_def final_entry_def Let_def lpm_spec_shallow [OF False])
  qed
qed

text \<open>
  C9: On tables that represent a set of rules, \<open>rte_lpm_lookup\<close> returns 0 and the next hop of a
  deepest rule that covers the address, or \<open>-ENOENT\<close> when no rule covers it, for every address, and
  never reads outside the tables.
\<close>

theorem rte_lpm_lookup_longest_prefix:
  assumes "represents lpm rs"
  shows "\<exists>status hop. rte_lpm_lookup debug (Some lpm) ip (Some old) = Some (status, Some hop) \<and>
    (case most_specific rs ip of
       None \<Rightarrow> status = - ENOENT \<and> (\<forall>r \<in> set rs. \<not> covers r ip)
     | Some r \<Rightarrow> status = 0 \<and> hop = ucast (route_hop r) \<and> r \<in> set rs \<and> covers r ip \<and>
         (\<forall>r' \<in> set rs. covers r' ip \<longrightarrow> route_depth r' \<le> route_depth r))"
proof -
  have "lookup_in_range lpm ip" "entry_answers (final_entry lpm ip) (lpm_spec rs ip)"
    using represents_final [OF assms] by simp_all
  then show ?thesis
    using most_specific_Some [of rs ip] most_specific_None [of rs ip]
    by (cases "most_specific rs ip") (auto simp: lookup_result entry_answers_def lpm_spec_def)
qed

text \<open>Two rules, 10.0.0.0/8 and 10.0.0.128/25; one tbl8 group for the block 10.0.0.\<close>

definition demo_routes :: "route list" where
  "demo_routes = [\<lparr>route_ip = 0x0A000000, route_depth = 8, route_hop = 1\<rparr>,
     \<lparr>route_ip = 0x0A000080, route_depth = 25, route_hop = 2\<rparr>]"

definition demo_lpm :: rte_lpm where
  "demo_lpm = \<lparr>lpm_name = ''demo'', max_rules = 2, number_tbl8s = 1, rule_info = [],
     tbl24 = (\<lambda>i. if i = 0x0A0000 then \<lparr>next_hop = 0, valid = True, valid_group = True, depth = 25\<rparr>
       else \<lparr>next_hop = 1, valid = (i div 0x10000 = 0x0A), valid_group = False, depth = 8\<rparr>),
     tbl8 = (\<lambda>i. if i < 128 then \<lparr>next_hop = 1, valid = True, valid_group = True, depth = 8\<rparr>
       else \<lparr>next_hop = 2, valid = True, valid_group = True, depth = 25\<rparr>),
     rules_tbl = []\<rparr>"

lemma unat_drop_bit: "unat (drop_bit k ip :: u32) = unat ip div 2 ^ k"
proof -
  have "unat ip < 2 ^ LENGTH(32)" by (rule unsigned_less)
  then show ?thesis
    by (simp add: unsigned_drop_bit_eq drop_bit_eq_div [where 'a = nat] take_bit_nat_eq_self)
qed

lemma demo_routes_covers:
  "covers \<lparr>route_ip = 0x0A000000, route_depth = 8, route_hop = 1\<rparr> ip \<longleftrightarrow> unat ip div 2 ^ 24 = 10"
  "covers \<lparr>route_ip = 0x0A000080, route_depth = 25, route_hop = 2\<rparr> ip \<longleftrightarrow> unat ip div 2 ^ 7 = 1310721"
  by (simp_all add: covers_def word_unat_eq_iff unat_drop_bit)

lemma div_256_24: "n div 2 ^ 24 = n div 256 div (0x10000 :: nat)"
proof -
  have "n div 256 div 0x10000 = n div (256 * 0x10000)" by (rule div_mult2_eq [symmetric])
  then show ?thesis by simp
qed

lemma div_256_7: "n div 2 ^ 7 = 2 * (n div 256) + n mod 256 div (128 :: nat)"
proof -
  have "n = n mod 256 + 2 * (n div 256) * 128" by simp
  then have "n div 128 = (n mod 256 + 2 * (n div 256) * 128) div 128" by (rule arg_cong)
  also have "\<dots> = 2 * (n div 256) + n mod 256 div 128" by (rule div_mult_self1) simp
  finally show ?thesis by simp
qed

lemma demo_lpm_represents: "represents demo_lpm demo_routes"
proof -
  define r1 where "r1 = \<lparr>route_ip = 0x0A000000, route_depth = 8, route_hop = 1\<rparr>"
  define r2 where "r2 = \<lparr>route_ip = 0x0A000080, route_depth = 25, route_hop = 2\<rparr>"
  have routes: "demo_routes = [r1, r2]" by (simp add: demo_routes_def r1_def r2_def)
  {
    fix ip :: u32
    define u where "u = unat ip"
    have deep: "deep_in demo_routes (drop_bit 8 ip) \<longleftrightarrow> u div 256 = 0x0A0000"
      by (simp add: deep_in_def demo_routes_def word_unat_eq_iff unat_drop_bit u_def)
    have c1: "covers r1 ip \<longleftrightarrow> u div 256 div 0x10000 = 10"
      unfolding r1_def demo_routes_covers(1) u_def [symmetric] div_256_24 ..
    have c2: "covers r2 ip \<longleftrightarrow> 2 * (u div 256) + u mod 256 div 128 = 1310721"
      unfolding r2_def demo_routes_covers(2) u_def [symmetric] div_256_7 ..
    have hops: "route_hop r1 = 1" "route_hop r2 = 2" "route_depth r1 = 8" "route_depth r2 = 25"
      by (simp_all add: r1_def r2_def)
    have idx: "unat (drop_bit 8 ip) = u div 256" unfolding u_def unat_drop_bit by simp
    have "let i = drop_bit 8 ip; e = tbl24 demo_lpm (unat i) in
       if deep_in demo_routes i then
         valid e \<and> valid_group e \<and> unat (next_hop e) < unat (number_tbl8s demo_lpm) \<and>
         entry_answers (tbl8 demo_lpm (unat (next_hop e) * 256 + unat ip mod 256)) (lpm_spec demo_routes ip)
       else
         \<not> valid_group e \<and>
         entry_answers e (lpm_spec (filter (\<lambda>r. route_depth r \<le> 24) demo_routes) (push_bit 8 i))"
    proof (cases "u div 256 = 0x0A0000")
      case True
      have "u mod 256 < 256" by simp
      then have "u mod 256 div 128 = (if u mod 256 < 128 then 0 else 1)"
        by (simp add: div_nat_eqI)
      with True c1 c2 have "lpm_spec demo_routes ip = Some (if u mod 256 < 128 then 1 else 2)"
        by (simp add: lpm_spec_def routes hops)
      with True deep show ?thesis
        unfolding Let_def idx u_def [symmetric] by (simp add: demo_lpm_def entry_answers_def)
    next
      case False
      have "lpm_spec (filter (\<lambda>r. route_depth r \<le> 24) demo_routes) (push_bit 8 (drop_bit 8 ip)) =
          (if u div 256 div 0x10000 = 10 then Some 1 else None)"
        by (simp add: lpm_spec_def routes hops covers_shallow c1)
      with False deep show ?thesis
        unfolding Let_def idx u_def [symmetric] by (simp add: demo_lpm_def entry_answers_def)
    qed
  }
  then show ?thesis unfolding represents_def by blast
qed

theorem rte_lpm_lookup_longest_prefix_witness:
  "represents demo_lpm demo_routes \<and>
   (\<exists>status hop. rte_lpm_lookup False (Some demo_lpm) 0x0A0000FE (Some 0) = Some (status, Some hop) \<and>
     status = 0 \<and> hop = 2)"
proof -
  have "most_specific demo_routes 0x0A0000FE =
      Some \<lparr>route_ip = 0x0A000080, route_depth = 25, route_hop = 2\<rparr>"
    by (simp add: demo_routes_def demo_routes_covers)
  then show ?thesis
    using demo_lpm_represents rte_lpm_lookup_longest_prefix [OF demo_lpm_represents, of False "0x0A0000FE" 0]
    by simp
qed

section \<open>Bulk lookup\<close>

lemma lookup_bulk_indexes_run:
  "i + left \<le> length ips \<Longrightarrow> i + left \<le> length idxs \<Longrightarrow>
   \<exists>idxs'. lookup_bulk_indexes ips i left idxs = Some idxs' \<and> length idxs' = length idxs \<and>
     (\<forall>j<length idxs. idxs' ! j = (if i \<le> j \<and> j < i + left then drop_bit 8 (ips ! j) else idxs ! j))"
proof (induction left arbitrary: i idxs)
  case (Suc left)
  from Suc.IH [of "i + 1" "idxs[i := drop_bit 8 (ips ! i)]"] Suc.prems
  show ?case by (auto simp: nth_list_update Suc_le_eq not_less dest: le_antisym)
qed auto

lemma lookup_bulk_entries_run:
  "i + left \<le> length ips \<Longrightarrow> i + left \<le> length hops \<Longrightarrow> length idxs = i + left \<Longrightarrow>
   (\<And>j. j < i + left \<Longrightarrow> idxs ! j = drop_bit 8 (ips ! j)) \<Longrightarrow>
   (\<And>j. j < i + left \<Longrightarrow> lookup_in_range lpm (ips ! j)) \<Longrightarrow>
   \<exists>hops'. lookup_bulk_entries lpm ips idxs i left hops = Some hops' \<and> length hops' = length hops \<and>
     (\<forall>j<length hops. hops' ! j =
        (if i \<le> j \<and> j < i + left then entry_word (final_entry lpm (ips ! j)) else hops ! j))"
proof (induction left arbitrary: i hops)
  case (Suc left)
  let ?ip = "ips ! i"
  have range: "lookup_in_range lpm ?ip" using Suc.prems(5) [of i] by simp
  obtain hops' where IH: "lookup_bulk_entries lpm ips idxs (i + 1) left (hops[i := entry_word (final_entry lpm ?ip)]) = Some hops'"
    "length hops' = length hops"
    "\<forall>j<length hops. hops' ! j = (if i + 1 \<le> j \<and> j < i + 1 + left then entry_word (final_entry lpm (ips ! j))
       else hops[i := entry_word (final_entry lpm ?ip)] ! j)"
    using Suc.IH [of "i + 1" "hops[i := entry_word (final_entry lpm ?ip)]"] Suc.prems by auto
  have "lookup_bulk_entries lpm ips idxs i (Suc left) hops = Some hops'"
    using Suc.prems IH(1) range tbl24_word_block [of lpm ?ip]
    by (auto simp: entry_extended tbl8_word_group final_entry_def lookup_in_range_def Let_def split: if_splits)
  with IH(2,3) show ?case by (auto simp: nth_list_update Suc_le_eq not_less dest: le_antisym)
qed auto

text \<open>
  C29: The bulk lookup is the single lookup of every address: entry \<open>i\<close> of \<open>next_hops\<close> has the
  success bit exactly when \<open>rte_lpm_lookup\<close> of address \<open>i\<close> returns 0, with the same next hop in the
  low 24 bits; entries after the first \<open>n\<close> are not touched and the function returns 0.
\<close>

theorem rte_lpm_lookup_bulk_agrees:
  assumes "unat n \<le> length ips" "unat n \<le> length hops"
    and range: "\<And>i. i < unat n \<Longrightarrow> lookup_in_range lpm (ips ! i)"
  shows "\<exists>hops'. rte_lpm_lookup_bulk_func debug (Some lpm) (Some ips) (Some hops) n = Some (0, Some hops') \<and>
    length hops' = length hops \<and> drop (unat n) hops' = drop (unat n) hops \<and>
    (\<forall>i<unat n. rte_lpm_lookup debug (Some lpm) (ips ! i) (Some old) =
       Some (if (hops' ! i) AND RTE_LPM_LOOKUP_SUCCESS \<noteq> 0 then 0 else - ENOENT,
             Some ((hops' ! i) AND 0x00FFFFFF)))"
proof (cases "n = 0")
  case True
  then show ?thesis by (simp add: rte_lpm_lookup_bulk_func_def)
next
  case False
  obtain idxs where idxs: "lookup_bulk_indexes ips 0 (unat n) (replicate (unat n) 0) = Some idxs"
    "length idxs = unat n" "\<forall>j<unat n. idxs ! j = drop_bit 8 (ips ! j)"
    using lookup_bulk_indexes_run [of 0 "unat n" ips "replicate (unat n) 0"] assms by auto
  with lookup_bulk_entries_run [of 0 "unat n" ips hops idxs lpm] assms obtain hops' where
    hops': "lookup_bulk_entries lpm ips idxs 0 (unat n) hops = Some hops'" "length hops' = length hops"
      "\<forall>j<length hops. hops' ! j = (if j < unat n then entry_word (final_entry lpm (ips ! j)) else hops ! j)"
    by auto
  have "drop (unat n) hops' = drop (unat n) hops"
    using hops'(2,3) by (intro nth_equalityI) auto
  moreover have "rte_lpm_lookup debug (Some lpm) (ips ! i) (Some old) =
      Some (if (hops' ! i) AND RTE_LPM_LOOKUP_SUCCESS \<noteq> 0 then 0 else - ENOENT, Some ((hops' ! i) AND 0x00FFFFFF))"
    if "i < unat n" for i
    using that hops'(3) assms(2) lookup_result [OF range [OF that], of debug old]
    by (simp add: entry_success entry_next_hop)
  ultimately show ?thesis
    using False idxs(1) hops'(1,2) by (simp add: rte_lpm_lookup_bulk_func_def)
qed

theorem rte_lpm_lookup_bulk_agrees_witness:
  "\<exists>hops'. rte_lpm_lookup_bulk_func False (Some demo_lpm) (Some [0x0A0000FE, 0x0A000001]) (Some [0, 0]) 2 =
      Some (0, Some hops') \<and> length hops' = 2 \<and>
    (\<forall>i<2. rte_lpm_lookup False (Some demo_lpm) ([0x0A0000FE, 0x0A000001] ! i) (Some 0) =
       Some (if (hops' ! i) AND RTE_LPM_LOOKUP_SUCCESS \<noteq> 0 then 0 else - ENOENT,
             Some ((hops' ! i) AND 0x00FFFFFF)))"
  using rte_lpm_lookup_bulk_agrees [of 2 "[0x0A0000FE, 0x0A000001]" "[0, 0]" demo_lpm False 0]
    represents_final [OF demo_lpm_represents] by auto

text \<open>
  Compiled with \<open>RTE_LIBRTE_LPM_DEBUG\<close> the lookups reject NULL arguments with \<open>-EINVAL\<close> and
  write nothing; without it the same calls dereference the NULL pointer.
\<close>

theorem rte_lpm_null_arguments:
  assumes "lpm = None \<or> nh = None" "lpm = None \<or> ips = None \<or> hops = None"
  shows "rte_lpm_lookup True lpm ip nh = Some (- EINVAL, nh) \<and>
    rte_lpm_lookup_bulk_func True lpm ips hops n = Some (- EINVAL, hops) \<and>
    rte_lpm_lookup False lpm ip nh = None \<and>
    (n \<noteq> 0 \<longrightarrow> rte_lpm_lookup_bulk_func False lpm ips hops n = None)"
  using assms by (auto simp: rte_lpm_lookup_def rte_lpm_lookup_bulk_func_def Let_def split: Option.bind_splits)

theorem rte_lpm_null_arguments_witness:
  "rte_lpm_lookup True (Some demo_lpm) 7 None = Some (- EINVAL, None) \<and>
   rte_lpm_lookup_bulk_func True (Some demo_lpm) None (Some [5]) 1 = Some (- EINVAL, Some [5])"
  using rte_lpm_null_arguments [of "Some demo_lpm" None None "Some [5]" 7 1] by simp

end
