(* ===== verification/Lpm_Layout.thy ===== *)
theory Lpm_Layout
  imports Lpm
begin

text \<open>
  The rest of the data of \<open>src/src/ext/rte_lpm.c\<close>: the configuration, the structures of the 2.0 interface, the
  limits, and the two declarations of the table entries, one for each byte order, whose bit fields
  are listed from the other end.
\<close>

section \<open>Bit fields\<close>

text \<open>
  Declared bit fields as pairs of a width and a value.  A compiler for a little-endian machine
  puts the first one into the lowest bits of the unit, one for a big-endian machine into the highest.
\<close>

fun pack_low :: "(nat \<times> nat) list \<Rightarrow> nat" where
  "pack_low [] = 0"
| "pack_low ((w, v) # fs) = v mod 2 ^ w + 2 ^ w * pack_low fs"

fun pack_high :: "(nat \<times> nat) list \<Rightarrow> nat" where
  "pack_high [] = 0"
| "pack_high ((w, v) # fs) = v mod 2 ^ w * 2 ^ sum_list (map fst fs) + pack_high fs"

lemma pack_low_append: "pack_low (fs @ gs) = pack_low fs + 2 ^ sum_list (map fst fs) * pack_low gs"
  by (induction fs rule: pack_low.induct) (simp_all add: algebra_simps power_add)

lemma pack_high_rev: "pack_high fs = pack_low (rev fs)"
  by (induction fs rule: pack_high.induct) (simp_all add: pack_low_append rev_map [symmetric] sum_list_rev)

fun unpack_low :: "nat list \<Rightarrow> nat \<Rightarrow> nat list" where
  "unpack_low [] n = []"
| "unpack_low (w # ws) n = n mod 2 ^ w # unpack_low ws (n div 2 ^ w)"

lemma unpack_pack_low: "unpack_low (map fst fs) (pack_low fs) = map (\<lambda>(w, v). v mod 2 ^ w) fs"
  by (induction fs rule: pack_low.induct) simp_all

text \<open>Bit \<open>i\<close> of the unit belongs to the first field or to a later one.\<close>

lemma bit_pack_low:
  "bit (pack_low ((w, v) # fs)) i = (if i < w then bit v i else bit (pack_low fs) (i - w))"
proof -
  have "take_bit w v AND push_bit w (pack_low fs) = 0" by (auto simp: bit_eq_iff bit_simps)
  then have "pack_low ((w, v) # fs) = take_bit w v OR push_bit w (pack_low fs)"
    by (subst disjunctive_add_eq_or [symmetric]) (simp_all add: take_bit_eq_mod push_bit_eq_mult mult.commute)
  then show ?thesis by (auto simp del: pack_low.simps simp: bit_simps)
qed

section \<open>The entries of the current tables\<close>

definition entry_fields_little :: "rte_lpm_tbl_entry \<Rightarrow> (nat \<times> nat) list" where
  "entry_fields_little e = [(24, unat (next_hop e)), (1, of_bool (valid e)), (1, of_bool (valid_group e)),
     (6, unat (depth e))]"

definition entry_fields_big :: "rte_lpm_tbl_entry \<Rightarrow> (nat \<times> nat) list" where
  "entry_fields_big e = [(6, unat (depth e)), (1, of_bool (valid_group e)), (1, of_bool (valid e)),
     (24, unat (next_hop e))]"

lemma entry_fields_reversed: "entry_fields_big e = rev (entry_fields_little e)"
  by (simp add: entry_fields_big_def entry_fields_little_def)

lemma bit_u_nat: "bit (unat w) i = bit w i" for w :: "'a :: len word"
  by (simp add: bit_unsigned_iff)

lemma entry_word_packed: "entry_word e = of_nat (pack_low (entry_fields_little e))"
proof (rule bit_word_eqI)
  fix i assume "i < LENGTH(32)"
  then show "bit (entry_word e) i = bit (of_nat (pack_low (entry_fields_little e)) :: u32) i"
    unfolding entry_fields_little_def bit_of_nat_iff entry_word_bits bit_pack_low bit_u_nat
    by (auto simp: bit_simps bit_u_nat dest: bit_imp_le_length)
qed

text \<open>
  The two declarations of a table entry, for little-endian and for big-endian machines, give the
  same 32-bit word, so the masks of the lookups select the same fields on both.
\<close>

theorem entry_layouts_agree:
  "of_nat (pack_low (entry_fields_little e)) = entry_word e \<and>
   of_nat (pack_high (entry_fields_big e)) = entry_word e"
  by (simp add: entry_word_packed pack_high_rev entry_fields_reversed)

section \<open>The structures of the 2.0 interface\<close>

text \<open>\<open>next_hop\<close> and \<open>group_idx\<close> are the two names of a union's byte.\<close>

record rte_lpm_tbl_entry_v20 =
  v20_next_hop :: u8
  v20_valid :: bool
  v20_valid_group :: bool
  v20_depth :: "6 word"

definition v20_group_idx :: "rte_lpm_tbl_entry_v20 \<Rightarrow> u8" where
  "v20_group_idx e = v20_next_hop e"

definition v20_flags_little :: "rte_lpm_tbl_entry_v20 \<Rightarrow> (nat \<times> nat) list" where
  "v20_flags_little e = [(1, of_bool (v20_valid e)), (1, of_bool (v20_valid_group e)), (6, unat (v20_depth e))]"

definition v20_flags_big :: "rte_lpm_tbl_entry_v20 \<Rightarrow> (nat \<times> nat) list" where
  "v20_flags_big e = [(6, unat (v20_depth e)), (1, of_bool (v20_valid_group e)), (1, of_bool (v20_valid e))]"

text \<open>The two bytes of an entry, the one of the lower address first, and a 16-bit load of them.\<close>

definition v20_bytes_little :: "rte_lpm_tbl_entry_v20 \<Rightarrow> u8 \<times> u8" where
  "v20_bytes_little e = (v20_group_idx e, of_nat (pack_low (v20_flags_little e)))"

definition v20_bytes_big :: "rte_lpm_tbl_entry_v20 \<Rightarrow> u8 \<times> u8" where
  "v20_bytes_big e = (of_nat (pack_high (v20_flags_big e)), v20_group_idx e)"

fun load16_little :: "u8 \<times> u8 \<Rightarrow> u16" where
  "load16_little (a, b) = ucast a OR push_bit 8 (ucast b)"

fun load16_big :: "u8 \<times> u8 \<Rightarrow> u16" where
  "load16_big (a, b) = push_bit 8 (ucast a) OR ucast b"

definition v20_word_entry :: "u16 \<Rightarrow> rte_lpm_tbl_entry_v20" where
  "v20_word_entry w = \<lparr>v20_next_hop = ucast w, v20_valid = bit w 8, v20_valid_group = bit w 9,
     v20_depth = ucast (drop_bit 10 w)\<rparr>"

record rte_lpm_rule_v20 =
  v20_rule_ip :: u32
  v20_rule_next_hop :: u8

record rte_lpm_v20 =
  v20_name :: string
  v20_max_rules :: u32
  v20_rule_info :: "rte_lpm_rule_info list"
  v20_tbl24 :: "nat \<Rightarrow> rte_lpm_tbl_entry_v20"
  v20_tbl8 :: "nat \<Rightarrow> rte_lpm_tbl_entry_v20"
  v20_rules_tbl :: "rte_lpm_rule_v20 list"

lemma v20_flags_reversed: "v20_flags_big e = rev (v20_flags_little e)"
  by (simp add: v20_flags_big_def v20_flags_little_def)

lemma v20_flag_bits:
  "bit (pack_low (v20_flags_little e)) i \<longleftrightarrow>
     i = 0 \<and> v20_valid e \<or> i = 1 \<and> v20_valid_group e \<or> 2 \<le> i \<and> bit (v20_depth e) (i - 2)"
  unfolding v20_flags_little_def bit_pack_low bit_u_nat
  by (auto simp: bit_simps bit_u_nat numeral_2_eq_2 dest: bit_imp_le_length)

text \<open>
  An entry of the 2.0 tables read as a 16-bit word is the same for both declarations, and the word
  gives back every field.
\<close>

theorem v20_layouts_agree:
  "load16_big (v20_bytes_big e) = load16_little (v20_bytes_little e) \<and>
   v20_word_entry (load16_little (v20_bytes_little e)) = e"
proof
  show "load16_big (v20_bytes_big e) = load16_little (v20_bytes_little e)"
    by (simp add: v20_bytes_big_def v20_bytes_little_def pack_high_rev v20_flags_reversed or.commute)
  have high: "\<not> bit (v20_next_hop e) n" if "8 \<le> n" for n
    using that by (auto dest: bit_imp_le_length)
  show "v20_word_entry (load16_little (v20_bytes_little e)) = e"
    unfolding v20_word_entry_def v20_bytes_little_def load16_little.simps v20_group_idx_def
    by (rule rte_lpm_tbl_entry_v20.equality)
      (auto simp: bit_simps v20_flag_bits high intro!: bit_word_eqI dest: bit_imp_le_length)
qed

section \<open>Configuration and limits\<close>

record rte_lpm_config =
  cfg_max_rules :: u32
  cfg_number_tbl8s :: u32
  cfg_flags :: "32 word"

definition RTE_LPM_NAMESIZE :: nat where "RTE_LPM_NAMESIZE = 32"
definition RTE_LPM_MAX_DEPTH :: nat where "RTE_LPM_MAX_DEPTH = 32"
definition RTE_LPM_MAX_TBL8_NUM_GROUPS :: nat where "RTE_LPM_MAX_TBL8_NUM_GROUPS = 2 ^ 24"
definition RTE_LPM_TBL8_NUM_GROUPS :: nat where "RTE_LPM_TBL8_NUM_GROUPS = 256"
definition RTE_LPM_TBL8_NUM_ENTRIES :: nat where
  "RTE_LPM_TBL8_NUM_ENTRIES = RTE_LPM_TBL8_NUM_GROUPS * unat RTE_LPM_TBL8_GROUP_NUM_ENTRIES"
definition RTE_LPM_MASKX4_RES :: u64 where "RTE_LPM_MASKX4_RES = 0x00ffffff00ffffff"

text \<open>
  The limits on the number of groups are those of the field that holds a group index: every group
  of the largest table has an index that fits, and the entries of all groups can be addressed,
  with 32 bits in the current tables and inside the fixed \<open>tbl8\<close> array in those of 2.0.
\<close>

theorem group_limits:
  "g < RTE_LPM_MAX_TBL8_NUM_GROUPS \<Longrightarrow>
     unat (next_hop (x\<lparr>next_hop := of_nat g\<rparr>)) = g \<and> g * 256 + 255 < 2 ^ 32"
  "g < RTE_LPM_TBL8_NUM_GROUPS \<Longrightarrow>
     unat (v20_group_idx (y\<lparr>v20_next_hop := of_nat g\<rparr>)) = g \<and> g * 256 + 255 < RTE_LPM_TBL8_NUM_ENTRIES"
  by (simp_all add: RTE_LPM_MAX_TBL8_NUM_GROUPS_def RTE_LPM_TBL8_NUM_GROUPS_def v20_group_idx_def
      RTE_LPM_TBL8_NUM_ENTRIES_def lpm_consts unsigned_of_nat take_bit_nat_eq_self)

text \<open>The mask of the four-fold lookup keeps the next hops of two entries side by side.\<close>

theorem maskx4_two_results:
  "(push_bit 32 (ucast (entry_word e)) OR ucast (entry_word f)) AND RTE_LPM_MASKX4_RES =
    (push_bit 32 (ucast (next_hop e)) OR ucast (next_hop f) :: u64)"
proof -
  have m: "RTE_LPM_MASKX4_RES = push_bit 32 (mask 24) OR mask 24"
    by (simp add: RTE_LPM_MASKX4_RES_def mask_eq_exp_minus_1 push_bit_eq_mult)
  show ?thesis unfolding m
    by (rule bit_word_eqI) (auto simp: bit_simps entry_word_bits dest: bit_imp_le_length)
qed

end
