(* ===== verification/Lcore.thy ===== *)
theory Lcore
  imports Dpdk_Prelude
begin

text \<open>
  Logical cores, \<open>src/src/ext/rte_lcore.c\<close>: the per-lcore configuration, the queries on it and the
  iteration over the enabled lcores.  The EAL configuration (\<open>rte_eal_get_configuration\<close>), the
  constant \<open>RTE_MAX_LCORE\<close> and the role \<open>ROLE_RTE\<close> come from headers outside the repository: they
  are fields of the environment, a parameter of every definition.

  The search for the next lcore is a loop that can fail to end when it wraps around, so it is a
  partial function: the value \<^const>\<open>None\<close> is a call that never returns.
\<close>

section \<open>The configuration\<close>

record lcore_config =
  detected :: u32
  thread_id :: u64
  pipe_master2slave :: "u32 \<times> u32"
  pipe_slave2master :: "u32 \<times> u32"
  lcore_f :: ptr
  lcore_arg :: ptr
  lcore_ret :: u32
  lcore_state :: u32
  socket_id :: u32
  core_id :: u32
  core_index :: u32
  cpuset :: "nat set"
  core_role :: u8

text \<open>The EAL configuration as far as the code reads it, and the per-thread lcore id.\<close>

record lcore_env =
  RTE_MAX_LCORE :: nat
  ROLE_RTE :: u32
  master_lcore :: u32
  lcore_count :: u32
  lcore_role :: "nat \<Rightarrow> u32"
  lcore_configs :: "lcore_config list"
  per_lcore_id :: u32

definition LCORE_ID_ANY :: u32 where "LCORE_ID_ANY = - 1"

definition rte_lcore_id :: "lcore_env \<Rightarrow> u32" where
  "rte_lcore_id env = per_lcore_id env"

definition rte_get_master_lcore :: "lcore_env \<Rightarrow> u32" where
  "rte_get_master_lcore env = master_lcore env"

definition rte_lcore_count :: "lcore_env \<Rightarrow> u32" where
  "rte_lcore_count env = lcore_count env"

text \<open>The argument of \<open>rte_lcore_index\<close> is an \<open>int\<close>: the comparisons are signed.\<close>

definition rte_lcore_index :: "lcore_env \<Rightarrow> u32 \<Rightarrow> u32 option" where
  "rte_lcore_index env lcore_id =
     (if int (RTE_MAX_LCORE env) \<le> sint lcore_id then Some (- 1)
      else let lcore_id = (if sint lcore_id < 0 then rte_lcore_id env else lcore_id)
           in if sint lcore_id < 0 then None
              else map_option core_index (arr_get (lcore_configs env) (unat lcore_id)))"

definition rte_lcore_to_socket_id :: "lcore_env \<Rightarrow> u32 \<Rightarrow> u32 option" where
  "rte_lcore_to_socket_id env lcore_id = map_option socket_id (arr_get (lcore_configs env) (unat lcore_id))"

definition rte_lcore_is_enabled :: "lcore_env \<Rightarrow> u32 \<Rightarrow> bool" where
  "rte_lcore_is_enabled env lcore_id =
     (if RTE_MAX_LCORE env \<le> unat lcore_id then False
      else lcore_role env (unat lcore_id) = ROLE_RTE env)"

section \<open>The next enabled lcore\<close>

text \<open>\<open>i++; if (wrap) i %= RTE_MAX_LCORE;\<close>\<close>

definition advance :: "lcore_env \<Rightarrow> bool \<Rightarrow> u32 \<Rightarrow> u32" where
  "advance env wrap i = (let i = i + 1 in if wrap then i mod of_nat (RTE_MAX_LCORE env) else i)"

partial_function (option) next_lcore_loop :: "lcore_env \<Rightarrow> bool \<Rightarrow> bool \<Rightarrow> u32 \<Rightarrow> u32 option" where
  "next_lcore_loop env skip_master wrap i =
     (if unat i < RTE_MAX_LCORE env then
        (if \<not> rte_lcore_is_enabled env i \<or> (skip_master \<and> i = rte_get_master_lcore env)
         then next_lcore_loop env skip_master wrap (advance env wrap i)
         else Some i)
      else Some i)"

definition rte_get_next_lcore :: "lcore_env \<Rightarrow> u32 \<Rightarrow> bool \<Rightarrow> bool \<Rightarrow> u32 option" where
  "rte_get_next_lcore env i skip_master wrap = next_lcore_loop env skip_master wrap (advance env wrap i)"

text \<open>The lcores that \<open>RTE_LCORE_FOREACH\<close> and \<open>RTE_LCORE_FOREACH_SLAVE\<close> run their body for.\<close>

partial_function (option) foreach_loop :: "lcore_env \<Rightarrow> bool \<Rightarrow> u32 \<Rightarrow> u32 list option" where
  "foreach_loop env skip_master i =
     (if unat i < RTE_MAX_LCORE env then do {
        nxt \<leftarrow> rte_get_next_lcore env i skip_master False;
        is \<leftarrow> foreach_loop env skip_master nxt;
        Some (i # is) }
      else Some [])"

definition rte_lcore_foreach :: "lcore_env \<Rightarrow> u32 list option" where
  "rte_lcore_foreach env = do { i \<leftarrow> rte_get_next_lcore env (- 1) False False; foreach_loop env False i }"

definition rte_lcore_foreach_slave :: "lcore_env \<Rightarrow> u32 list option" where
  "rte_lcore_foreach_slave env = do { i \<leftarrow> rte_get_next_lcore env (- 1) True False; foreach_loop env True i }"

section \<open>The specification of the search\<close>

text \<open>A real configuration has between 1 and \<open>2 ^ 31 - 1\<close> lcores.\<close>

definition sane :: "lcore_env \<Rightarrow> bool" where
  "sane env \<longleftrightarrow> 0 < RTE_MAX_LCORE env \<and> RTE_MAX_LCORE env < 2 ^ 31 \<and>
     length (lcore_configs env) = RTE_MAX_LCORE env"

definition eligible :: "lcore_env \<Rightarrow> bool \<Rightarrow> nat \<Rightarrow> bool" where
  "eligible env skip_master j \<longleftrightarrow> lcore_role env j = ROLE_RTE env \<and>
     \<not> (skip_master \<and> of_nat j = master_lcore env)"

text \<open>The first eligible lcore from \<open>j\<close> on, or \<open>RTE_MAX_LCORE\<close>.\<close>

definition first_from :: "lcore_env \<Rightarrow> bool \<Rightarrow> nat \<Rightarrow> nat" where
  "first_from env skip_master j =
     (case find (eligible env skip_master) [j..<RTE_MAX_LCORE env] of
        None \<Rightarrow> RTE_MAX_LCORE env | Some k \<Rightarrow> k)"

lemma unat_lcore: "sane env \<Longrightarrow> j \<le> RTE_MAX_LCORE env \<Longrightarrow> unat (of_nat j :: u32) = j"
  by (simp add: sane_def unsigned_of_nat take_bit_nat_def)

lemma loop_step:
  assumes "sane env" "j < RTE_MAX_LCORE env"
  shows "next_lcore_loop env skip wrap (of_nat j) =
    (if eligible env skip j then Some (of_nat j)
     else next_lcore_loop env skip wrap (advance env wrap (of_nat j)))"
  using assms unat_lcore [OF assms(1), of j]
  by (subst next_lcore_loop.simps) (auto simp: rte_lcore_is_enabled_def rte_get_master_lcore_def eligible_def)

lemma loop_stop: "RTE_MAX_LCORE env \<le> unat i \<Longrightarrow> next_lcore_loop env skip wrap i = Some i"
  by (subst next_lcore_loop.simps) simp

lemma advance_flat: "advance env False (of_nat j) = of_nat (Suc j)"
  by (simp add: advance_def add.commute)

lemma loop_first_from:
  assumes "sane env"
  shows "j \<le> RTE_MAX_LCORE env \<Longrightarrow>
    next_lcore_loop env skip False (of_nat j) = Some (of_nat (first_from env skip j))"
proof (induction "RTE_MAX_LCORE env - j" arbitrary: j)
  case 0
  then have "j = RTE_MAX_LCORE env" by simp
  with loop_stop [of env "of_nat j"] unat_lcore [OF assms, of j] show ?case
    by (simp add: first_from_def)
next
  case (Suc x)
  then have j: "j < RTE_MAX_LCORE env" by simp
  with Suc have "next_lcore_loop env skip False (of_nat (Suc j)) = Some (of_nat (first_from env skip (Suc j)))"
    by (intro Suc.hyps(1)) auto
  with j show ?case
    by (subst loop_step [OF assms j], unfold advance_flat) (simp add: first_from_def upt_conv_Cons)
qed

lemma first_from_props:
  "j \<le> RTE_MAX_LCORE env \<Longrightarrow> j \<le> first_from env skip j \<and> first_from env skip j \<le> RTE_MAX_LCORE env \<and>
   (first_from env skip j < RTE_MAX_LCORE env \<longrightarrow> eligible env skip (first_from env skip j)) \<and>
   filter (eligible env skip) [j..<RTE_MAX_LCORE env] =
     filter (eligible env skip) [first_from env skip j..<RTE_MAX_LCORE env]"
proof (induction "RTE_MAX_LCORE env - j" arbitrary: j)
  case 0
  then show ?case by (simp add: first_from_def)
next
  case (Suc x)
  then have j: "j < RTE_MAX_LCORE env" by simp
  show ?case
  proof (cases "eligible env skip j")
    case True
    then have "first_from env skip j = j" using j by (simp add: first_from_def upt_conv_Cons)
    with True j show ?thesis by simp
  next
    case False
    then have eq: "first_from env skip j = first_from env skip (Suc j)"
      using j by (simp add: first_from_def upt_conv_Cons)
    have "filter (eligible env skip) [j..<RTE_MAX_LCORE env] = filter (eligible env skip) [Suc j..<RTE_MAX_LCORE env]"
      using False j by (simp add: upt_conv_Cons)
    with eq Suc.hyps(1) [of "Suc j"] Suc.hyps(2) j show ?thesis by (simp add: Suc_le_eq less_imp_le)
  qed
qed

lemma advance_wrap:
  assumes "sane env" "j < RTE_MAX_LCORE env"
  shows "advance env True (of_nat j) = of_nat (Suc j mod RTE_MAX_LCORE env)"
proof -
  have "unat (of_nat (Suc j) :: u32) = Suc j" "unat (of_nat (RTE_MAX_LCORE env) :: u32) = RTE_MAX_LCORE env"
    using unat_lcore [OF assms(1) Suc_leI [OF assms(2)]] unat_lcore [OF assms(1) order_refl] .
  moreover have "unat (of_nat (Suc j mod RTE_MAX_LCORE env) :: u32) = Suc j mod RTE_MAX_LCORE env"
    using assms by (intro unat_lcore) (auto simp: sane_def intro: less_imp_le)
  moreover have "advance env True (of_nat j) = of_nat (Suc j) mod of_nat (RTE_MAX_LCORE env)"
    by (simp add: advance_def add.commute)
  ultimately show ?thesis by (simp only: word_unat_eq_iff unat_mod_distrib)
qed

lemma loop_wrap:
  assumes "sane env"
  shows "s < RTE_MAX_LCORE env \<Longrightarrow> eligible env skip ((s + k) mod RTE_MAX_LCORE env) \<Longrightarrow>
    (\<And>k'. k' < k \<Longrightarrow> \<not> eligible env skip ((s + k') mod RTE_MAX_LCORE env)) \<Longrightarrow>
    next_lcore_loop env skip True (of_nat s) = Some (of_nat ((s + k) mod RTE_MAX_LCORE env))"
proof (induction k arbitrary: s)
  case 0
  then show ?case by (simp add: loop_step [OF assms])
next
  case (Suc k)
  let ?s = "Suc s mod RTE_MAX_LCORE env"
  have shift: "(?s + k') mod RTE_MAX_LCORE env = (s + Suc k') mod RTE_MAX_LCORE env" for k'
    by (simp add: mod_simps)
  have "\<not> eligible env skip s" using Suc.prems(3) [of 0] Suc.prems(1) by simp
  moreover have "next_lcore_loop env skip True (of_nat ?s) = Some (of_nat ((?s + k) mod RTE_MAX_LCORE env))"
  proof (rule Suc.IH)
    show "?s < RTE_MAX_LCORE env" using Suc.prems(1) by (intro mod_less_divisor) simp
    show "eligible env skip ((?s + k) mod RTE_MAX_LCORE env)" using Suc.prems(2) unfolding shift .
    fix k' assume "k' < k"
    then show "\<not> eligible env skip ((?s + k') mod RTE_MAX_LCORE env)"
      using Suc.prems(3) [of "Suc k'"] unfolding shift by simp
  qed
  ultimately show ?case
    unfolding shift loop_step [OF assms Suc.prems(1)] advance_wrap [OF assms Suc.prems(1)] by simp
qed

text \<open>Without an eligible lcore the wrapping search goes round for ever.\<close>

lemma loop_wrap_diverges:
  assumes env: "sane env" and none: "\<forall>j<RTE_MAX_LCORE env. \<not> eligible env skip j"
  shows "unat i < RTE_MAX_LCORE env \<Longrightarrow> next_lcore_loop env skip True i = None"
proof -
  define P where "P = (\<lambda>e sk wr (i :: u32) (r :: u32). \<not> (e = env \<and> sk = skip \<and> wr \<and> unat i < RTE_MAX_LCORE env))"
  have "P env skip True i r" if "next_lcore_loop env skip True i = Some r" for r
  proof (rule next_lcore_loop.raw_induct [OF _ that])
    fix loop e sk wr i r
    assume IH: "\<And>e sk wr i r. loop e sk wr i = Some r \<Longrightarrow> P e sk wr i r"
      and body: "(if unat i < RTE_MAX_LCORE e then
          (if \<not> rte_lcore_is_enabled e i \<or> (sk \<and> i = rte_get_master_lcore e)
           then loop e sk wr (advance e wr i) else Some i) else Some i) = Some r"
    show "P e sk wr i r"
      unfolding P_def
    proof
      assume a: "e = env \<and> sk = skip \<and> wr \<and> unat i < RTE_MAX_LCORE env"
      with none have "\<not> eligible env skip (unat i)" by blast
      then have "\<not> rte_lcore_is_enabled env i \<or> (skip \<and> i = rte_get_master_lcore env)"
        by (auto simp: eligible_def rte_lcore_is_enabled_def rte_get_master_lcore_def)
      with body a have "loop env skip True (advance env True i) = Some r" by (auto split: if_splits)
      then have "P env skip True (advance env True i) r" by (rule IH)
      moreover have "advance env True i = of_nat (Suc (unat i) mod RTE_MAX_LCORE env)"
        using advance_wrap [OF env, of "unat i"] a by simp
      then have "unat (advance env True i) < RTE_MAX_LCORE env"
        using unat_lcore [OF env, of "Suc (unat i) mod RTE_MAX_LCORE env"] env
        by (simp add: sane_def less_imp_le)
      ultimately show False by (simp add: P_def)
    qed
  qed
  then show "unat i < RTE_MAX_LCORE env \<Longrightarrow> next_lcore_loop env skip True i = None"
    unfolding P_def by fastforce
qed

lemma foreach_loop_filter:
  assumes "sane env"
  shows "j \<le> RTE_MAX_LCORE env \<Longrightarrow> (j < RTE_MAX_LCORE env \<longrightarrow> eligible env skip j) \<Longrightarrow>
    foreach_loop env skip (of_nat j) = Some (map of_nat (filter (eligible env skip) [j..<RTE_MAX_LCORE env]))"
proof (induction "RTE_MAX_LCORE env - j" arbitrary: j rule: less_induct)
  case less
  show ?case
  proof (cases "j < RTE_MAX_LCORE env")
    case True
    let ?n = "first_from env skip (Suc j)"
    note props = first_from_props [of "Suc j" env skip]
    have nxt: "rte_get_next_lcore env (of_nat j) skip False = Some (of_nat ?n)"
      using loop_first_from [OF assms, of "Suc j"] True
      by (simp only: rte_get_next_lcore_def advance_flat Suc_leI)
    have "foreach_loop env skip (of_nat ?n) = Some (map of_nat (filter (eligible env skip) [?n..<RTE_MAX_LCORE env]))"
      using True props by (intro less.hyps) auto
    with nxt True less.prems props unat_lcore [OF assms, of j] show ?thesis
      by (subst foreach_loop.simps) (simp add: upt_conv_Cons)
  next
    case False
    with less.prems unat_lcore [OF assms, of j] show ?thesis by (subst foreach_loop.simps) simp
  qed
qed

section \<open>Properties\<close>

text \<open>
  Without wrapping, the next lcore of \<open>i\<close> (an lcore, or -1 to start) is the smallest enabled
  lcore above \<open>i\<close>, leaving out the master when asked to, and \<open>RTE_MAX_LCORE\<close> when there is none; the
  search always ends.
\<close>

theorem rte_get_next_lcore_flat:
  assumes "sane env" "unat (i + 1) \<le> RTE_MAX_LCORE env"
  shows "\<exists>r. rte_get_next_lcore env i skip False = Some (of_nat r) \<and> r \<le> RTE_MAX_LCORE env \<and>
    unat (i + 1) \<le> r \<and> (r < RTE_MAX_LCORE env \<longrightarrow> eligible env skip r) \<and>
    list_all (\<lambda>j. \<not> eligible env skip j) [unat (i + 1)..<r]"
proof -
  let ?s = "unat (i + 1)"
  let ?r = "first_from env skip ?s"
  have "rte_get_next_lcore env i skip False = Some (of_nat ?r)"
    using loop_first_from [OF assms, of skip] by (simp add: rte_get_next_lcore_def advance_def)
  moreover note props = first_from_props [OF assms(2), of skip]
  moreover from props have le: "?r \<le> RTE_MAX_LCORE env" by blast
  moreover from props have same: "filter (eligible env skip) [?s..<RTE_MAX_LCORE env] =
      filter (eligible env skip) [?r..<RTE_MAX_LCORE env]" by blast
  moreover have "\<not> eligible env skip j" if "?s \<le> j" "j < ?r" for j
  proof
    assume "eligible env skip j"
    with that le have "j \<in> set (filter (eligible env skip) [?s..<RTE_MAX_LCORE env])" by simp
    then show False using that unfolding same by simp
  qed
  ultimately show ?thesis by (intro exI [of _ ?r]) (auto simp: list_all_iff)
qed

text \<open>Four lcores, of which 0 (the master) and 2 are enabled.\<close>

definition blank_config :: lcore_config where
  "blank_config = \<lparr>detected = 1, thread_id = 0, pipe_master2slave = (0, 0), pipe_slave2master = (0, 0),
     lcore_f = 0, lcore_arg = 0, lcore_ret = 0, lcore_state = 0, socket_id = 0, core_id = 0,
     core_index = 0, cpuset = {}, core_role = 0\<rparr>"

definition demo_env :: lcore_env where
  "demo_env = \<lparr>RTE_MAX_LCORE = 4, ROLE_RTE = 0, master_lcore = 0, lcore_count = 2,
     lcore_role = (\<lambda>j. if j = 0 \<or> j = 2 then 0 else 1),
     lcore_configs = [blank_config, blank_config, blank_config\<lparr>core_index := 1\<rparr>, blank_config],
     per_lcore_id = LCORE_ID_ANY\<rparr>"

lemma demo_env_sane: "sane demo_env"
  by (simp add: demo_env_def sane_def)

theorem rte_get_next_lcore_flat_witness:
  "\<exists>r. rte_get_next_lcore demo_env 0 False False = Some (of_nat r) \<and> r \<le> 4 \<and> 1 \<le> r \<and>
    (r < 4 \<longrightarrow> eligible demo_env False r) \<and> list_all (\<lambda>j. \<not> eligible demo_env False j) [1..<r]"
  using rte_get_next_lcore_flat [OF demo_env_sane, of 0 False] by (simp add: demo_env_def)

text \<open>
  C30: With wrapping, the search returns the first eligible lcore after \<open>i\<close> in cyclic order, and it
  never returns (not even \<open>RTE_MAX_LCORE\<close>) when no lcore is eligible, for example when the master is
  skipped and no other lcore is enabled.
\<close>

theorem rte_get_next_lcore_wrap:
  assumes "sane env" "unat i < RTE_MAX_LCORE env"
  shows "rte_get_next_lcore env i skip True =
    (case find (eligible env skip) (map (\<lambda>k. (unat i + 1 + k) mod RTE_MAX_LCORE env) [0..<RTE_MAX_LCORE env]) of
       None \<Rightarrow> None | Some r \<Rightarrow> Some (of_nat r))"
proof -
  let ?N = "RTE_MAX_LCORE env"
  let ?s = "Suc (unat i) mod ?N"
  let ?at = "\<lambda>k. (unat i + 1 + k) mod ?N"
  have N: "0 < ?N" using assms(1) by (simp add: sane_def)
  have start: "rte_get_next_lcore env i skip True = next_lcore_loop env skip True (of_nat ?s)"
    using advance_wrap [OF assms] by (simp add: rte_get_next_lcore_def)
  have at: "(?s + k) mod ?N = ?at k" for k by (simp add: mod_simps)
  show ?thesis
  proof (cases "find (eligible env skip) (map ?at [0..<?N])")
    case None
    have "\<not> eligible env skip j" if "j < ?N" for j
    proof -
      have "?at ((j + ?N - ?s) mod ?N) = (?s + (j + ?N - ?s)) mod ?N" by (simp only: at mod_add_right_eq)
      also have "?s + (j + ?N - ?s) = j + ?N" using mod_less_divisor [OF N, of "Suc (unat i)"] by linarith
      also have "(j + ?N) mod ?N = j" using that by simp
      finally have "j \<in> set (map ?at [0..<?N])" using N by (auto intro!: image_eqI [where x = "(j + ?N - ?s) mod ?N"])
      with None show ?thesis by (auto simp: find_None_iff)
    qed
    then have "next_lcore_loop env skip True (of_nat ?s) = None"
      using loop_wrap_diverges [OF assms(1), of skip "of_nat ?s"] unat_lcore [OF assms(1), of ?s]
        mod_less_divisor [OF N, of "Suc (unat i)"] by simp
    with None start show ?thesis by simp
  next
    case (Some r)
    then obtain k where k: "k < ?N" "eligible env skip (?at k)" "r = ?at k"
      "\<And>k'. k' < k \<Longrightarrow> \<not> eligible env skip (?at k')"
      by (auto simp: find_Some_iff)
    have "next_lcore_loop env skip True (of_nat ?s) = Some (of_nat ((?s + k) mod ?N))"
      using k N by (intro loop_wrap [OF assms(1)]) (simp_all add: at)
    with Some start k(3) show ?thesis by (simp add: at)
  qed
qed

theorem rte_get_next_lcore_wrap_witness:
  "rte_get_next_lcore demo_env 2 False True = Some 0 \<and>
   rte_get_next_lcore (demo_env\<lparr>lcore_role := (\<lambda>j. if j = 0 then 0 else 1)\<rparr>) 0 True True = None"
proof
  show "rte_get_next_lcore demo_env 2 False True = Some 0"
    using rte_get_next_lcore_wrap [OF demo_env_sane, of 2 False]
    by (simp add: demo_env_def eligible_def upt_rec)
  have "sane (demo_env\<lparr>lcore_role := (\<lambda>j. if j = 0 then 0 else 1)\<rparr>)"
    by (simp add: demo_env_def sane_def)
  from rte_get_next_lcore_wrap [OF this, of 0 True]
  show "rte_get_next_lcore (demo_env\<lparr>lcore_role := (\<lambda>j. if j = 0 then 0 else 1)\<rparr>) 0 True True = None"
    by (simp add: demo_env_def eligible_def upt_rec)
qed

text \<open>
  C22: \<open>RTE_LCORE_FOREACH\<close> runs its body once for every enabled lcore, in increasing order, and
  \<open>RTE_LCORE_FOREACH_SLAVE\<close> for every one except the master; both end.
\<close>

theorem lcore_foreach_enumerates:
  assumes "sane env"
  shows "rte_lcore_foreach env =
      Some (map of_nat (filter (\<lambda>j. lcore_role env j = ROLE_RTE env) [0..<RTE_MAX_LCORE env])) \<and>
    rte_lcore_foreach_slave env =
      Some (map of_nat (filter (\<lambda>j. lcore_role env j = ROLE_RTE env \<and> of_nat j \<noteq> master_lcore env)
        [0..<RTE_MAX_LCORE env]))"
proof -
  have all: "do { i \<leftarrow> rte_get_next_lcore env (- 1) skip False; foreach_loop env skip i } =
      Some (map of_nat (filter (eligible env skip) [0..<RTE_MAX_LCORE env]))" for skip
  proof -
    have "rte_get_next_lcore env (- 1) skip False = Some (of_nat (first_from env skip 0))"
      using loop_first_from [OF assms, of 0 skip] by (simp add: rte_get_next_lcore_def advance_def)
    with foreach_loop_filter [OF assms, of "first_from env skip 0" skip] first_from_props [of 0 env skip]
    show ?thesis by simp
  qed
  have "eligible env False = (\<lambda>j. lcore_role env j = ROLE_RTE env)"
    "eligible env True = (\<lambda>j. lcore_role env j = ROLE_RTE env \<and> of_nat j \<noteq> master_lcore env)"
    by (auto simp: eligible_def)
  then show ?thesis unfolding rte_lcore_foreach_def rte_lcore_foreach_slave_def all by simp
qed

theorem lcore_foreach_enumerates_witness:
  "rte_lcore_foreach demo_env = Some [0, 2] \<and> rte_lcore_foreach_slave demo_env = Some [2]"
  using lcore_foreach_enumerates [OF demo_env_sane] by (simp add: demo_env_def upt_rec)

text \<open>
  \<open>rte_lcore_index\<close> returns the index of a valid lcore, -1 for an id of \<open>RTE_MAX_LCORE\<close> or more,
  and for a negative id the index of the calling lcore; in a thread that is not an EAL thread,
  where \<open>rte_lcore_id\<close> is \<open>LCORE_ID_ANY\<close>, a negative id makes it read before \<open>lcore_config\<close>.
\<close>

theorem rte_lcore_index_cases:
  assumes "sane env"
  shows "rte_lcore_index env lcore_id =
    (if int (RTE_MAX_LCORE env) \<le> sint lcore_id then Some (- 1)
     else if 0 \<le> sint lcore_id then Some (core_index (lcore_configs env ! unat lcore_id))
     else if rte_lcore_id env = LCORE_ID_ANY then None
     else if unat (rte_lcore_id env) < RTE_MAX_LCORE env
       then Some (core_index (lcore_configs env ! unat (rte_lcore_id env)))
     else None)"
proof -
  have len: "length (lcore_configs env) = RTE_MAX_LCORE env" using assms by (simp add: sane_def)
  have "sint w < 0 \<Longrightarrow> \<not> unat w < RTE_MAX_LCORE env" for w :: u32
  proof
    assume neg: "sint w < 0" and "unat w < RTE_MAX_LCORE env"
    then have "sint w = int (unat w)" using assms by (intro sint_small) (simp add: sane_def)
    with neg show False by simp
  qed
  note own = this [of "rte_lcore_id env"]
  have any: "sint LCORE_ID_ANY < 0" by (simp add: LCORE_ID_ANY_def)
  show ?thesis
  proof (cases "0 \<le> sint lcore_id")
    case True
    have "int (RTE_MAX_LCORE env) \<le> sint lcore_id \<longleftrightarrow> RTE_MAX_LCORE env \<le> unat lcore_id"
      unfolding sint_nonneg [OF True] by (rule of_nat_le_iff)
    with True len show ?thesis by (simp add: rte_lcore_index_def)
  next
    case False
    then have "\<not> int (RTE_MAX_LCORE env) \<le> sint lcore_id" by simp
    with False own any len show ?thesis by (auto simp: rte_lcore_index_def Let_def arr_get_def)
  qed
qed

theorem rte_lcore_index_cases_witness:
  "rte_lcore_index demo_env 2 = Some 1 \<and> rte_lcore_index demo_env 4 = Some (- 1) \<and>
   rte_lcore_index demo_env (- 1) = None"
  using rte_lcore_index_cases [OF demo_env_sane] by (simp add: demo_env_def rte_lcore_id_def)

end
