(* ===== verification/Ethdev.thy ===== *)
theory Ethdev
  imports Dpdk_Prelude
begin

text \<open>
  The data path of the Ethernet device layer, the inline functions of \<open>src/src/ext/rte_ethdev.c\<close>:
  receive and transmit bursts with their callback chains, transmit preparation, descriptor queries,
  and the transmit buffer.  The drivers, the callbacks and the port table are outside the
  repository: they are fields of the environment.  A driver function takes and returns the state
  \<open>'w\<close> of the world it acts on, and the packet array it may write to.  The value \<^const>\<open>None\<close> is a fault:
  a call through a NULL pointer or an access out of an array.
\<close>

section \<open>Devices\<close>

type_synonym 'w burst_fn = "ptr \<Rightarrow> ptr list \<Rightarrow> u16 \<Rightarrow> 'w \<Rightarrow> u16 \<times> ptr list \<times> 'w"
type_synonym 'w rx_callback_fn = "u16 \<Rightarrow> u16 \<Rightarrow> ptr list \<Rightarrow> u16 \<Rightarrow> u16 \<Rightarrow> ptr \<Rightarrow> 'w \<Rightarrow> u16 \<times> ptr list \<times> 'w"
type_synonym 'w tx_callback_fn = "u16 \<Rightarrow> u16 \<Rightarrow> ptr list \<Rightarrow> u16 \<Rightarrow> ptr \<Rightarrow> 'w \<Rightarrow> u16 \<times> ptr list \<times> 'w"

text \<open>A callback chain is the list of the functions with their parameters, in call order.\<close>

record 'w rte_eth_dev =
  rx_pkt_burst :: "'w burst_fn option"
  tx_pkt_burst :: "'w burst_fn option"
  tx_pkt_prepare :: "'w burst_fn option"
  rx_queues :: "ptr list"
  tx_queues :: "ptr list"
  nb_rx_queues :: u16
  nb_tx_queues :: u16
  post_rx_burst_cbs :: "('w rx_callback_fn \<times> ptr) list list"
  pre_tx_burst_cbs :: "('w tx_callback_fn \<times> ptr) list list"
  op_rx_queue_count :: "(u16 \<Rightarrow> 'w \<Rightarrow> int) option"
  op_rx_descriptor_done :: "(ptr \<Rightarrow> u16 \<Rightarrow> 'w \<Rightarrow> int) option"
  op_rx_descriptor_status :: "(ptr \<Rightarrow> u16 \<Rightarrow> 'w \<Rightarrow> int) option"
  op_tx_descriptor_status :: "(ptr \<Rightarrow> u16 \<Rightarrow> 'w \<Rightarrow> int) option"

text \<open>
  The device table, \<open>rte_eth_dev_is_valid_port\<close> and the compile-time switches
  \<open>RTE_LIBRTE_ETHDEV_DEBUG\<close>, \<open>RTE_ETHDEV_RXTX_CALLBACKS\<close> and \<open>RTE_ETHDEV_TX_PREPARE_NOOP\<close>.
\<close>

record 'w eth_env =
  rte_eth_devices :: "'w rte_eth_dev list"
  is_valid_port :: "u16 \<Rightarrow> bool"
  ethdev_debug :: bool
  rxtx_callbacks :: bool
  tx_prepare_noop :: bool

section \<open>Receive\<close>

fun run_rx_callbacks :: "('w rx_callback_fn \<times> ptr) list \<Rightarrow> u16 \<Rightarrow> u16 \<Rightarrow> u16 \<Rightarrow>
    u16 \<times> ptr list \<times> 'w \<Rightarrow> u16 \<times> ptr list \<times> 'w" where
  "run_rx_callbacks [] port_id queue_id nb_pkts res = res"
| "run_rx_callbacks ((fn, param) # cbs) port_id queue_id nb_pkts (nb_rx, rx_pkts, w) =
     run_rx_callbacks cbs port_id queue_id nb_pkts (fn port_id queue_id rx_pkts nb_rx nb_pkts param w)"

text \<open>
  \<open>nb_rx\<close> is an \<open>int16_t\<close> between two \<open>uint16_t\<close> values: the conversions do not change the word.
\<close>

definition rte_eth_rx_burst :: "'w eth_env \<Rightarrow> u16 \<Rightarrow> u16 \<Rightarrow> ptr list \<Rightarrow> u16 \<Rightarrow> 'w \<Rightarrow>
    (u16 \<times> ptr list \<times> 'w) option" where
  "rte_eth_rx_burst env port_id queue_id rx_pkts nb_pkts w =
     (if ethdev_debug env \<and> \<not> is_valid_port env port_id then Some (0, rx_pkts, w)
      else do {
        dev \<leftarrow> arr_get (rte_eth_devices env) (unat port_id);
        if ethdev_debug env \<and> (rx_pkt_burst dev = None \<or> nb_rx_queues dev \<le> queue_id)
        then Some (0, rx_pkts, w)
        else do {
          rx \<leftarrow> rx_pkt_burst dev;
          q \<leftarrow> arr_get (rx_queues dev) (unat queue_id);
          let res = rx q rx_pkts nb_pkts w;
          if rxtx_callbacks env then do {
            cbs \<leftarrow> arr_get (post_rx_burst_cbs dev) (unat queue_id);
            Some (run_rx_callbacks cbs port_id queue_id nb_pkts res) }
          else Some res } })"

section \<open>Descriptor queries\<close>

definition rte_eth_rx_queue_count :: "'w eth_env \<Rightarrow> u16 \<Rightarrow> u16 \<Rightarrow> 'w \<Rightarrow> int option" where
  "rte_eth_rx_queue_count env port_id queue_id w =
     (if \<not> is_valid_port env port_id then Some (- EINVAL)
      else do {
        dev \<leftarrow> arr_get (rte_eth_devices env) (unat port_id);
        case op_rx_queue_count dev of
          None \<Rightarrow> Some (- ENOTSUP)
        | Some count \<Rightarrow> if nb_rx_queues dev \<le> queue_id then Some (- EINVAL) else Some (count queue_id w) })"

definition rte_eth_rx_descriptor_done :: "'w eth_env \<Rightarrow> u16 \<Rightarrow> u16 \<Rightarrow> u16 \<Rightarrow> 'w \<Rightarrow> int option" where
  "rte_eth_rx_descriptor_done env port_id queue_id offset w =
     (if \<not> is_valid_port env port_id then Some (- ENODEV)
      else do {
        dev \<leftarrow> arr_get (rte_eth_devices env) (unat port_id);
        case op_rx_descriptor_done dev of
          None \<Rightarrow> Some (- ENOTSUP)
        | Some dd \<Rightarrow> do { q \<leftarrow> arr_get (rx_queues dev) (unat queue_id); Some (dd q offset w) } })"

definition rte_eth_rx_descriptor_status :: "'w eth_env \<Rightarrow> u16 \<Rightarrow> u16 \<Rightarrow> u16 \<Rightarrow> 'w \<Rightarrow> int option" where
  "rte_eth_rx_descriptor_status env port_id queue_id offset w =
     (if ethdev_debug env \<and> \<not> is_valid_port env port_id then Some (- ENODEV)
      else do {
        dev \<leftarrow> arr_get (rte_eth_devices env) (unat port_id);
        if ethdev_debug env \<and> nb_rx_queues dev \<le> queue_id then Some (- ENODEV)
        else case op_rx_descriptor_status dev of
          None \<Rightarrow> Some (- ENOTSUP)
        | Some status \<Rightarrow> do {
            rxq \<leftarrow> arr_get (rx_queues dev) (unat queue_id); Some (status rxq offset w) } })"

definition rte_eth_tx_descriptor_status :: "'w eth_env \<Rightarrow> u16 \<Rightarrow> u16 \<Rightarrow> u16 \<Rightarrow> 'w \<Rightarrow> int option" where
  "rte_eth_tx_descriptor_status env port_id queue_id offset w =
     (if ethdev_debug env \<and> \<not> is_valid_port env port_id then Some (- ENODEV)
      else do {
        dev \<leftarrow> arr_get (rte_eth_devices env) (unat port_id);
        if ethdev_debug env \<and> nb_tx_queues dev \<le> queue_id then Some (- ENODEV)
        else case op_tx_descriptor_status dev of
          None \<Rightarrow> Some (- ENOTSUP)
        | Some status \<Rightarrow> do {
            txq \<leftarrow> arr_get (tx_queues dev) (unat queue_id); Some (status txq offset w) } })"

section \<open>Transmit\<close>

fun run_tx_callbacks :: "('w tx_callback_fn \<times> ptr) list \<Rightarrow> u16 \<Rightarrow> u16 \<Rightarrow>
    u16 \<times> ptr list \<times> 'w \<Rightarrow> u16 \<times> ptr list \<times> 'w" where
  "run_tx_callbacks [] port_id queue_id res = res"
| "run_tx_callbacks ((fn, param) # cbs) port_id queue_id (nb_pkts, tx_pkts, w) =
     run_tx_callbacks cbs port_id queue_id (fn port_id queue_id tx_pkts nb_pkts param w)"

definition rte_eth_tx_burst :: "'w eth_env \<Rightarrow> u16 \<Rightarrow> u16 \<Rightarrow> ptr list \<Rightarrow> u16 \<Rightarrow> 'w \<Rightarrow>
    (u16 \<times> ptr list \<times> 'w) option" where
  "rte_eth_tx_burst env port_id queue_id tx_pkts nb_pkts w =
     (if ethdev_debug env \<and> \<not> is_valid_port env port_id then Some (0, tx_pkts, w)
      else do {
        dev \<leftarrow> arr_get (rte_eth_devices env) (unat port_id);
        if ethdev_debug env \<and> (tx_pkt_burst dev = None \<or> nb_tx_queues dev \<le> queue_id)
        then Some (0, tx_pkts, w)
        else do {
          (nb_pkts, tx_pkts, w) \<leftarrow>
            (if rxtx_callbacks env then do {
               cbs \<leftarrow> arr_get (pre_tx_burst_cbs dev) (unat queue_id);
               Some (run_tx_callbacks cbs port_id queue_id (nb_pkts, tx_pkts, w)) }
             else Some (nb_pkts, tx_pkts, w));
          tx \<leftarrow> tx_pkt_burst dev;
          q \<leftarrow> arr_get (tx_queues dev) (unat queue_id);
          Some (tx q tx_pkts nb_pkts w) } })"

text \<open>The result of the preparation includes the value written to \<open>rte_errno\<close>, if any.\<close>

definition rte_eth_tx_prepare :: "'w eth_env \<Rightarrow> u16 \<Rightarrow> u16 \<Rightarrow> ptr list \<Rightarrow> u16 \<Rightarrow> 'w \<Rightarrow>
    (u16 \<times> ptr list \<times> 'w \<times> int option) option" where
  "rte_eth_tx_prepare env port_id queue_id tx_pkts nb_pkts w =
     (if tx_prepare_noop env then Some (nb_pkts, tx_pkts, w, None)
      else if ethdev_debug env \<and> \<not> is_valid_port env port_id then Some (0, tx_pkts, w, Some (- EINVAL))
      else do {
        dev \<leftarrow> arr_get (rte_eth_devices env) (unat port_id);
        if ethdev_debug env \<and> nb_tx_queues dev \<le> queue_id then Some (0, tx_pkts, w, Some (- EINVAL))
        else case tx_pkt_prepare dev of
          None \<Rightarrow> Some (nb_pkts, tx_pkts, w, None)
        | Some prepare \<Rightarrow> do {
            q \<leftarrow> arr_get (tx_queues dev) (unat queue_id);
            let (n, tx_pkts, w) = prepare q tx_pkts nb_pkts w;
            Some (n, tx_pkts, w, None) } })"

section \<open>The transmit buffer\<close>

record 'w rte_eth_dev_tx_buffer =
  error_callback :: "ptr list \<Rightarrow> u16 \<Rightarrow> ptr \<Rightarrow> 'w \<Rightarrow> 'w"
  error_userdata :: ptr
  buf_size :: u16
  buf_length :: u16
  pkts :: "ptr list"

definition rte_eth_tx_buffer_flush :: "'w eth_env \<Rightarrow> u16 \<Rightarrow> u16 \<Rightarrow> 'w rte_eth_dev_tx_buffer \<Rightarrow> 'w \<Rightarrow>
    (u16 \<times> 'w rte_eth_dev_tx_buffer \<times> 'w) option" where
  "rte_eth_tx_buffer_flush env port_id queue_id buffer w =
     (let to_send = buf_length buffer in
      if to_send = 0 then Some (0, buffer, w)
      else do {
        (sent, ps, w) \<leftarrow> rte_eth_tx_burst env port_id queue_id (pkts buffer) to_send w;
        let buffer = buffer\<lparr>pkts := ps, buf_length := 0\<rparr>;
        let w = (if sent \<noteq> to_send
                 then error_callback buffer (drop (unat sent) (pkts buffer)) (to_send - sent)
                        (error_userdata buffer) w
                 else w);
        Some (sent, buffer, w) })"

definition rte_eth_tx_buffer :: "'w eth_env \<Rightarrow> u16 \<Rightarrow> u16 \<Rightarrow> 'w rte_eth_dev_tx_buffer \<Rightarrow> ptr \<Rightarrow> 'w \<Rightarrow>
    (u16 \<times> 'w rte_eth_dev_tx_buffer \<times> 'w) option" where
  "rte_eth_tx_buffer env port_id queue_id buffer tx_pkt w = do {
     ps \<leftarrow> arr_set (pkts buffer) (unat (buf_length buffer)) tx_pkt;
     let buffer = buffer\<lparr>pkts := ps, buf_length := buf_length buffer + 1\<rparr>;
     if buf_length buffer < buf_size buffer then Some (0, buffer, w)
     else rte_eth_tx_buffer_flush env port_id queue_id buffer w }"

section \<open>Receive properties\<close>

text \<open>What a driver and a receive callback have to keep: counts within the array given to them.\<close>

definition rx_driver_ok :: "'w burst_fn \<Rightarrow> bool" where
  "rx_driver_ok rx \<longleftrightarrow> (\<forall>q ps n w. unat n \<le> length ps \<longrightarrow>
     (case rx q ps n w of (k, ps', w') \<Rightarrow> k \<le> n \<and> length ps' = length ps))"

definition rx_callback_ok :: "'w rx_callback_fn \<Rightarrow> bool" where
  "rx_callback_ok fn \<longleftrightarrow> (\<forall>p q ps n m param w. n \<le> m \<longrightarrow> unat m \<le> length ps \<longrightarrow>
     (case fn p q ps n m param w of (k, ps', w') \<Rightarrow> k \<le> m \<and> length ps' = length ps))"

text \<open>A configured port and queue, served by the driver \<open>rx\<close> and the callbacks \<open>cbs\<close>.\<close>

definition rx_ready :: "'w eth_env \<Rightarrow> u16 \<Rightarrow> u16 \<Rightarrow> 'w rte_eth_dev \<Rightarrow> 'w burst_fn \<Rightarrow> ('w rx_callback_fn \<times> ptr) list \<Rightarrow> bool" where
  "rx_ready env port_id queue_id dev rx cbs \<longleftrightarrow> is_valid_port env port_id \<and>
     arr_get (rte_eth_devices env) (unat port_id) = Some dev \<and> rx_pkt_burst dev = Some rx \<and>
     queue_id < nb_rx_queues dev \<and> unat queue_id < length (rx_queues dev) \<and>
     (if rxtx_callbacks env then arr_get (post_rx_burst_cbs dev) (unat queue_id) = Some cbs else cbs = [])"

text \<open>A result that keeps within the array.\<close>

definition keeps_room :: "u16 \<Rightarrow> nat \<Rightarrow> u16 \<times> ptr list \<times> 'w \<Rightarrow> bool" where
  "keeps_room nb_pkts len res \<longleftrightarrow> fst res \<le> nb_pkts \<and> length (fst (snd res)) = len"

text \<open>
  The chain of results that a burst goes through, from the driver's to the last callback's: each
  callback is called with the count, the array and the world of the result before it.
\<close>

definition rx_chain :: "('w rx_callback_fn \<times> ptr) list \<Rightarrow> u16 \<Rightarrow> u16 \<Rightarrow> u16 \<Rightarrow> (u16 \<times> ptr list \<times> 'w) list \<Rightarrow> bool" where
  "rx_chain cbs port_id queue_id nb_pkts rs \<longleftrightarrow> length rs = Suc (length cbs) \<and>
     (\<forall>i<length cbs. rs ! Suc i =
        fst (cbs ! i) port_id queue_id (fst (snd (rs ! i))) (fst (rs ! i)) nb_pkts (snd (cbs ! i)) (snd (snd (rs ! i))))"

lemma rx_chain_Nil: "rx_chain [] p q n rs \<longleftrightarrow> (\<exists>r. rs = [r])"
  by (cases rs) (auto simp: rx_chain_def)

lemma rx_chain_Cons:
  "rx_chain (cb # cbs) p q n (r # rs) \<longleftrightarrow> rx_chain cbs p q n rs \<and>
     rs ! 0 = fst cb p q (fst (snd r)) (fst r) n (snd cb) (snd (snd r))"
  by (auto simp: rx_chain_def nth_Cons less_Suc_eq_0_disj split: nat.splits)

lemma rx_callback_keeps_room:
  "rx_callback_ok fn \<Longrightarrow> keeps_room n (length ps) r \<Longrightarrow> unat n \<le> length ps \<Longrightarrow>
   keeps_room n (length ps) (fn p q (fst (snd r)) (fst r) n param (snd (snd r)))"
  unfolding rx_callback_ok_def keeps_room_def by (auto simp: case_prod_unfold)

lemma run_rx_callbacks_chain:
  assumes "list_all (\<lambda>(fn, _). rx_callback_ok fn) cbs" "keeps_room n len r" "unat n \<le> len"
  shows "\<exists>rs. rx_chain cbs p q n rs \<and> rs ! 0 = r \<and> last rs = run_rx_callbacks cbs p q n r \<and>
    list_all (keeps_room n len) rs"
  using assms
proof (induction cbs arbitrary: r)
  case Nil
  then show ?case by (intro exI [of _ "[r]"]) (cases r; simp add: rx_chain_Nil)
next
  case (Cons cb cbs)
  define r1 where "r1 = fst cb p q (fst (snd r)) (fst r) n (snd cb) (snd (snd r))"
  have r1: "keeps_room n len r1"
    using Cons.prems rx_callback_keeps_room [of "fst cb" n "fst (snd r)" r p q "snd cb"]
    by (auto simp: r1_def keeps_room_def case_prod_unfold)
  have cbs: "list_all (\<lambda>(fn, _). rx_callback_ok fn) cbs" using Cons.prems(1) by simp
  obtain rs where rs: "rx_chain cbs p q n rs" "rs ! 0 = r1" "last rs = run_rx_callbacks cbs p q n r1"
    "list_all (keeps_room n len) rs" using Cons.IH [OF cbs r1 Cons.prems(3)] by blast
  moreover have "rs \<noteq> []" using rs(1) by (auto simp: rx_chain_def)
  moreover have "run_rx_callbacks (cb # cbs) p q n r = run_rx_callbacks cbs p q n r1"
    by (cases cb; cases r) (simp add: r1_def)
  ultimately show ?case
    using Cons.prems by (intro exI [of _ "r # rs"]) (simp add: rx_chain_Cons r1_def)
qed

lemma rx_burst_ready:
  "rx_ready env p q dev rx cbs \<Longrightarrow> rte_eth_rx_burst env p q ps n w =
     Some (run_rx_callbacks cbs p q n (rx (rx_queues dev ! unat q) ps n w))"
  by (auto simp: rx_ready_def rte_eth_rx_burst_def arr_get_eq_Some Let_def split: if_splits)

text \<open>
  C32: A receive burst on a configured port and queue asks the driver for packets of the given queue, and hands them through the
  callbacks of that queue, every one once and from the first to the last: each is called with the
  count, the array and the world that the one before it (for the first, the driver) has left, with
  the caller's \<open>nb_pkts\<close> as the room in the array and with its own parameter, and the burst returns
  what the last one returns.  If the driver and the callbacks keep to their documented counts, each is
  called within its contract, no intermediate or final count exceeds \<open>nb_pkts\<close>, the array keeps its
  length throughout, and nothing faults.
\<close>

theorem rte_eth_rx_burst_bounded:
  assumes "rx_ready env p q dev rx cbs" "rx_driver_ok rx" "list_all (\<lambda>(fn, _). rx_callback_ok fn) cbs"
    and "unat nb_pkts \<le> length rx_pkts"
  shows "\<exists>rs. rte_eth_rx_burst env p q rx_pkts nb_pkts w = Some (last rs) \<and> length rs = Suc (length cbs) \<and>
    rs ! 0 = rx (rx_queues dev ! unat q) rx_pkts nb_pkts w \<and>
    (\<forall>i<length cbs. rs ! Suc i =
       fst (cbs ! i) p q (fst (snd (rs ! i))) (fst (rs ! i)) nb_pkts (snd (cbs ! i)) (snd (snd (rs ! i)))) \<and>
    (\<forall>(k, ps, w') \<in> set rs. k \<le> nb_pkts \<and> length ps = length rx_pkts)"
proof -
  let ?r = "rx (rx_queues dev ! unat q) rx_pkts nb_pkts w"
  have "keeps_room nb_pkts (length rx_pkts) ?r"
    using assms(2,4) by (auto simp: rx_driver_ok_def keeps_room_def case_prod_unfold)
  from run_rx_callbacks_chain [OF assms(3) this assms(4)] obtain rs where
    "rx_chain cbs p q nb_pkts rs" "rs ! 0 = ?r" "last rs = run_rx_callbacks cbs p q nb_pkts ?r"
    "list_all (keeps_room nb_pkts (length rx_pkts)) rs" by blast
  then show ?thesis
    using rx_burst_ready [OF assms(1), of rx_pkts nb_pkts w]
    by (intro exI [of _ rs]) (auto simp: rx_chain_def list_all_iff keeps_room_def)
qed

text \<open>
  A driver whose packets are named by their queue, a callback that appends its parameter as a packet
  when there is room, and one that takes the first packet away: the second queue delivers its packet, the
  first callback adds 7, the second leaves only that.
\<close>

definition queue_rx :: "unit burst_fn" where
  "queue_rx q ps n w = (if 0 < n then (1, ps[0 := q], w) else (0, ps, w))"

definition append_rx :: "unit rx_callback_fn" where
  "append_rx p q ps n m param w = (if n < m then (n + 1, ps[unat n := param], w) else (n, ps, w))"

definition drop_first_rx :: "unit rx_callback_fn" where
  "drop_first_rx p q ps n m param w = (if 0 < n then (n - 1, rotate1 ps, w) else (0, ps, w))"

definition rx_demo_dev :: "unit rte_eth_dev" where
  "rx_demo_dev = \<lparr>rx_pkt_burst = Some queue_rx, tx_pkt_burst = None, tx_pkt_prepare = None,
       rx_queues = [10, 20], tx_queues = [], nb_rx_queues = 2, nb_tx_queues = 0,
       post_rx_burst_cbs = [[], [(append_rx, 7), (drop_first_rx, 0)]], pre_tx_burst_cbs = [],
       op_rx_queue_count = None, op_rx_descriptor_done = None, op_rx_descriptor_status = None,
       op_tx_descriptor_status = None\<rparr>"

definition rx_demo :: "unit eth_env" where
  "rx_demo = \<lparr>rte_eth_devices = [rx_demo_dev], is_valid_port = (\<lambda>p. p = 0), ethdev_debug = True,
     rxtx_callbacks = True, tx_prepare_noop = False\<rparr>"

lemma rx_demo_ready: "rx_ready rx_demo 0 1 rx_demo_dev queue_rx [(append_rx, 7), (drop_first_rx, 0)]"
  by (simp add: rx_ready_def rx_demo_def rx_demo_dev_def)

lemma rx_demo_ok: "rx_driver_ok queue_rx" "rx_callback_ok append_rx" "rx_callback_ok drop_first_rx"
proof -
  show "rx_driver_ok queue_rx" by (auto simp: rx_driver_ok_def queue_rx_def word_le_nat_alt word_less_nat_alt)
  show "rx_callback_ok append_rx" by (auto simp: rx_callback_ok_def append_rx_def inc_le)
  have "n - 1 \<le> m" if "n \<le> m" "0 < n" for n m :: u16
    using that by (simp add: word_le_nat_alt word_less_nat_alt unat_sub_if_size)
  then show "rx_callback_ok drop_first_rx" by (auto simp: rx_callback_ok_def drop_first_rx_def)
qed

theorem rte_eth_rx_burst_bounded_witness:
  "rte_eth_rx_burst rx_demo 0 1 [1, 2] 2 () = Some (1, [7, 20], ())"
proof -
  have "list_all (\<lambda>(fn, _). rx_callback_ok fn) [(append_rx, 7), (drop_first_rx, 0)]" by (simp add: rx_demo_ok)
  from rte_eth_rx_burst_bounded [OF rx_demo_ready rx_demo_ok(1) this, of 2 "[1, 2]" "()"]
  obtain rs where rs: "rte_eth_rx_burst rx_demo 0 1 [1, 2] 2 () = Some (last rs)" "length rs = 3"
    "rs ! 0 = queue_rx 20 [1, 2] 2 ()"
    "rs ! 1 = append_rx 0 1 (fst (snd (rs ! 0))) (fst (rs ! 0)) 2 7 ()"
    "rs ! 2 = drop_first_rx 0 1 (fst (snd (rs ! 1))) (fst (rs ! 1)) 2 0 ()"
    by (auto simp: rx_demo_dev_def All_less_Suc2 numeral_2_eq_2)
  have "rs ! 0 = (1, [20, 2], ())" using rs(3) by (simp add: queue_rx_def)
  then have "rs ! 1 = (2, [20, 7], ())" using rs(4) by (simp add: append_rx_def)
  then have "rs ! 2 = (1, [7, 20], ())" using rs(5) by (simp add: drop_first_rx_def)
  moreover have "last rs = rs ! 2" using rs(2) by (subst last_conv_nth) auto
  ultimately show ?thesis using rs(1) by simp
qed

section \<open>Error codes\<close>

text \<open>
  The queries report an invalid port and an unsupported operation as documented, before they
  touch the queue; \<open>rte_eth_rx_queue_count\<close> also checks the queue, and the status functions check
  port and queue only when compiled with debugging.
\<close>

theorem ethdev_query_errors:
  shows "(\<not> is_valid_port env p \<longrightarrow>
      rte_eth_rx_queue_count env p q w = Some (- EINVAL) \<and>
      rte_eth_rx_descriptor_done env p q off w = Some (- ENODEV) \<and>
      (ethdev_debug env \<longrightarrow> rte_eth_rx_descriptor_status env p q off w = Some (- ENODEV) \<and>
         rte_eth_tx_descriptor_status env p q off w = Some (- ENODEV))) \<and>
    (is_valid_port env p \<and> arr_get (rte_eth_devices env) (unat p) = Some dev \<longrightarrow>
      (op_rx_queue_count dev = None \<longrightarrow> rte_eth_rx_queue_count env p q w = Some (- ENOTSUP)) \<and>
      (op_rx_queue_count dev \<noteq> None \<and> nb_rx_queues dev \<le> q \<longrightarrow> rte_eth_rx_queue_count env p q w = Some (- EINVAL)) \<and>
      (op_rx_descriptor_done dev = None \<longrightarrow> rte_eth_rx_descriptor_done env p q off w = Some (- ENOTSUP)) \<and>
      (ethdev_debug env \<and> nb_rx_queues dev \<le> q \<longrightarrow> rte_eth_rx_descriptor_status env p q off w = Some (- ENODEV)) \<and>
      (ethdev_debug env \<and> nb_tx_queues dev \<le> q \<longrightarrow> rte_eth_tx_descriptor_status env p q off w = Some (- ENODEV)) \<and>
      (q < nb_rx_queues dev \<and> op_rx_descriptor_status dev = None \<longrightarrow>
         rte_eth_rx_descriptor_status env p q off w = Some (- ENOTSUP)) \<and>
      (q < nb_tx_queues dev \<and> op_tx_descriptor_status dev = None \<longrightarrow>
         rte_eth_tx_descriptor_status env p q off w = Some (- ENOTSUP)))"
  by (auto simp: rte_eth_rx_queue_count_def rte_eth_rx_descriptor_done_def
      rte_eth_rx_descriptor_status_def rte_eth_tx_descriptor_status_def)

theorem ethdev_query_errors_witness:
  "rte_eth_rx_queue_count rx_demo 5 0 () = Some (- EINVAL) \<and>
   rte_eth_rx_descriptor_done rx_demo 5 0 0 () = Some (- ENODEV) \<and>
   rte_eth_rx_queue_count rx_demo 0 0 () = Some (- ENOTSUP)"
  using ethdev_query_errors [of rx_demo 5 0 "()" 0] ethdev_query_errors [of rx_demo 0 0 "()" 0 "rte_eth_devices rx_demo ! 0"]
  by (simp add: rx_demo_def rx_demo_dev_def)

end
