(* ===== verification/Ethdev_Tx.thy ===== *)
theory Ethdev_Tx
  imports Ethdev Ring_Queue "HOL-Library.Multiset"
begin

text \<open>
  What the transmit buffer of \<^theory_text>\<open>Ethdev\<close> promises over any driver that keeps the documented contract
  of a transmit burst, the locale \<open>tx_device\<close>, behind any transmit callbacks that leave the packets of
  the burst in its array, the locale \<open>tx_path\<close>: every packet handed over is sent, given to the error
  callback or still pending, exactly once.  The locales are interpreted for a device whose transmit
  queue is a ring of \<^theory_text>\<open>Ring\<close>.  A callback that consumes packets breaks the promise: an example shows a
  packet that is sent and then given to the error callback.
\<close>

section \<open>The contract of a driver, an error callback and the transmit callbacks\<close>

text \<open>
  \<open>ok\<close> is the driver's own invariant, \<open>sent\<close> the packets it has taken so far and \<open>dropped\<close> the
  packets given to the error callback.
\<close>

locale tx_device =
  fixes tx :: "'w burst_fn" and cb :: "ptr list \<Rightarrow> u16 \<Rightarrow> ptr \<Rightarrow> 'w \<Rightarrow> 'w"
    and ok :: "'w \<Rightarrow> bool" and sent dropped :: "'w \<Rightarrow> ptr list"
  assumes tx_takes_prefix: "ok w \<Longrightarrow> unat n \<le> length ps \<Longrightarrow> tx q ps n w = (k, ps', w') \<Longrightarrow>
      k \<le> n \<and> ps' = ps \<and> ok w' \<and> sent w' = sent w @ take (unat k) ps \<and> dropped w' = dropped w"
    and cb_drops: "ok w \<Longrightarrow> unat c \<le> length ps \<Longrightarrow>
      ok (cb ps c ud w) \<and> sent (cb ps c ud w) = sent w \<and> dropped (cb ps c ud w) = dropped w @ take (unat c) ps"

text \<open>The first \<open>n\<close> entries of an array are permuted, the others are as before.\<close>

definition permutes_prefix :: "nat \<Rightarrow> ptr list \<Rightarrow> ptr list \<Rightarrow> bool" where
  "permutes_prefix n ps ps' \<longleftrightarrow> length ps' = length ps \<and>
     mset (take n ps') = mset (take n ps) \<and> drop n ps' = drop n ps"

lemma permutes_prefix_refl [simp]: "permutes_prefix n ps ps"
  by (simp add: permutes_prefix_def)

lemma permutes_prefix_mono:
  assumes "permutes_prefix m ps ps'" "m \<le> n"
  shows "permutes_prefix n ps ps'"
proof -
  from assms(2) obtain d where n: "n = m + d" using le_Suc_ex by blast
  have "drop n ps' = drop d (drop m ps')" "drop n ps = drop d (drop m ps)" by (simp_all add: n add.commute)
  then show ?thesis using assms(1) unfolding permutes_prefix_def n take_add by simp
qed

lemma permutes_prefix_trans:
  "permutes_prefix n ps ps1 \<Longrightarrow> permutes_prefix m ps1 ps2 \<Longrightarrow> m \<le> n \<Longrightarrow> permutes_prefix n ps ps2"
  using permutes_prefix_mono [of m ps1 ps2 n] by (simp add: permutes_prefix_def)

text \<open>
  The callbacks may reorder the packets of the burst and hold some back, by a smaller count; they leave
  every packet in the array and do not act on the driver or on the error callback's packets.
\<close>

locale tx_path = tx_device +
  fixes cbs :: "('w tx_callback_fn \<times> ptr) list"
  assumes callback_permutes: "(fn, param) \<in> set cbs \<Longrightarrow> ok w \<Longrightarrow> unat n \<le> length ps \<Longrightarrow>
      fn p q ps n param w = (m, ps', w') \<Longrightarrow>
      m \<le> n \<and> permutes_prefix (unat n) ps ps' \<and> ok w' \<and> sent w' = sent w \<and> dropped w' = dropped w"

text \<open>A configured port and queue, served by the driver \<open>tx\<close> behind the callbacks \<open>cbs\<close>.\<close>

definition tx_ready :: "'w eth_env \<Rightarrow> u16 \<Rightarrow> u16 \<Rightarrow> 'w burst_fn \<Rightarrow> ('w tx_callback_fn \<times> ptr) list \<Rightarrow> bool" where
  "tx_ready env port_id queue_id tx cbs \<longleftrightarrow> is_valid_port env port_id \<and>
     (\<exists>dev. arr_get (rte_eth_devices env) (unat port_id) = Some dev \<and> tx_pkt_burst dev = Some tx \<and>
        queue_id < nb_tx_queues dev \<and> unat queue_id < length (tx_queues dev) \<and>
        (if rxtx_callbacks env then arr_get (pre_tx_burst_cbs dev) (unat queue_id) = Some cbs else cbs = []))"

definition pending :: "'w rte_eth_dev_tx_buffer \<Rightarrow> ptr list" where
  "pending b = take (unat (buf_length b)) (pkts b)"

text \<open>What \<open>rte_eth_tx_buffer_init\<close> sets up for a positive size, and the buffer operations keep.\<close>

definition buffer_ok :: "'w rte_eth_dev_tx_buffer \<Rightarrow> bool" where
  "buffer_ok b \<longleftrightarrow> buf_length b < buf_size b \<and> length (pkts b) = unat (buf_size b)"

lemma tx_burst_ready:
  "tx_ready env p q tx cbs \<Longrightarrow> \<exists>qp. \<forall>ps n w. rte_eth_tx_burst env p q ps n w =
     Some (case run_tx_callbacks cbs p q (n, ps, w) of (n, ps, w) \<Rightarrow> tx qp ps n w)"
  by (auto simp: tx_ready_def rte_eth_tx_burst_def arr_get_eq_Some Let_def split: if_splits prod.splits)

lemma length_pending: "buffer_ok b \<Longrightarrow> length (pending b) = unat (buf_length b)"
  by (simp add: buffer_ok_def pending_def word_less_nat_alt)

context tx_path
begin

lemma callbacks_permute:
  "set cs \<subseteq> set cbs \<Longrightarrow> ok w \<Longrightarrow> unat n \<le> length ps \<Longrightarrow> run_tx_callbacks cs p q (n, ps, w) = (m, ps', w') \<Longrightarrow>
   m \<le> n \<and> permutes_prefix (unat n) ps ps' \<and> ok w' \<and> sent w' = sent w \<and> dropped w' = dropped w"
proof (induction cs arbitrary: n ps w)
  case Nil
  then show ?case by simp
next
  case (Cons c cs)
  obtain fn param where c: "c = (fn, param)" by (cases c)
  obtain n1 ps1 w1 where step: "fn p q ps n param w = (n1, ps1, w1)" by (metis prod_cases3)
  have 1: "n1 \<le> n" "permutes_prefix (unat n) ps ps1" "ok w1" "sent w1 = sent w" "dropped w1 = dropped w"
    using callback_permutes [of fn param w n ps p q n1 ps1 w1] Cons.prems c step by auto
  have le: "unat n1 \<le> unat n" using 1(1) by (simp add: word_le_nat_alt)
  then have "unat n1 \<le> length ps1" using 1(2) Cons.prems(3) by (simp add: permutes_prefix_def)
  then have "m \<le> n1 \<and> permutes_prefix (unat n1) ps1 ps' \<and> ok w' \<and> sent w' = sent w1 \<and> dropped w' = dropped w1"
    using Cons.IH [of w1 n1 ps1] Cons.prems 1 c step by simp
  then show ?case using 1 le permutes_prefix_trans [OF 1(2)] by auto
qed

text \<open>
  A flush hands over the pending packets, reordered as the callbacks like: the driver takes some of them
  from the front and the error callback gets the others.
\<close>

lemma flush:
  assumes ready: "tx_ready env p q tx cbs" and cb: "error_callback b = cb" and w: "ok w"
    and len: "unat (buf_length b) \<le> length (pkts b)"
  shows "\<exists>k ps w' all. rte_eth_tx_buffer_flush env p q b w = Some (k, b\<lparr>pkts := ps, buf_length := 0\<rparr>, w') \<and>
    length ps = length (pkts b) \<and> mset all = mset (pending b) \<and> (cbs = [] \<longrightarrow> all = pending b) \<and>
    unat k \<le> length all \<and> ok w' \<and> sent w' = sent w @ take (unat k) all \<and> dropped w' = dropped w @ drop (unat k) all"
proof (cases "buf_length b = 0")
  case True
  then have "rte_eth_tx_buffer_flush env p q b w = Some (0, b\<lparr>pkts := pkts b, buf_length := 0\<rparr>, w)"
    by (cases b) (simp add: rte_eth_tx_buffer_flush_def)
  moreover from True have "pending b = []" by (simp add: pending_def)
  ultimately show ?thesis using w by (intro exI [of _ 0] exI [of _ "pkts b"] exI [of _ w] exI [of _ "[]"]) simp
next
  case False
  let ?n = "unat (buf_length b)"
  obtain qp where burst: "rte_eth_tx_burst env p q ps n w =
      Some (case run_tx_callbacks cbs p q (n, ps, w) of (n, ps, w) \<Rightarrow> tx qp ps n w)" for ps n w
    using tx_burst_ready [OF ready] by blast
  obtain m ps w1 where run: "run_tx_callbacks cbs p q (buf_length b, pkts b, w) = (m, ps, w1)" by (metis prod_cases3)
  note c = callbacks_permute [OF subset_refl w len run]
  have l: "length ps = length (pkts b)" "unat m \<le> ?n"
    using c by (simp_all add: permutes_prefix_def word_le_nat_alt)
  obtain k ps' w2 where tx: "tx qp ps m w1 = (k, ps', w2)" by (metis prod_cases3)
  have "ok w1" "unat m \<le> length ps" using c l len by simp_all
  note r = tx_takes_prefix [OF this tx]
  let ?c = "buf_length b - k"
  have k: "unat k \<le> ?n" "k \<le> buf_length b" using r l(2) c by (auto simp: word_le_nat_alt)
  then have uc: "unat ?c = ?n - unat k" by (simp add: unat_sub)
  define w' where "w' = (if k \<noteq> buf_length b then cb (drop (unat k) ps) ?c (error_userdata b) w2 else w2)"
  have flush: "rte_eth_tx_buffer_flush env p q b w = Some (k, b\<lparr>pkts := ps, buf_length := 0\<rparr>, w')"
    using False r cb by (simp add: rte_eth_tx_buffer_flush_def burst run tx w'_def)
  have "ok w' \<and> sent w' = sent w2 \<and> dropped w' = dropped w2 @ take (?n - unat k) (drop (unat k) ps)"
    using cb_drops [of w2 ?c "drop (unat k) ps" "error_userdata b"] r uc l len by (auto simp: w'_def)
  moreover have "cbs = [] \<longrightarrow> ps = pkts b" using run by auto
  ultimately show ?thesis
    using flush r c k l len
    by (intro exI [of _ k] exI [of _ ps] exI [of _ w'] exI [of _ "take ?n ps"])
      (auto simp: permutes_prefix_def pending_def drop_take min_def)
qed

lemma buffer_one:
  assumes ready: "tx_ready env p q tx cbs" and cb: "error_callback b = cb" and w: "ok w" and b: "buffer_ok b"
  shows "\<exists>k b' w' all. rte_eth_tx_buffer env p q b pkt w = Some (k, b', w') \<and>
    buffer_ok b' \<and> error_callback b' = cb \<and> ok w' \<and>
    mset all = mset (pending b @ [pkt]) \<and> (cbs = [] \<longrightarrow> all = pending b @ [pkt]) \<and>
    (if length (pending b) + 1 < unat (buf_size b) then k = 0 \<and> pending b' = pending b @ [pkt] \<and> w' = w
     else unat k \<le> length all \<and> pending b' = [] \<and>
       sent w' = sent w @ take (unat k) all \<and> dropped w' = dropped w @ drop (unat k) all)"
proof -
  let ?l = "unat (buf_length b)"
  have l: "?l < unat (buf_size b)" "?l < length (pkts b)" "length (pkts b) = unat (buf_size b)"
    using b by (simp_all add: buffer_ok_def word_less_nat_alt)
  define b1 where "b1 = b\<lparr>pkts := (pkts b)[?l := pkt], buf_length := buf_length b + 1\<rparr>"
  have "unat (buf_size b) < 2 ^ LENGTH(16)" by (rule unsigned_less)
  with l have len1: "unat (buf_length b1) = ?l + 1"
    using unat_add_small [of "buf_length b" 1] by (simp add: b1_def)
  have pend: "pending b1 = pending b @ [pkt]"
    using l len1 by (simp add: pending_def b1_def take_Suc_conv_app_nth)
  have fields: "buf_size b1 = buf_size b" "length (pkts b1) = length (pkts b)" "error_callback b1 = cb"
    using cb by (simp_all add: b1_def)
  have step: "rte_eth_tx_buffer env p q b pkt w =
      (if buf_length b1 < buf_size b1 then Some (0, b1, w) else rte_eth_tx_buffer_flush env p q b1 w)"
    using l by (simp add: rte_eth_tx_buffer_def b1_def)
  have plen: "length (pending b) = ?l" by (rule length_pending [OF b])
  show ?thesis
  proof (cases "?l + 1 < unat (buf_size b)")
    case True
    then have "buf_length b1 < buf_size b1" by (simp add: word_less_nat_alt len1 fields)
    with step pend fields w plen True l(3) show ?thesis
      by (intro exI [of _ 0] exI [of _ b1] exI [of _ w] exI [of _ "pending b @ [pkt]"]) (simp add: buffer_ok_def)
  next
    case False
    then have full: "\<not> buf_length b1 < buf_size b1" by (simp add: word_less_nat_alt len1 fields)
    have "?l + 1 \<le> length (pkts b1)" using l fields by simp
    then obtain k ps w' all where flush:
      "rte_eth_tx_buffer_flush env p q b1 w = Some (k, b1\<lparr>pkts := ps, buf_length := 0\<rparr>, w')"
      "length ps = length (pkts b1)" "mset all = mset (pending b1)" "cbs = [] \<longrightarrow> all = pending b1"
      "unat k \<le> length all" "ok w'" "sent w' = sent w @ take (unat k) all" "dropped w' = dropped w @ drop (unat k) all"
      using flush [OF ready fields(3) w] len1 by fastforce
    have "buf_size b \<noteq> 0" using l(1) by auto
    then have "buffer_ok (b1\<lparr>pkts := ps, buf_length := 0\<rparr>)" "pending (b1\<lparr>pkts := ps, buf_length := 0\<rparr>) = []"
      using l fields flush(2) by (simp_all add: buffer_ok_def pending_def word_gt_0)
    with flush full step pend fields plen False show ?thesis
      by (intro exI [of _ k] exI [of _ "b1\<lparr>pkts := ps, buf_length := 0\<rparr>"] exI [of _ w'] exI [of _ all]) simp
  qed
qed

end

section \<open>Any sequence of calls\<close>

text \<open>
  The calls of an application that transmits through a buffer: \<open>rte_eth_tx_buffer\<close> for a packet, and
  \<open>rte_eth_tx_buffer_flush\<close>, in any order; the results are the return values.
\<close>

datatype tx_op = Put ptr | Flush

primrec tx_op_call :: "'w eth_env \<Rightarrow> u16 \<Rightarrow> u16 \<Rightarrow> 'w rte_eth_dev_tx_buffer \<Rightarrow> tx_op \<Rightarrow> 'w \<Rightarrow>
    (u16 \<times> 'w rte_eth_dev_tx_buffer \<times> 'w) option" where
  "tx_op_call env p q b (Put pkt) w = rte_eth_tx_buffer env p q b pkt w"
| "tx_op_call env p q b Flush w = rte_eth_tx_buffer_flush env p q b w"

primrec tx_buffer_ops :: "'w eth_env \<Rightarrow> u16 \<Rightarrow> u16 \<Rightarrow> 'w rte_eth_dev_tx_buffer \<Rightarrow> tx_op list \<Rightarrow> 'w \<Rightarrow>
    (u16 list \<times> 'w rte_eth_dev_tx_buffer \<times> 'w) option" where
  "tx_buffer_ops env p q b [] w = Some ([], b, w)"
| "tx_buffer_ops env p q b (op # ops) w = do {
     (k, b, w) \<leftarrow> tx_op_call env p q b op w;
     (ks, b, w) \<leftarrow> tx_buffer_ops env p q b ops w;
     Some (k # ks, b, w) }"

text \<open>The packets that the calls hand to the buffer.\<close>

fun puts :: "tx_op list \<Rightarrow> ptr list" where
  "puts [] = []"
| "puts (Put pkt # ops) = pkt # puts ops"
| "puts (Flush # ops) = puts ops"

lemma puts_Cons: "puts (op # ops) = puts [op] @ puts ops"
  by (cases op) simp_all

lemma mset_take_drop: "mset (take n xs) + mset (drop n xs) = mset xs"
  by (metis append_take_drop_id mset_append)

context tx_path
begin

text \<open>One call conserves the packets: \<open>s\<close> of them are sent, \<open>d\<close> go to the error callback.\<close>

lemma op_conserves:
  assumes ready: "tx_ready env p q tx cbs" and cb: "error_callback b = cb" and w: "ok w" and b: "buffer_ok b"
  shows "\<exists>k b' w' s d. tx_op_call env p q b op w = Some (k, b', w') \<and>
    buffer_ok b' \<and> error_callback b' = cb \<and> ok w' \<and>
    sent w' = sent w @ s \<and> dropped w' = dropped w @ d \<and> unat k = length s \<and>
    mset s + mset d + mset (pending b') = mset (pending b) + mset (puts [op]) \<and> (op = Flush \<longrightarrow> pending b' = [])"
proof (cases op)
  case (Put pkt)
  from buffer_one [OF ready cb w b, of pkt] obtain k b' w' all where
    one: "rte_eth_tx_buffer env p q b pkt w = Some (k, b', w')" "buffer_ok b'" "error_callback b' = cb" "ok w'"
      "mset all = mset (pending b @ [pkt])"
      "if length (pending b) + 1 < unat (buf_size b) then k = 0 \<and> pending b' = pending b @ [pkt] \<and> w' = w
       else unat k \<le> length all \<and> pending b' = [] \<and>
         sent w' = sent w @ take (unat k) all \<and> dropped w' = dropped w @ drop (unat k) all" by blast
  show ?thesis
  proof (cases "length (pending b) + 1 < unat (buf_size b)")
    case True
    with one Put show ?thesis
      by (intro exI [of _ k] exI [of _ b'] exI [of _ w'] exI [of _ "[]"] exI [of _ "[]"]) simp
  next
    case False
    with one Put mset_take_drop [of "unat k" all] show ?thesis
      by (intro exI [of _ k] exI [of _ b'] exI [of _ w'] exI [of _ "take (unat k) all"] exI [of _ "drop (unat k) all"])
        simp
  qed
next
  case Flush
  have "unat (buf_length b) \<le> length (pkts b)" using b by (simp add: buffer_ok_def word_less_nat_alt)
  from flush [OF ready cb w this] obtain k ps w' all where
    flush: "rte_eth_tx_buffer_flush env p q b w = Some (k, b\<lparr>pkts := ps, buf_length := 0\<rparr>, w')"
      "length ps = length (pkts b)" "mset all = mset (pending b)" "unat k \<le> length all" "ok w'"
      "sent w' = sent w @ take (unat k) all" "dropped w' = dropped w @ drop (unat k) all" by blast
  have "buffer_ok (b\<lparr>pkts := ps, buf_length := 0\<rparr>)"
    using b flush(2) by (auto simp: buffer_ok_def word_less_nat_alt)
  with flush Flush cb mset_take_drop [of "unat k" all] show ?thesis
    by (intro exI [of _ k] exI [of _ "b\<lparr>pkts := ps, buf_length := 0\<rparr>"] exI [of _ w'] exI [of _ "take (unat k) all"]
        exI [of _ "drop (unat k) all"]) (simp add: pending_def)
qed

lemma ops_conserve:
  assumes ready: "tx_ready env p q tx cbs"
  shows "error_callback b = cb \<Longrightarrow> ok w \<Longrightarrow> buffer_ok b \<Longrightarrow>
    \<exists>ks b' w' s d. tx_buffer_ops env p q b ops w = Some (ks, b', w') \<and> buffer_ok b' \<and> ok w' \<and>
      length ks = length ops \<and> sent w' = sent w @ s \<and> dropped w' = dropped w @ d \<and>
      sum_list (map unat ks) = length s \<and>
      mset s + mset d + mset (pending b') = mset (pending b) + mset (puts ops) \<and>
      (ops \<noteq> [] \<and> last ops = Flush \<longrightarrow> pending b' = [])"
proof (induction ops arbitrary: b w)
  case Nil
  then show ?case by simp
next
  case (Cons op ops)
  from op_conserves [OF ready Cons.prems, of op] obtain k b1 w1 s1 d1 where
    one: "tx_op_call env p q b op w = Some (k, b1, w1)" "buffer_ok b1" "error_callback b1 = cb" "ok w1"
      "sent w1 = sent w @ s1" "dropped w1 = dropped w @ d1" "unat k = length s1"
      "mset s1 + mset d1 + mset (pending b1) = mset (pending b) + mset (puts [op])"
      "op = Flush \<longrightarrow> pending b1 = []" by blast
  from Cons.IH [OF one(3,4,2)] obtain ks b' w' s d where
    rest: "tx_buffer_ops env p q b1 ops w1 = Some (ks, b', w')" "buffer_ok b'" "ok w'" "length ks = length ops"
      "sent w' = sent w1 @ s" "dropped w' = dropped w1 @ d" "sum_list (map unat ks) = length s"
      "mset s + mset d + mset (pending b') = mset (pending b1) + mset (puts ops)"
      "ops \<noteq> [] \<and> last ops = Flush \<longrightarrow> pending b' = []" by blast
  have "mset (s1 @ s) + mset (d1 @ d) + mset (pending b') = mset s1 + mset d1 + (mset s + mset d + mset (pending b'))"
    by simp
  also have "\<dots> = mset (pending b) + mset (puts (op # ops))"
    unfolding rest(8) puts_Cons [of op ops] using one(8) by (simp add: add.assoc [symmetric])
  finally have "mset (s1 @ s) + mset (d1 @ d) + mset (pending b') = mset (pending b) + mset (puts (op # ops))" .
  moreover have "last (op # ops) = Flush \<longrightarrow> pending b' = []" using one(9) rest(1,9) by (cases ops) auto
  ultimately show ?case using one rest
    by (intro exI [of _ "k # ks"] exI [of _ b'] exI [of _ w'] exI [of _ "s1 @ s"] exI [of _ "d1 @ d"]) simp
qed

end

section \<open>A device on a ring\<close>

text \<open>The state of a device that transmits by putting packets on a ring, and the drop callback.\<close>

record ring_port =
  port_ring :: rte_ring
  port_dropped :: "ptr list"

definition ring_tx :: "ring_port burst_fn" where
  "ring_tx q ps n w =
     (case rte_ring_sp_enqueue_burst seq_sync (port_ring w) ps (ucast n) None of
        Some (r, k, _) \<Rightarrow> (ucast k, ps, w\<lparr>port_ring := r\<rparr>)
      | None \<Rightarrow> (0, ps, w))"

definition ring_drop :: "ptr list \<Rightarrow> u16 \<Rightarrow> ptr \<Rightarrow> ring_port \<Rightarrow> ring_port" where
  "ring_drop ps c ud w = w\<lparr>port_dropped := port_dropped w @ take (unat c) ps\<rparr>"

lemma unat_ucast_up: "unat (ucast (n :: u16) :: u32) = unat n"
  by (simp add: unsigned_ucast_eq take_bit_nat_eq_self less_trans [OF unsigned_less])

lemma unat_ucast_down: "unat k \<le> unat n \<Longrightarrow> unat (ucast (k :: u32) :: u16) = unat k" for n :: u16
proof -
  assume "unat k \<le> unat n"
  also have "unat n < 2 ^ LENGTH(16)" by (rule unsigned_less)
  finally show ?thesis by (simp add: unsigned_ucast_eq take_bit_nat_eq_self)
qed

lemma ring_tx_result:
  assumes ok: "quiet (port_ring w)" and n: "unat n \<le> length ps"
  defines "k \<equiv> enqueue_count RTE_RING_QUEUE_VARIABLE (port_ring w) (ucast n)"
  shows "ring_tx q ps n w = (ucast k, ps, w\<lparr>port_ring := after_enqueue (port_ring w) ps k\<rparr>)"
    and "unat k \<le> unat n" and "k \<le> rte_ring_free_count (port_ring w)"
proof -
  show "k \<le> rte_ring_free_count (port_ring w)" by (simp add: k_def enqueue_count_def granted_le)
  have "k \<le> ucast n" by (simp add: k_def enqueue_count_def granted_le)
  then show k: "unat k \<le> unat n" by (simp add: word_le_nat_alt unat_ucast_up)
  then have "unat k \<le> length ps" using n by simp
  then show "ring_tx q ps n w = (ucast k, ps, w\<lparr>port_ring := after_enqueue (port_ring w) ps k\<rparr>)"
    unfolding k_def using seq.do_enqueue [OF quietD(1) [OF ok]]
    by (simp add: ring_tx_def ring_api)
qed

interpretation ring_dev: tx_device ring_tx ring_drop "\<lambda>w. quiet (port_ring w)"
  "\<lambda>w. contents (port_ring w)" port_dropped
proof
  fix w :: ring_port and n :: u16 and ps ps' q k w'
  assume ok: "quiet (port_ring w)" and n: "unat n \<le> length ps" and tx: "ring_tx q ps n w = (k, ps', w')"
  let ?r = "port_ring w"
  let ?k = "enqueue_count RTE_RING_QUEUE_VARIABLE ?r (ucast n)"
  note res = ring_tx_result [OF ok n]
  from tx [unfolded res(1)] have eqs: "k = ucast ?k" "ps' = ps" "w' = w\<lparr>port_ring := after_enqueue ?r ps ?k\<rparr>"
    by auto
  have k: "unat k = unat ?k" unfolding eqs(1) by (rule unat_ucast_down [OF res(2)])
  have "quiet (after_enqueue ?r ps ?k)" using ok res(3) by (simp add: quiet_def after_enqueue_ok)
  moreover have "contents (after_enqueue ?r ps ?k) = contents ?r @ take (unat ?k) ps"
    using res(2) n by (intro after_enqueue_contents [OF quietD(1) [OF ok] res(3)]) simp
  ultimately show "k \<le> n \<and> ps' = ps \<and> quiet (port_ring w') \<and>
      contents (port_ring w') = contents (port_ring w) @ take (unat k) ps \<and> port_dropped w' = port_dropped w"
    using eqs k res(2) by (simp add: word_le_nat_alt)
qed (simp_all add: ring_drop_def)

text \<open>
  A callback that holds back the first packet of every burst, by moving it behind the others; one that
  reverses the burst.
\<close>

definition hold_tx :: "'w tx_callback_fn" where
  "hold_tx p q ps n param w =
     (if 0 < n \<and> unat n \<le> length ps then (n - 1, rotate1 (take (unat n) ps) @ drop (unat n) ps, w) else (n, ps, w))"

definition reverse_tx :: "'w tx_callback_fn" where
  "reverse_tx p q ps n param w = (n, rev (take (unat n) ps) @ drop (unat n) ps, w)"

lemma mset_rotate1: "mset (rotate1 xs) = mset xs"
  by (cases xs) simp_all

interpretation ring_path: tx_path ring_tx ring_drop "\<lambda>w. quiet (port_ring w)"
  "\<lambda>w. contents (port_ring w)" port_dropped "[(reverse_tx, 0), (hold_tx, 0)]"
proof
  fix fn :: "ring_port tx_callback_fn" and param w n ps p q m ps' w'
  assume fn: "(fn, param) \<in> set [(reverse_tx, 0), (hold_tx, 0)]" and ok: "quiet (port_ring w)"
    and n: "unat n \<le> length ps" and run: "fn p q ps n param w = (m, ps', w')"
  have dec: "n - 1 \<le> n" if "0 < n" using that by (simp add: word_le_nat_alt word_less_nat_alt unat_sub_if_size)
  from fn consider "fn = reverse_tx" | "fn = hold_tx" by auto
  then show "m \<le> n \<and> permutes_prefix (unat n) ps ps' \<and> quiet (port_ring w') \<and>
      contents (port_ring w') = contents (port_ring w) \<and> port_dropped w' = port_dropped w"
  proof cases
    case 1
    with run n ok show ?thesis by (auto simp: reverse_tx_def permutes_prefix_def)
  next
    case 2
    with run n ok dec show ?thesis
      by (auto simp: hold_tx_def permutes_prefix_def mset_rotate1 split: if_splits)
  qed
qed

section \<open>Properties\<close>

text \<open>
  Buffering a packet either keeps it behind the packets already pending, or, when that fills
  the buffer, flushes: of the pending packets and the new one, reordered by the transmit callbacks if
  there are any, the driver takes the first, their number is the return value, the error callback gets
  exactly the others, and the buffer is empty again.  The \<open>pkts\<close> array is never overrun.
\<close>

theorem rte_eth_tx_buffer_step:
  assumes "tx_path tx cb ok sent dropped cbs" "tx_ready env p q tx cbs"
    and "error_callback b = cb" "ok w" "buffer_ok b"
  shows "\<exists>k b' w' all. rte_eth_tx_buffer env p q b pkt w = Some (k, b', w') \<and>
    buffer_ok b' \<and> error_callback b' = cb \<and> ok w' \<and>
    mset all = mset (pending b @ [pkt]) \<and> (cbs = [] \<longrightarrow> all = pending b @ [pkt]) \<and>
    (if length (pending b) + 1 < unat (buf_size b) then k = 0 \<and> pending b' = pending b @ [pkt] \<and> w' = w
     else unat k \<le> length all \<and> pending b' = [] \<and>
       sent w' = sent w @ take (unat k) all \<and> dropped w' = dropped w @ drop (unat k) all)"
  using assms by (rule tx_path.buffer_one)

text \<open>A port on a ring with room for one more packet, and a buffer of two with one packet pending.\<close>

definition demo_dev :: "ring_port rte_eth_dev" where
  "demo_dev = \<lparr>rx_pkt_burst = None, tx_pkt_burst = Some ring_tx, tx_pkt_prepare = None, rx_queues = [],
     tx_queues = [0], nb_rx_queues = 0, nb_tx_queues = 1, post_rx_burst_cbs = [],
     pre_tx_burst_cbs = [[(reverse_tx, 0), (hold_tx, 0)]],
     op_rx_queue_count = None, op_rx_descriptor_done = None, op_rx_descriptor_status = None,
     op_tx_descriptor_status = None\<rparr>"

definition demo_eth :: "ring_port eth_env" where
  "demo_eth = \<lparr>rte_eth_devices = [demo_dev], is_valid_port = (\<lambda>p. p = 0), ethdev_debug = True,
     rxtx_callbacks = True, tx_prepare_noop = False\<rparr>"

definition demo_buffer :: "ring_port rte_eth_dev_tx_buffer" where
  "demo_buffer = \<lparr>error_callback = ring_drop, error_userdata = 0, buf_size = 2, buf_length = 1, pkts = [5, 0]\<rparr>"

definition demo_port :: ring_port where
  "demo_port = \<lparr>port_ring = \<lparr>ring_name = ''tx'', ring_flags = 0, memzone = 0, ring_size = 2, ring_mask = 1,
     ring_capacity = 1, prod = \<lparr>head = 7, tail = 7, single = 1\<rparr>, cons = \<lparr>head = 7, tail = 7, single = 1\<rparr>,
     ring_table = [0, 0]\<rparr>, port_dropped = []\<rparr>"

lemma demo_port_quiet: "quiet (port_ring demo_port)"
proof -
  have "ring_shape (port_ring demo_port)" by (auto simp: demo_port_def ring_shape_def intro: exI [of _ 1])
  then show ?thesis by (simp add: quiet_def ring_ok_def ring_entries_def) (simp add: demo_port_def)
qed

lemma demo_port_contents: "contents (port_ring demo_port) = []" "port_dropped demo_port = []"
  by (simp_all add: contents_def ring_entries_def demo_port_def)

lemma demo_eth_ready: "tx_ready demo_eth 0 0 ring_tx [(reverse_tx, 0), (hold_tx, 0)]"
  by (simp add: tx_ready_def demo_eth_def demo_dev_def)

lemma demo_buffer_ok: "buffer_ok demo_buffer" "pending demo_buffer = [5]" "error_callback demo_buffer = ring_drop"
  "unat (buf_size demo_buffer) = 2"
  by (simp_all add: buffer_ok_def pending_def demo_buffer_def)

theorem rte_eth_tx_buffer_step_witness:
  "\<exists>k b' w' all. rte_eth_tx_buffer demo_eth 0 0 demo_buffer 6 demo_port = Some (k, b', w') \<and>
    mset all = {#5, 6#} \<and> pending b' = [] \<and> contents (port_ring w') = take (unat k) all \<and>
    port_dropped w' = drop (unat k) all"
  using rte_eth_tx_buffer_step [OF ring_path.tx_path_axioms demo_eth_ready demo_buffer_ok(3)
      demo_port_quiet demo_buffer_ok(1), of 6]
  unfolding demo_buffer_ok demo_port_contents by (auto simp: add.commute)

text \<open>
  C10: Over any sequence of \<open>rte_eth_tx_buffer\<close> and \<open>rte_eth_tx_buffer_flush\<close> calls on a configured
  port and queue, from a buffer with room for a packet, no packet is lost or duplicated: the packets sent, the packets given to the error callback and the packets still
  pending are together exactly the packets that were pending before and the packets buffered, the
  return values, one per call, add up to the number of packets sent, nothing is pending after a
  flush, and no call faults.  This is under the contract of \<open>tx_path\<close>: the driver takes a prefix of
  the burst, the error callback takes what it is given, and the transmit callbacks of the queue, if
  there are any, may reorder the burst and hold packets back by returning a smaller count, but leave every
  packet in the array.  Under a transmit callback that consumes packets it is not true of the
  code (\<open>consumed_packets_reach_error_callback\<close>).
\<close>

theorem tx_buffer_conserves_packets:
  assumes "tx_path tx cb ok sent dropped cbs" "tx_ready env p q tx cbs"
    and "error_callback b = cb" "ok w" "buffer_ok b"
  shows "\<exists>ks b' w' s d. tx_buffer_ops env p q b ops w = Some (ks, b', w') \<and> buffer_ok b' \<and> ok w' \<and>
    length ks = length ops \<and> sent w' = sent w @ s \<and> dropped w' = dropped w @ d \<and>
    sum_list (map unat ks) = length s \<and>
    mset s + mset d + mset (pending b') = mset (pending b) + mset (puts ops) \<and>
    (ops \<noteq> [] \<and> last ops = Flush \<longrightarrow> pending b' = [])"
  by (rule tx_path.ops_conserve [OF assms])

theorem tx_buffer_conserves_packets_witness:
  "\<exists>ks b' w'. tx_buffer_ops demo_eth 0 0 demo_buffer [Flush, Put 6, Put 7, Put 8, Flush] demo_port = Some (ks, b', w') \<and>
    pending b' = [] \<and> mset (contents (port_ring w')) + mset (port_dropped w') = mset [5, 6, 7, 8]"
  using tx_buffer_conserves_packets [OF ring_path.tx_path_axioms demo_eth_ready demo_buffer_ok(3)
      demo_port_quiet demo_buffer_ok(1), of "[Flush, Put 6, Put 7, Put 8, Flush]"]
  unfolding demo_buffer_ok demo_port_contents by (fastforce simp: add.commute)

text \<open>
  A transmit callback that consumes the first packet of the burst, records it, moves the others
  down and returns their count, as the documentation of the callback allows.
\<close>

definition consume_tx :: "ring_port tx_callback_fn" where
  "consume_tx p q ps n param w =
     (if 0 < n then (n - 1, take (unat n - 1) (tl ps) @ drop (unat n - 1) ps, w\<lparr>port_dropped := port_dropped w @ [hd ps]\<rparr>)
      else (n, ps, w))"

definition consume_eth :: "ring_port eth_env" where
  "consume_eth = demo_eth\<lparr>rte_eth_devices := [demo_dev\<lparr>pre_tx_burst_cbs := [[(consume_tx, 0)]]\<rparr>]\<rparr>"

text \<open>
  The flush still counts the entry that the callback has vacated: packet 6, which the driver has taken, is
  given to the error callback too, which by default frees it.
\<close>

theorem consumed_packets_reach_error_callback:
  "\<exists>b w. rte_eth_tx_buffer consume_eth 0 0 demo_buffer 6 demo_port = Some (1, b, w) \<and>
     contents (port_ring w) = [6] \<and> port_dropped w = [5, 6]"
proof -
  let ?w = "demo_port\<lparr>port_dropped := [5]\<rparr>"
  have w: "quiet (port_ring ?w)" using demo_port_quiet by simp
  have count: "enqueue_count RTE_RING_QUEUE_VARIABLE (port_ring ?w) 1 = 1"
    by (simp add: enqueue_count_def granted_def demo_port_def rte_ring_free_count_def rte_ring_count_def)
  have tx: "ring_tx 0 [6, 6] 1 ?w = (1, [6, 6], ?w\<lparr>port_ring := after_enqueue (port_ring ?w) [6, 6] 1\<rparr>)"
    using ring_tx_result(1) [OF w, of 1 "[6, 6]"] count by simp
  have "contents (after_enqueue (port_ring ?w) [6, 6] 1) = [6]"
    using after_enqueue_contents [OF quietD(1) [OF w], of 1 "[6, 6]"] ring_tx_result(3) [OF w, of 1 "[6, 6]"] count
    by (simp add: demo_port_contents)
  then show ?thesis
    using tx by (simp add: rte_eth_tx_buffer_def rte_eth_tx_buffer_flush_def rte_eth_tx_burst_def consume_eth_def
        demo_eth_def demo_dev_def demo_buffer_def consume_tx_def ring_drop_def demo_port_contents Let_def)
qed

text \<open>
  A flush sends what it can and empties the buffer: the driver's count is returned, the sent
  packets are the first of the pending ones, as the callbacks have ordered them, and the error callback
  gets the others; with nothing pending it returns 0 and nothing is sent or dropped.
\<close>

theorem rte_eth_tx_buffer_flush_splits:
  assumes "tx_path tx cb ok sent dropped cbs" "tx_ready env p q tx cbs"
    and "error_callback b = cb" "ok w" "unat (buf_length b) \<le> length (pkts b)"
  shows "\<exists>k ps w' all. rte_eth_tx_buffer_flush env p q b w = Some (k, b\<lparr>pkts := ps, buf_length := 0\<rparr>, w') \<and>
    length ps = length (pkts b) \<and> mset all = mset (pending b) \<and> (cbs = [] \<longrightarrow> all = pending b) \<and>
    unat k \<le> length all \<and> ok w' \<and> sent w' = sent w @ take (unat k) all \<and> dropped w' = dropped w @ drop (unat k) all"
  using assms by (rule tx_path.flush)

theorem rte_eth_tx_buffer_flush_splits_witness:
  "\<exists>k b' w' all. rte_eth_tx_buffer_flush demo_eth 0 0 demo_buffer demo_port = Some (k, b', w') \<and>
    mset all = {#5#} \<and> contents (port_ring w') = take (unat k) all \<and> port_dropped w' = drop (unat k) all"
proof -
  have "unat (buf_length demo_buffer) \<le> length (pkts demo_buffer)" by (simp add: demo_buffer_def)
  from rte_eth_tx_buffer_flush_splits [OF ring_path.tx_path_axioms demo_eth_ready demo_buffer_ok(3)
      demo_port_quiet this]
  show ?thesis unfolding demo_buffer_ok demo_port_contents by fastforce
qed

end
