(* ===== verification/Ethdev_Ports.thy ===== *)
theory Ethdev_Ports
  imports Ethdev_Tx
begin

text \<open>
  The macros of \<open>src/src/ext/rte_ethdev.c\<close> that are not data-path functions: the iteration over the ports of an
  owner, the masks of flow types for receive-side scaling, and the combined offload flags.
\<close>

section \<open>Iterating over ports\<close>

definition RTE_ETH_DEV_NO_OWNER :: u64 where "RTE_ETH_DEV_NO_OWNER = 0"

text \<open>
  \<open>RTE_ETH_FOREACH_DEV_OWNED_BY\<close> with a loop body that updates a state; \<open>rte_eth_find_next_owned_by\<close>
  is in the library (parameter \<open>find_next\<close>, which returns a \<open>uint64_t\<close>), \<open>p\<close> is a \<open>uint16_t\<close> and
  \<open>max_ports\<close> is \<open>RTE_MAX_ETHPORTS\<close>.
\<close>

partial_function (option) foreach_dev_loop ::
    "(u16 \<Rightarrow> u64 \<Rightarrow> u64) \<Rightarrow> nat \<Rightarrow> (u16 \<Rightarrow> 's \<Rightarrow> 's) \<Rightarrow> u64 \<Rightarrow> u16 \<Rightarrow> 's \<Rightarrow> 's option" where
  "foreach_dev_loop find_next max_ports body owner p st =
     (if unat p < max_ports
      then foreach_dev_loop find_next max_ports body owner (ucast (find_next (p + 1) owner)) (body p st)
      else Some st)"

definition rte_eth_foreach_dev_owned_by ::
    "(u16 \<Rightarrow> u64 \<Rightarrow> u64) \<Rightarrow> nat \<Rightarrow> (u16 \<Rightarrow> 's \<Rightarrow> 's) \<Rightarrow> u64 \<Rightarrow> 's \<Rightarrow> 's option" where
  "rte_eth_foreach_dev_owned_by find_next max_ports body owner st =
     foreach_dev_loop find_next max_ports body owner (ucast (find_next 0 owner)) st"

definition rte_eth_foreach_dev ::
    "(u16 \<Rightarrow> u64 \<Rightarrow> u64) \<Rightarrow> nat \<Rightarrow> (u16 \<Rightarrow> 's \<Rightarrow> 's) \<Rightarrow> 's \<Rightarrow> 's option" where
  "rte_eth_foreach_dev find_next max_ports body st =
     rte_eth_foreach_dev_owned_by find_next max_ports body RTE_ETH_DEV_NO_OWNER st"

text \<open>
  What the documentation says of \<open>rte_eth_find_next_owned_by\<close>: the next port from \<open>port_id\<close> on that is
  valid and owned by the owner, \<open>RTE_MAX_ETHPORTS\<close> if there is none.
\<close>

definition next_owned :: "(nat \<Rightarrow> u64 \<Rightarrow> bool) \<Rightarrow> nat \<Rightarrow> nat \<Rightarrow> u64 \<Rightarrow> nat" where
  "next_owned owned max_ports q owner =
     (case filter (\<lambda>p. owned p owner) [q..<max_ports] of [] \<Rightarrow> max_ports | p # _ \<Rightarrow> p)"

lemma next_owned_le:
  assumes "q \<le> max_ports"
  shows "next_owned owned max_ports q owner \<le> max_ports"
proof (cases "filter (\<lambda>p. owned p owner) [q..<max_ports]")
  case (Cons p ps)
  then have "p \<in> set (filter (\<lambda>p. owned p owner) [q..<max_ports])" by (metis list.set_intros(1))
  then have "p < max_ports" by simp
  then show ?thesis using Cons by (simp add: next_owned_def)
qed (simp add: next_owned_def)

locale port_table =
  fixes find_next :: "u16 \<Rightarrow> u64 \<Rightarrow> u64" and max_ports :: nat and owned :: "nat \<Rightarrow> u64 \<Rightarrow> bool"
  assumes few: "max_ports < 2 ^ 16"
    and find_next: "unat q \<le> max_ports \<Longrightarrow> unat (find_next q owner) = next_owned owned max_ports (unat q) owner"
begin

lemma port_after:
  assumes "unat q \<le> max_ports"
  shows "unat (ucast (find_next q owner) :: u16) = next_owned owned max_ports (unat q) owner"
proof -
  have "unat (find_next q owner) < 2 ^ 16"
    using find_next [OF assms, of owner] next_owned_le [OF assms, of owned owner] few by linarith
  then show ?thesis using find_next [OF assms, of owner] by (simp add: unsigned_ucast_eq take_bit_nat_eq_self)
qed

lemma loop_visits:
  assumes "unat q \<le> max_ports" "p = ucast (find_next q owner)"
  shows "foreach_dev_loop find_next max_ports body owner p st =
    Some (fold (\<lambda>p. body (of_nat p)) (filter (\<lambda>p. owned p owner) [unat q..<max_ports]) st)"
  using assms
proof (induction "max_ports - unat q" arbitrary: p q st rule: less_induct)
  case less
  let ?ps = "filter (\<lambda>p. owned p owner) [unat q..<max_ports]"
  have p: "unat p = next_owned owned max_ports (unat q) owner" using port_after less.prems by simp
  show ?case
  proof (cases ?ps)
    case Nil
    then have "unat p = max_ports" using p by (simp add: next_owned_def)
    then show ?thesis using Nil by (subst foreach_dev_loop.simps) simp
  next
    case (Cons x xs)
    then have x: "unat p = x" "x \<in> set ?ps" using p by (simp_all add: next_owned_def)
    then have in_range: "unat q \<le> x" "x < max_ports" "owned x owner" by auto
    then have nx: "unat (p + 1) = Suc x" using few x(1) by (simp add: unat_word_ariths)
    have "[unat q..<max_ports] = [unat q..<x] @ x # [Suc x..<max_ports]"
      using in_range by (metis le_add_diff_inverse less_imp_le upt_add_eq_append upt_conv_Cons)
    moreover have "filter (\<lambda>p. owned p owner) [unat q..<x] = []"
    proof (rule ccontr)
      assume "filter (\<lambda>p. owned p owner) [unat q..<x] \<noteq> []"
      then obtain y ys where "filter (\<lambda>p. owned p owner) [unat q..<x] = y # ys" by (meson neq_Nil_conv)
      then have "y = x" "y \<in> set [unat q..<x]"
        using Cons calculation by (simp, metis filter_is_subset list.set_intros(1) subset_code(1))
      then show False by simp
    qed
    ultimately have xs: "xs = filter (\<lambda>p. owned p owner) [unat (p + 1)..<max_ports]"
      using Cons in_range(3) by (simp add: nx)
    have "p = of_nat x" using x(1) by auto
    moreover have "foreach_dev_loop find_next max_ports body owner (ucast (find_next (p + 1) owner)) (body p st) =
        Some (fold (\<lambda>p. body (of_nat p)) xs (body p st))"
      unfolding xs using in_range nx by (intro less.hyps) simp_all
    ultimately show ?thesis using Cons x(1) in_range by (subst foreach_dev_loop.simps) simp
  qed
qed

end

text \<open>
  C31: The iteration ends and runs its body once for every valid port of the owner, in increasing
  order, and for no other.
\<close>

theorem foreach_dev_visits:
  assumes "port_table find_next max_ports owned"
  shows "rte_eth_foreach_dev_owned_by find_next max_ports body owner st =
      Some (fold (\<lambda>p. body (of_nat p)) (filter (\<lambda>p. owned p owner) [0..<max_ports]) st) \<and>
    rte_eth_foreach_dev find_next max_ports body st =
      Some (fold (\<lambda>p. body (of_nat p)) (filter (\<lambda>p. owned p RTE_ETH_DEV_NO_OWNER) [0..<max_ports]) st)"
  unfolding rte_eth_foreach_dev_def rte_eth_foreach_dev_owned_by_def
  by (intro conjI) (subst port_table.loop_visits [OF assms _ refl]; simp)+

text \<open>A table of four ports of which 1 and 3 are valid and have no owner.\<close>

definition demo_find_next :: "u16 \<Rightarrow> u64 \<Rightarrow> u64" where
  "demo_find_next q owner = of_nat (next_owned (\<lambda>p owner. owner = 0 \<and> odd p) 4 (unat q) owner)"

interpretation demo_ports: port_table demo_find_next 4 "\<lambda>p owner. owner = 0 \<and> odd p"
proof
  fix q :: u16 and owner :: u64
  assume "unat q \<le> 4"
  then have "next_owned (\<lambda>p owner. owner = 0 \<and> odd p) 4 (unat q) owner \<le> 4"
    by (rule next_owned_le)
  then show "unat (demo_find_next q owner) = next_owned (\<lambda>p owner. owner = 0 \<and> odd p) 4 (unat q) owner"
    by (simp add: demo_find_next_def unsigned_of_nat take_bit_nat_eq_self)
qed simp

theorem foreach_dev_visits_witness:
  "rte_eth_foreach_dev demo_find_next 4 (\<lambda>p ps. ps @ [p]) [] = Some [1, 3]"
  using foreach_dev_visits [OF demo_ports.port_table_axioms, of "\<lambda>p ps. ps @ [p]" 0 "[]"]
  by (simp add: RTE_ETH_DEV_NO_OWNER_def upt_rec)

section \<open>Flow types\<close>

text \<open>The flow types of \<open>rte_eth_ctrl.h\<close>; the numbers that header gives them are the parameter \<open>num\<close>.\<close>

datatype eth_flow =
  FLOW_IPV4 | FLOW_FRAG_IPV4 | FLOW_NONFRAG_IPV4_TCP | FLOW_NONFRAG_IPV4_UDP | FLOW_NONFRAG_IPV4_SCTP
| FLOW_NONFRAG_IPV4_OTHER | FLOW_IPV6 | FLOW_FRAG_IPV6 | FLOW_NONFRAG_IPV6_TCP | FLOW_NONFRAG_IPV6_UDP
| FLOW_NONFRAG_IPV6_SCTP | FLOW_NONFRAG_IPV6_OTHER | FLOW_L2_PAYLOAD | FLOW_IPV6_EX | FLOW_IPV6_TCP_EX
| FLOW_IPV6_UDP_EX | FLOW_PORT | FLOW_VXLAN | FLOW_GENEVE | FLOW_NVGRE

text \<open>\<open>ETH_RSS_X\<close> is \<open>1ULL << RTE_ETH_FLOW_X\<close>.\<close>

definition ETH_RSS :: "(eth_flow \<Rightarrow> nat) \<Rightarrow> eth_flow \<Rightarrow> u64" where
  "ETH_RSS num f = push_bit (num f) 1"

definition ETH_RSS_IP :: "(eth_flow \<Rightarrow> nat) \<Rightarrow> u64" where
  "ETH_RSS_IP num = ETH_RSS num FLOW_IPV4 OR ETH_RSS num FLOW_FRAG_IPV4 OR ETH_RSS num FLOW_NONFRAG_IPV4_OTHER OR
     ETH_RSS num FLOW_IPV6 OR ETH_RSS num FLOW_FRAG_IPV6 OR ETH_RSS num FLOW_NONFRAG_IPV6_OTHER OR
     ETH_RSS num FLOW_IPV6_EX"

definition ETH_RSS_UDP :: "(eth_flow \<Rightarrow> nat) \<Rightarrow> u64" where
  "ETH_RSS_UDP num = ETH_RSS num FLOW_NONFRAG_IPV4_UDP OR ETH_RSS num FLOW_NONFRAG_IPV6_UDP OR
     ETH_RSS num FLOW_IPV6_UDP_EX"

definition ETH_RSS_TCP :: "(eth_flow \<Rightarrow> nat) \<Rightarrow> u64" where
  "ETH_RSS_TCP num = ETH_RSS num FLOW_NONFRAG_IPV4_TCP OR ETH_RSS num FLOW_NONFRAG_IPV6_TCP OR
     ETH_RSS num FLOW_IPV6_TCP_EX"

definition ETH_RSS_SCTP :: "(eth_flow \<Rightarrow> nat) \<Rightarrow> u64" where
  "ETH_RSS_SCTP num = ETH_RSS num FLOW_NONFRAG_IPV4_SCTP OR ETH_RSS num FLOW_NONFRAG_IPV6_SCTP"

definition ETH_RSS_TUNNEL :: "(eth_flow \<Rightarrow> nat) \<Rightarrow> u64" where
  "ETH_RSS_TUNNEL num = ETH_RSS num FLOW_VXLAN OR ETH_RSS num FLOW_GENEVE OR ETH_RSS num FLOW_NVGRE"

definition ETH_RSS_PROTO_MASK :: "(eth_flow \<Rightarrow> nat) \<Rightarrow> u64" where
  "ETH_RSS_PROTO_MASK num =
     ETH_RSS num FLOW_IPV4 OR ETH_RSS num FLOW_FRAG_IPV4 OR ETH_RSS num FLOW_NONFRAG_IPV4_TCP OR
     ETH_RSS num FLOW_NONFRAG_IPV4_UDP OR ETH_RSS num FLOW_NONFRAG_IPV4_SCTP OR
     ETH_RSS num FLOW_NONFRAG_IPV4_OTHER OR ETH_RSS num FLOW_IPV6 OR ETH_RSS num FLOW_FRAG_IPV6 OR
     ETH_RSS num FLOW_NONFRAG_IPV6_TCP OR ETH_RSS num FLOW_NONFRAG_IPV6_UDP OR
     ETH_RSS num FLOW_NONFRAG_IPV6_SCTP OR ETH_RSS num FLOW_NONFRAG_IPV6_OTHER OR
     ETH_RSS num FLOW_L2_PAYLOAD OR ETH_RSS num FLOW_IPV6_EX OR ETH_RSS num FLOW_IPV6_TCP_EX OR
     ETH_RSS num FLOW_IPV6_UDP_EX OR ETH_RSS num FLOW_PORT OR ETH_RSS num FLOW_VXLAN OR
     ETH_RSS num FLOW_GENEVE OR ETH_RSS num FLOW_NVGRE"

named_theorems rss_defs
declare ETH_RSS_IP_def [rss_defs] ETH_RSS_UDP_def [rss_defs] ETH_RSS_TCP_def [rss_defs]
  ETH_RSS_SCTP_def [rss_defs] ETH_RSS_TUNNEL_def [rss_defs] ETH_RSS_PROTO_MASK_def [rss_defs]

lemma bit_rss: "bit (ETH_RSS num f) n \<longleftrightarrow> n = num f \<and> n < 64"
  by (auto simp: ETH_RSS_def bit_simps)

text \<open>
  When the header numbers the flow types differently and below 64, the groups are what their names
  say: each flow type of the valid mask is in exactly one of IP, UDP, TCP, SCTP, tunnel, L2 payload
  and port, and the mask of valid types is their union.
\<close>

theorem rss_groups_partition:
  assumes "inj num" "\<forall>f. num f < 64"
  shows "bit (ETH_RSS_PROTO_MASK num) (num f) \<and>
    length (filter (\<lambda>mask. bit mask (num f))
      [ETH_RSS_IP num, ETH_RSS_UDP num, ETH_RSS_TCP num, ETH_RSS_SCTP num, ETH_RSS_TUNNEL num,
       ETH_RSS num FLOW_L2_PAYLOAD, ETH_RSS num FLOW_PORT]) = 1 \<and>
    ETH_RSS_PROTO_MASK num = ETH_RSS_IP num OR ETH_RSS_UDP num OR ETH_RSS_TCP num OR ETH_RSS_SCTP num OR
      ETH_RSS_TUNNEL num OR ETH_RSS num FLOW_L2_PAYLOAD OR ETH_RSS num FLOW_PORT"
proof (intro conjI)
  have eq: "num f = num g \<longleftrightarrow> f = g" for f g using assms(1) by (simp add: inj_eq)
  show "bit (ETH_RSS_PROTO_MASK num) (num f)"
    using assms(2) by (cases f) (simp_all add: rss_defs bit_or_iff bit_rss eq)
  show "length (filter (\<lambda>mask. bit mask (num f))
      [ETH_RSS_IP num, ETH_RSS_UDP num, ETH_RSS_TCP num, ETH_RSS_SCTP num, ETH_RSS_TUNNEL num,
       ETH_RSS num FLOW_L2_PAYLOAD, ETH_RSS num FLOW_PORT]) = 1"
    using assms(2) by (cases f) (simp_all add: rss_defs bit_or_iff bit_rss eq)
  show "ETH_RSS_PROTO_MASK num = ETH_RSS_IP num OR ETH_RSS_UDP num OR ETH_RSS_TCP num OR ETH_RSS_SCTP num OR
      ETH_RSS_TUNNEL num OR ETH_RSS num FLOW_L2_PAYLOAD OR ETH_RSS num FLOW_PORT"
    unfolding rss_defs by (simp only: or.assoc or.commute or.left_commute)
qed

text \<open>A numbering of this kind.\<close>

definition demo_flow :: "eth_flow \<Rightarrow> nat" where
  "demo_flow f = (case f of
     FLOW_IPV4 \<Rightarrow> 2 | FLOW_FRAG_IPV4 \<Rightarrow> 3 | FLOW_NONFRAG_IPV4_TCP \<Rightarrow> 4 | FLOW_NONFRAG_IPV4_UDP \<Rightarrow> 5
   | FLOW_NONFRAG_IPV4_SCTP \<Rightarrow> 6 | FLOW_NONFRAG_IPV4_OTHER \<Rightarrow> 7 | FLOW_IPV6 \<Rightarrow> 8 | FLOW_FRAG_IPV6 \<Rightarrow> 9
   | FLOW_NONFRAG_IPV6_TCP \<Rightarrow> 10 | FLOW_NONFRAG_IPV6_UDP \<Rightarrow> 11 | FLOW_NONFRAG_IPV6_SCTP \<Rightarrow> 12
   | FLOW_NONFRAG_IPV6_OTHER \<Rightarrow> 13 | FLOW_L2_PAYLOAD \<Rightarrow> 14 | FLOW_IPV6_EX \<Rightarrow> 15 | FLOW_IPV6_TCP_EX \<Rightarrow> 16
   | FLOW_IPV6_UDP_EX \<Rightarrow> 17 | FLOW_PORT \<Rightarrow> 18 | FLOW_VXLAN \<Rightarrow> 19 | FLOW_GENEVE \<Rightarrow> 20 | FLOW_NVGRE \<Rightarrow> 21)"

theorem rss_groups_partition_witness:
  "bit (ETH_RSS_PROTO_MASK demo_flow) 20 \<and>
   ETH_RSS_PROTO_MASK demo_flow = ETH_RSS_IP demo_flow OR ETH_RSS_UDP demo_flow OR ETH_RSS_TCP demo_flow OR
     ETH_RSS_SCTP demo_flow OR ETH_RSS_TUNNEL demo_flow OR ETH_RSS demo_flow FLOW_L2_PAYLOAD OR
     ETH_RSS demo_flow FLOW_PORT"
proof -
  have i: "inj demo_flow" by (rule injI) (auto simp: demo_flow_def split: eth_flow.splits)
  have "\<forall>f. demo_flow f < 64" by (auto simp: demo_flow_def split: eth_flow.splits)
  moreover have "demo_flow FLOW_GENEVE = 20" by (simp add: demo_flow_def)
  ultimately show ?thesis using rss_groups_partition [OF i, of FLOW_GENEVE] by metis
qed

end
