(* ===== verification/Ethdev_Conf.thy ===== *)
theory Ethdev_Conf
  imports Dpdk_Prelude
begin

text \<open>
  The data of the configuration interface of \<open>src/src/ext/rte_ethdev.c\<close>: link state, queue modes, offload
  flags, and the structures that a port is configured and described with.  The functions that take
  them are in librte_ethdev; what is proved here is what their callers rely on when they build or read
  the values: that a link state is one atomic word, that the queue modes are the combinations of their
  flags, and that requested flags can be told apart in the word they are combined in.
\<close>

section \<open>Link state and statistics\<close>

definition ETH_LINK_SPEED_AUTONEG :: u32 where "ETH_LINK_SPEED_AUTONEG = push_bit 0 0"
definition ETH_LINK_SPEED_FIXED :: u32 where "ETH_LINK_SPEED_FIXED = push_bit 0 1"
definition ETH_LINK_SPEED_10M_HD :: u32 where "ETH_LINK_SPEED_10M_HD = push_bit 1 1"
definition ETH_LINK_SPEED_10M :: u32 where "ETH_LINK_SPEED_10M = push_bit 2 1"
definition ETH_LINK_SPEED_100M_HD :: u32 where "ETH_LINK_SPEED_100M_HD = push_bit 3 1"
definition ETH_LINK_SPEED_100M :: u32 where "ETH_LINK_SPEED_100M = push_bit 4 1"
definition ETH_LINK_SPEED_1G :: u32 where "ETH_LINK_SPEED_1G = push_bit 5 1"
definition ETH_LINK_SPEED_2_5G :: u32 where "ETH_LINK_SPEED_2_5G = push_bit 6 1"
definition ETH_LINK_SPEED_5G :: u32 where "ETH_LINK_SPEED_5G = push_bit 7 1"
definition ETH_LINK_SPEED_10G :: u32 where "ETH_LINK_SPEED_10G = push_bit 8 1"
definition ETH_LINK_SPEED_20G :: u32 where "ETH_LINK_SPEED_20G = push_bit 9 1"
definition ETH_LINK_SPEED_25G :: u32 where "ETH_LINK_SPEED_25G = push_bit 10 1"
definition ETH_LINK_SPEED_40G :: u32 where "ETH_LINK_SPEED_40G = push_bit 11 1"
definition ETH_LINK_SPEED_50G :: u32 where "ETH_LINK_SPEED_50G = push_bit 12 1"
definition ETH_LINK_SPEED_56G :: u32 where "ETH_LINK_SPEED_56G = push_bit 13 1"
definition ETH_LINK_SPEED_100G :: u32 where "ETH_LINK_SPEED_100G = push_bit 14 1"

definition ETH_SPEED_NUM_NONE :: u32 where "ETH_SPEED_NUM_NONE = 0"
definition ETH_SPEED_NUM_10M :: u32 where "ETH_SPEED_NUM_10M = 10"
definition ETH_SPEED_NUM_100M :: u32 where "ETH_SPEED_NUM_100M = 100"
definition ETH_SPEED_NUM_1G :: u32 where "ETH_SPEED_NUM_1G = 1000"
definition ETH_SPEED_NUM_2_5G :: u32 where "ETH_SPEED_NUM_2_5G = 2500"
definition ETH_SPEED_NUM_5G :: u32 where "ETH_SPEED_NUM_5G = 5000"
definition ETH_SPEED_NUM_10G :: u32 where "ETH_SPEED_NUM_10G = 10000"
definition ETH_SPEED_NUM_20G :: u32 where "ETH_SPEED_NUM_20G = 20000"
definition ETH_SPEED_NUM_25G :: u32 where "ETH_SPEED_NUM_25G = 25000"
definition ETH_SPEED_NUM_40G :: u32 where "ETH_SPEED_NUM_40G = 40000"
definition ETH_SPEED_NUM_50G :: u32 where "ETH_SPEED_NUM_50G = 50000"
definition ETH_SPEED_NUM_56G :: u32 where "ETH_SPEED_NUM_56G = 56000"
definition ETH_SPEED_NUM_100G :: u32 where "ETH_SPEED_NUM_100G = 100000"

text \<open>One-bit fields are words of length 1.\<close>

record rte_eth_link =
  link_speed :: u32
  link_duplex :: "1 word"
  link_autoneg :: "1 word"
  link_status :: "1 word"

definition ETH_LINK_HALF_DUPLEX :: "1 word" where "ETH_LINK_HALF_DUPLEX = 0"
definition ETH_LINK_FULL_DUPLEX :: "1 word" where "ETH_LINK_FULL_DUPLEX = 1"
definition ETH_LINK_DOWN :: "1 word" where "ETH_LINK_DOWN = 0"
definition ETH_LINK_UP :: "1 word" where "ETH_LINK_UP = 1"
definition ETH_LINK_FIXED :: "1 word" where "ETH_LINK_FIXED = 0"
definition ETH_LINK_AUTONEG :: "1 word" where "ETH_LINK_AUTONEG = 1"

text \<open>The counters of \<open>RTE_ETHDEV_QUEUE_STAT_CNTRS\<close> queues are lists.\<close>

record rte_eth_stats =
  ipackets :: u64
  opackets :: u64
  ibytes :: u64
  obytes :: u64
  imissed :: u64
  ierrors :: u64
  oerrors :: u64
  rx_nombuf :: u64
  q_ipackets :: "u64 list"
  q_opackets :: "u64 list"
  q_ibytes :: "u64 list"
  q_obytes :: "u64 list"
  q_errors :: "u64 list"

section \<open>Queue modes\<close>

definition ETH_MQ_RX_RSS_FLAG :: u32 where "ETH_MQ_RX_RSS_FLAG = 0x1"
definition ETH_MQ_RX_DCB_FLAG :: u32 where "ETH_MQ_RX_DCB_FLAG = 0x2"
definition ETH_MQ_RX_VMDQ_FLAG :: u32 where "ETH_MQ_RX_VMDQ_FLAG = 0x4"

datatype rte_eth_rx_mq_mode =
  ETH_MQ_RX_NONE | ETH_MQ_RX_RSS | ETH_MQ_RX_DCB | ETH_MQ_RX_DCB_RSS | ETH_MQ_RX_VMDQ_ONLY | ETH_MQ_RX_VMDQ_RSS | ETH_MQ_RX_VMDQ_DCB | ETH_MQ_RX_VMDQ_DCB_RSS

text \<open>The values of the enumeration.\<close>

primrec rx_mq_value :: "rte_eth_rx_mq_mode \<Rightarrow> u32" where
  "rx_mq_value ETH_MQ_RX_NONE = 0"
| "rx_mq_value ETH_MQ_RX_RSS = ETH_MQ_RX_RSS_FLAG"
| "rx_mq_value ETH_MQ_RX_DCB = ETH_MQ_RX_DCB_FLAG"
| "rx_mq_value ETH_MQ_RX_DCB_RSS = ETH_MQ_RX_RSS_FLAG OR ETH_MQ_RX_DCB_FLAG"
| "rx_mq_value ETH_MQ_RX_VMDQ_ONLY = ETH_MQ_RX_VMDQ_FLAG"
| "rx_mq_value ETH_MQ_RX_VMDQ_RSS = ETH_MQ_RX_RSS_FLAG OR ETH_MQ_RX_VMDQ_FLAG"
| "rx_mq_value ETH_MQ_RX_VMDQ_DCB = ETH_MQ_RX_VMDQ_FLAG OR ETH_MQ_RX_DCB_FLAG"
| "rx_mq_value ETH_MQ_RX_VMDQ_DCB_RSS = ETH_MQ_RX_RSS_FLAG OR ETH_MQ_RX_DCB_FLAG OR ETH_MQ_RX_VMDQ_FLAG"

datatype rte_eth_tx_mq_mode =
  ETH_MQ_TX_NONE | ETH_MQ_TX_DCB | ETH_MQ_TX_VMDQ_DCB | ETH_MQ_TX_VMDQ_ONLY

text \<open>The names of earlier versions.\<close>

definition ETH_RSS_mode :: rte_eth_rx_mq_mode where "ETH_RSS_mode = ETH_MQ_RX_RSS"
definition VMDQ_DCB :: rte_eth_rx_mq_mode where "VMDQ_DCB = ETH_MQ_RX_VMDQ_DCB"
definition ETH_DCB_RX :: rte_eth_rx_mq_mode where "ETH_DCB_RX = ETH_MQ_RX_DCB"
definition ETH_DCB_NONE :: rte_eth_tx_mq_mode where "ETH_DCB_NONE = ETH_MQ_TX_NONE"
definition ETH_VMDQ_DCB_TX :: rte_eth_tx_mq_mode where "ETH_VMDQ_DCB_TX = ETH_MQ_TX_VMDQ_DCB"
definition ETH_DCB_TX :: rte_eth_tx_mq_mode where "ETH_DCB_TX = ETH_MQ_TX_DCB"

section \<open>Offload flags\<close>

definition DEV_RX_OFFLOAD_VLAN_STRIP :: u64 where "DEV_RX_OFFLOAD_VLAN_STRIP = 0x1"
definition DEV_RX_OFFLOAD_IPV4_CKSUM :: u64 where "DEV_RX_OFFLOAD_IPV4_CKSUM = 0x2"
definition DEV_RX_OFFLOAD_UDP_CKSUM :: u64 where "DEV_RX_OFFLOAD_UDP_CKSUM = 0x4"
definition DEV_RX_OFFLOAD_TCP_CKSUM :: u64 where "DEV_RX_OFFLOAD_TCP_CKSUM = 0x8"
definition DEV_RX_OFFLOAD_TCP_LRO :: u64 where "DEV_RX_OFFLOAD_TCP_LRO = 0x10"
definition DEV_RX_OFFLOAD_QINQ_STRIP :: u64 where "DEV_RX_OFFLOAD_QINQ_STRIP = 0x20"
definition DEV_RX_OFFLOAD_OUTER_IPV4_CKSUM :: u64 where "DEV_RX_OFFLOAD_OUTER_IPV4_CKSUM = 0x40"
definition DEV_RX_OFFLOAD_MACSEC_STRIP :: u64 where "DEV_RX_OFFLOAD_MACSEC_STRIP = 0x80"
definition DEV_RX_OFFLOAD_HEADER_SPLIT :: u64 where "DEV_RX_OFFLOAD_HEADER_SPLIT = 0x100"
definition DEV_RX_OFFLOAD_VLAN_FILTER :: u64 where "DEV_RX_OFFLOAD_VLAN_FILTER = 0x200"
definition DEV_RX_OFFLOAD_VLAN_EXTEND :: u64 where "DEV_RX_OFFLOAD_VLAN_EXTEND = 0x400"
definition DEV_RX_OFFLOAD_JUMBO_FRAME :: u64 where "DEV_RX_OFFLOAD_JUMBO_FRAME = 0x800"
definition DEV_RX_OFFLOAD_CRC_STRIP :: u64 where "DEV_RX_OFFLOAD_CRC_STRIP = 0x1000"
definition DEV_RX_OFFLOAD_SCATTER :: u64 where "DEV_RX_OFFLOAD_SCATTER = 0x2000"
definition DEV_RX_OFFLOAD_TIMESTAMP :: u64 where "DEV_RX_OFFLOAD_TIMESTAMP = 0x4000"
definition DEV_RX_OFFLOAD_SECURITY :: u64 where "DEV_RX_OFFLOAD_SECURITY = 0x8000"
definition DEV_RX_OFFLOAD_CHECKSUM :: u64 where "DEV_RX_OFFLOAD_CHECKSUM = DEV_RX_OFFLOAD_IPV4_CKSUM OR DEV_RX_OFFLOAD_UDP_CKSUM OR DEV_RX_OFFLOAD_TCP_CKSUM"
definition DEV_RX_OFFLOAD_VLAN :: u64 where "DEV_RX_OFFLOAD_VLAN = DEV_RX_OFFLOAD_VLAN_STRIP OR DEV_RX_OFFLOAD_VLAN_FILTER OR DEV_RX_OFFLOAD_VLAN_EXTEND"

definition DEV_TX_OFFLOAD_VLAN_INSERT :: u64 where "DEV_TX_OFFLOAD_VLAN_INSERT = 0x1"
definition DEV_TX_OFFLOAD_IPV4_CKSUM :: u64 where "DEV_TX_OFFLOAD_IPV4_CKSUM = 0x2"
definition DEV_TX_OFFLOAD_UDP_CKSUM :: u64 where "DEV_TX_OFFLOAD_UDP_CKSUM = 0x4"
definition DEV_TX_OFFLOAD_TCP_CKSUM :: u64 where "DEV_TX_OFFLOAD_TCP_CKSUM = 0x8"
definition DEV_TX_OFFLOAD_SCTP_CKSUM :: u64 where "DEV_TX_OFFLOAD_SCTP_CKSUM = 0x10"
definition DEV_TX_OFFLOAD_TCP_TSO :: u64 where "DEV_TX_OFFLOAD_TCP_TSO = 0x20"
definition DEV_TX_OFFLOAD_UDP_TSO :: u64 where "DEV_TX_OFFLOAD_UDP_TSO = 0x40"
definition DEV_TX_OFFLOAD_OUTER_IPV4_CKSUM :: u64 where "DEV_TX_OFFLOAD_OUTER_IPV4_CKSUM = 0x80"
definition DEV_TX_OFFLOAD_QINQ_INSERT :: u64 where "DEV_TX_OFFLOAD_QINQ_INSERT = 0x100"
definition DEV_TX_OFFLOAD_VXLAN_TNL_TSO :: u64 where "DEV_TX_OFFLOAD_VXLAN_TNL_TSO = 0x200"
definition DEV_TX_OFFLOAD_GRE_TNL_TSO :: u64 where "DEV_TX_OFFLOAD_GRE_TNL_TSO = 0x400"
definition DEV_TX_OFFLOAD_IPIP_TNL_TSO :: u64 where "DEV_TX_OFFLOAD_IPIP_TNL_TSO = 0x800"
definition DEV_TX_OFFLOAD_GENEVE_TNL_TSO :: u64 where "DEV_TX_OFFLOAD_GENEVE_TNL_TSO = 0x1000"
definition DEV_TX_OFFLOAD_MACSEC_INSERT :: u64 where "DEV_TX_OFFLOAD_MACSEC_INSERT = 0x2000"
definition DEV_TX_OFFLOAD_MT_LOCKFREE :: u64 where "DEV_TX_OFFLOAD_MT_LOCKFREE = 0x4000"
definition DEV_TX_OFFLOAD_MULTI_SEGS :: u64 where "DEV_TX_OFFLOAD_MULTI_SEGS = 0x8000"
definition DEV_TX_OFFLOAD_MBUF_FAST_FREE :: u64 where "DEV_TX_OFFLOAD_MBUF_FAST_FREE = 0x10000"
definition DEV_TX_OFFLOAD_SECURITY :: u64 where "DEV_TX_OFFLOAD_SECURITY = 0x20000"

definition ETH_TXQ_FLAGS_NOMULTSEGS :: u32 where "ETH_TXQ_FLAGS_NOMULTSEGS = 0x1"
definition ETH_TXQ_FLAGS_NOREFCOUNT :: u32 where "ETH_TXQ_FLAGS_NOREFCOUNT = 0x2"
definition ETH_TXQ_FLAGS_NOMULTMEMP :: u32 where "ETH_TXQ_FLAGS_NOMULTMEMP = 0x4"
definition ETH_TXQ_FLAGS_NOVLANOFFL :: u32 where "ETH_TXQ_FLAGS_NOVLANOFFL = 0x100"
definition ETH_TXQ_FLAGS_NOXSUMSCTP :: u32 where "ETH_TXQ_FLAGS_NOXSUMSCTP = 0x200"
definition ETH_TXQ_FLAGS_NOXSUMUDP :: u32 where "ETH_TXQ_FLAGS_NOXSUMUDP = 0x400"
definition ETH_TXQ_FLAGS_NOXSUMTCP :: u32 where "ETH_TXQ_FLAGS_NOXSUMTCP = 0x800"
definition ETH_TXQ_FLAGS_NOOFFLOADS :: u32 where "ETH_TXQ_FLAGS_NOOFFLOADS = ETH_TXQ_FLAGS_NOVLANOFFL OR ETH_TXQ_FLAGS_NOXSUMSCTP OR ETH_TXQ_FLAGS_NOXSUMUDP OR ETH_TXQ_FLAGS_NOXSUMTCP"
definition ETH_TXQ_FLAGS_NOXSUMS :: u32 where "ETH_TXQ_FLAGS_NOXSUMS = ETH_TXQ_FLAGS_NOXSUMSCTP OR ETH_TXQ_FLAGS_NOXSUMUDP OR ETH_TXQ_FLAGS_NOXSUMTCP"
definition ETH_TXQ_FLAGS_IGNORE :: u32 where "ETH_TXQ_FLAGS_IGNORE = 0x8000"

definition link_speeds_family :: "u32 list" where
  "link_speeds_family = [ETH_LINK_SPEED_FIXED, ETH_LINK_SPEED_10M_HD, ETH_LINK_SPEED_10M, ETH_LINK_SPEED_100M_HD,
     ETH_LINK_SPEED_100M, ETH_LINK_SPEED_1G, ETH_LINK_SPEED_2_5G, ETH_LINK_SPEED_5G, ETH_LINK_SPEED_10G,
     ETH_LINK_SPEED_20G, ETH_LINK_SPEED_25G, ETH_LINK_SPEED_40G, ETH_LINK_SPEED_50G, ETH_LINK_SPEED_56G,
     ETH_LINK_SPEED_100G]"

definition rx_offloads_family :: "u64 list" where
  "rx_offloads_family = [DEV_RX_OFFLOAD_VLAN_STRIP, DEV_RX_OFFLOAD_IPV4_CKSUM, DEV_RX_OFFLOAD_UDP_CKSUM,
     DEV_RX_OFFLOAD_TCP_CKSUM, DEV_RX_OFFLOAD_TCP_LRO, DEV_RX_OFFLOAD_QINQ_STRIP,
     DEV_RX_OFFLOAD_OUTER_IPV4_CKSUM, DEV_RX_OFFLOAD_MACSEC_STRIP, DEV_RX_OFFLOAD_HEADER_SPLIT,
     DEV_RX_OFFLOAD_VLAN_FILTER, DEV_RX_OFFLOAD_VLAN_EXTEND, DEV_RX_OFFLOAD_JUMBO_FRAME,
     DEV_RX_OFFLOAD_CRC_STRIP, DEV_RX_OFFLOAD_SCATTER, DEV_RX_OFFLOAD_TIMESTAMP, DEV_RX_OFFLOAD_SECURITY]"

definition tx_offloads_family :: "u64 list" where
  "tx_offloads_family = [DEV_TX_OFFLOAD_VLAN_INSERT, DEV_TX_OFFLOAD_IPV4_CKSUM, DEV_TX_OFFLOAD_UDP_CKSUM,
     DEV_TX_OFFLOAD_TCP_CKSUM, DEV_TX_OFFLOAD_SCTP_CKSUM, DEV_TX_OFFLOAD_TCP_TSO, DEV_TX_OFFLOAD_UDP_TSO,
     DEV_TX_OFFLOAD_OUTER_IPV4_CKSUM, DEV_TX_OFFLOAD_QINQ_INSERT, DEV_TX_OFFLOAD_VXLAN_TNL_TSO,
     DEV_TX_OFFLOAD_GRE_TNL_TSO, DEV_TX_OFFLOAD_IPIP_TNL_TSO, DEV_TX_OFFLOAD_GENEVE_TNL_TSO,
     DEV_TX_OFFLOAD_MACSEC_INSERT, DEV_TX_OFFLOAD_MT_LOCKFREE, DEV_TX_OFFLOAD_MULTI_SEGS,
     DEV_TX_OFFLOAD_MBUF_FAST_FREE, DEV_TX_OFFLOAD_SECURITY]"

definition txq_flags_family :: "u32 list" where
  "txq_flags_family = [ETH_TXQ_FLAGS_NOMULTSEGS, ETH_TXQ_FLAGS_NOREFCOUNT, ETH_TXQ_FLAGS_NOMULTMEMP,
     ETH_TXQ_FLAGS_NOVLANOFFL, ETH_TXQ_FLAGS_NOXSUMSCTP, ETH_TXQ_FLAGS_NOXSUMUDP,
     ETH_TXQ_FLAGS_NOXSUMTCP, ETH_TXQ_FLAGS_IGNORE]"

named_theorems conf_flags
declare ETH_LINK_SPEED_FIXED_def [conf_flags]
  ETH_LINK_SPEED_10M_HD_def [conf_flags]
  ETH_LINK_SPEED_10M_def [conf_flags]
  ETH_LINK_SPEED_100M_HD_def [conf_flags]
  ETH_LINK_SPEED_100M_def [conf_flags]
  ETH_LINK_SPEED_1G_def [conf_flags]
  ETH_LINK_SPEED_2_5G_def [conf_flags]
  ETH_LINK_SPEED_5G_def [conf_flags]
  ETH_LINK_SPEED_10G_def [conf_flags]
  ETH_LINK_SPEED_20G_def [conf_flags]
  ETH_LINK_SPEED_25G_def [conf_flags]
  ETH_LINK_SPEED_40G_def [conf_flags]
  ETH_LINK_SPEED_50G_def [conf_flags]
  ETH_LINK_SPEED_56G_def [conf_flags]
  ETH_LINK_SPEED_100G_def [conf_flags]
  DEV_RX_OFFLOAD_VLAN_STRIP_def [conf_flags]
  DEV_RX_OFFLOAD_IPV4_CKSUM_def [conf_flags]
  DEV_RX_OFFLOAD_UDP_CKSUM_def [conf_flags]
  DEV_RX_OFFLOAD_TCP_CKSUM_def [conf_flags]
  DEV_RX_OFFLOAD_TCP_LRO_def [conf_flags]
  DEV_RX_OFFLOAD_QINQ_STRIP_def [conf_flags]
  DEV_RX_OFFLOAD_OUTER_IPV4_CKSUM_def [conf_flags]
  DEV_RX_OFFLOAD_MACSEC_STRIP_def [conf_flags]
  DEV_RX_OFFLOAD_HEADER_SPLIT_def [conf_flags]
  DEV_RX_OFFLOAD_VLAN_FILTER_def [conf_flags]
  DEV_RX_OFFLOAD_VLAN_EXTEND_def [conf_flags]
  DEV_RX_OFFLOAD_JUMBO_FRAME_def [conf_flags]
  DEV_RX_OFFLOAD_CRC_STRIP_def [conf_flags]
  DEV_RX_OFFLOAD_SCATTER_def [conf_flags]
  DEV_RX_OFFLOAD_TIMESTAMP_def [conf_flags]
  DEV_RX_OFFLOAD_SECURITY_def [conf_flags]
  DEV_TX_OFFLOAD_VLAN_INSERT_def [conf_flags]
  DEV_TX_OFFLOAD_IPV4_CKSUM_def [conf_flags]
  DEV_TX_OFFLOAD_UDP_CKSUM_def [conf_flags]
  DEV_TX_OFFLOAD_TCP_CKSUM_def [conf_flags]
  DEV_TX_OFFLOAD_SCTP_CKSUM_def [conf_flags]
  DEV_TX_OFFLOAD_TCP_TSO_def [conf_flags]
  DEV_TX_OFFLOAD_UDP_TSO_def [conf_flags]
  DEV_TX_OFFLOAD_OUTER_IPV4_CKSUM_def [conf_flags]
  DEV_TX_OFFLOAD_QINQ_INSERT_def [conf_flags]
  DEV_TX_OFFLOAD_VXLAN_TNL_TSO_def [conf_flags]
  DEV_TX_OFFLOAD_GRE_TNL_TSO_def [conf_flags]
  DEV_TX_OFFLOAD_IPIP_TNL_TSO_def [conf_flags]
  DEV_TX_OFFLOAD_GENEVE_TNL_TSO_def [conf_flags]
  DEV_TX_OFFLOAD_MACSEC_INSERT_def [conf_flags]
  DEV_TX_OFFLOAD_MT_LOCKFREE_def [conf_flags]
  DEV_TX_OFFLOAD_MULTI_SEGS_def [conf_flags]
  DEV_TX_OFFLOAD_MBUF_FAST_FREE_def [conf_flags]
  DEV_TX_OFFLOAD_SECURITY_def [conf_flags]
  ETH_TXQ_FLAGS_NOMULTSEGS_def [conf_flags]
  ETH_TXQ_FLAGS_NOREFCOUNT_def [conf_flags]
  ETH_TXQ_FLAGS_NOMULTMEMP_def [conf_flags]
  ETH_TXQ_FLAGS_NOVLANOFFL_def [conf_flags]
  ETH_TXQ_FLAGS_NOXSUMSCTP_def [conf_flags]
  ETH_TXQ_FLAGS_NOXSUMUDP_def [conf_flags]
  ETH_TXQ_FLAGS_NOXSUMTCP_def [conf_flags]
  ETH_TXQ_FLAGS_IGNORE_def [conf_flags]
  DEV_RX_OFFLOAD_CHECKSUM_def [conf_flags]
  DEV_RX_OFFLOAD_VLAN_def [conf_flags]
  ETH_TXQ_FLAGS_NOOFFLOADS_def [conf_flags]
  ETH_TXQ_FLAGS_NOXSUMS_def [conf_flags]

section \<open>Structures\<close>

record rte_eth_thresh =
  pthresh :: u8
  hthresh :: u8
  wthresh :: u8

record rte_eth_rxmode =
  rx_mq_mode :: rte_eth_rx_mq_mode
  max_rx_pkt_len :: u32
  split_hdr_size :: u16
  rx_mode_offloads :: u64
  header_split :: "1 word"
  hw_ip_checksum :: "1 word"
  hw_vlan_filter :: "1 word"
  hw_vlan_strip :: "1 word"
  hw_vlan_extend :: "1 word"
  jumbo_frame :: "1 word"
  hw_strip_crc :: "1 word"
  enable_scatter :: "1 word"
  enable_lro :: "1 word"
  hw_timestamp :: "1 word"
  rx_security :: "1 word"
  ignore_offload_bitfield :: "1 word"

datatype rte_vlan_type =
  ETH_VLAN_TYPE_UNKNOWN | ETH_VLAN_TYPE_INNER | ETH_VLAN_TYPE_OUTER | ETH_VLAN_TYPE_MAX

record rte_vlan_filter_conf =
  vlan_filter_ids :: "u64 list"

record rte_eth_rss_conf =
  rss_key :: ptr
  rss_key_len :: u8
  rss_hf :: u64

record rte_eth_vlan_mirror =
  vlan_mask :: u64
  mirror_vlan_id :: "u16 list"

record rte_eth_mirror_conf =
  rule_type :: u8
  dst_pool :: u8
  pool_mask :: u64
  mirror_vlan :: rte_eth_vlan_mirror

record rte_eth_rss_reta_entry64 =
  reta_mask :: u64
  reta :: "u16 list"

datatype rte_eth_nb_tcs =
  ETH_4_TCS | ETH_8_TCS

datatype rte_eth_nb_pools =
  ETH_8_POOLS | ETH_16_POOLS | ETH_32_POOLS | ETH_64_POOLS

record rte_eth_dcb_rx_conf =
  rx_nb_tcs :: rte_eth_nb_tcs
  rx_dcb_tc :: "u8 list"

record rte_eth_vmdq_dcb_tx_conf =
  dcb_tx_queue_pools :: rte_eth_nb_pools
  vmdq_tx_dcb_tc :: "u8 list"

record rte_eth_dcb_tx_conf =
  tx_nb_tcs :: rte_eth_nb_tcs
  tx_dcb_tc :: "u8 list"

record rte_eth_vmdq_tx_conf =
  tx_queue_pools :: rte_eth_nb_pools

text \<open>An entry of \<open>pool_map\<close> is the VLAN and the set of pools.\<close>

record rte_eth_vmdq_dcb_conf =
  dcb_queue_pools :: rte_eth_nb_pools
  dcb_enable_default_pool :: u8
  dcb_default_pool :: u8
  dcb_nb_pool_maps :: u8
  dcb_pool_map :: "(u16 \<times> u64) list"
  vmdq_dcb_tc :: "u8 list"

record rte_eth_vmdq_rx_conf =
  rx_queue_pools :: rte_eth_nb_pools
  enable_default_pool :: u8
  default_pool :: u8
  enable_loop_back :: u8
  nb_pool_maps :: u8
  vmdq_rx_mode :: u32
  pool_map :: "(u16 \<times> u64) list"

record rte_eth_txmode =
  tx_mq_mode :: rte_eth_tx_mq_mode
  tx_mode_offloads :: u64
  pvid :: u16
  hw_vlan_reject_tagged :: "1 word"
  hw_vlan_reject_untagged :: "1 word"
  hw_vlan_insert_pvid :: "1 word"

record rte_eth_rxconf =
  rx_thresh :: rte_eth_thresh
  rx_free_thresh :: u16
  rx_drop_en :: u8
  rx_deferred_start :: u8
  rxconf_offloads :: u64

record rte_eth_txconf =
  tx_thresh :: rte_eth_thresh
  tx_rs_thresh :: u16
  tx_free_thresh :: u16
  txconf_txq_flags :: u32
  tx_deferred_start :: u8
  txconf_offloads :: u64

record rte_eth_desc_lim =
  nb_max :: u16
  nb_min :: u16
  nb_align :: u16
  nb_seg_max :: u16
  nb_mtu_seg_max :: u16

datatype rte_eth_fc_mode =
  RTE_FC_NONE | RTE_FC_RX_PAUSE | RTE_FC_TX_PAUSE | RTE_FC_FULL

record rte_eth_fc_conf =
  high_water :: u32
  low_water :: u32
  pause_time :: u16
  send_xon :: u16
  fc_mode :: rte_eth_fc_mode
  mac_ctrl_frame_fwd :: u8
  fc_autoneg :: u8

record rte_eth_pfc_conf =
  pfc_fc :: rte_eth_fc_conf
  pfc_priority :: u8

datatype rte_fdir_pballoc_type =
  RTE_FDIR_PBALLOC_64K | RTE_FDIR_PBALLOC_128K | RTE_FDIR_PBALLOC_256K

datatype rte_fdir_status_mode =
  RTE_FDIR_NO_REPORT_STATUS | RTE_FDIR_REPORT_STATUS | RTE_FDIR_REPORT_STATUS_ALWAYS

text \<open>The flow director mode, masks and flexible payload have types of \<open>rte_eth_ctrl.h\<close>.\<close>

record ('mode, 'mask, 'flex) rte_fdir_conf =
  fdir_mode :: 'mode
  fdir_pballoc :: rte_fdir_pballoc_type
  fdir_status :: rte_fdir_status_mode
  drop_queue :: u8
  fdir_mask :: 'mask
  fdir_flex_conf :: 'flex

record rte_eth_udp_tunnel =
  udp_port :: u16
  prot_type :: u8

record rte_intr_conf =
  intr_lsc :: "1 word"
  intr_rxq :: "1 word"
  intr_rmv :: "1 word"

text \<open>The union \<open>tx_adv_conf\<close> is read by the member that the transmit mode selects.\<close>

datatype tx_adv_conf =
  Vmdq_Dcb_Tx rte_eth_vmdq_dcb_tx_conf | Dcb_Tx rte_eth_dcb_tx_conf | Vmdq_Tx rte_eth_vmdq_tx_conf

record rx_adv_conf =
  adv_rss_conf :: rte_eth_rss_conf
  adv_vmdq_dcb_conf :: rte_eth_vmdq_dcb_conf
  adv_dcb_rx_conf :: rte_eth_dcb_rx_conf
  adv_vmdq_rx_conf :: rte_eth_vmdq_rx_conf

record ('mode, 'mask, 'flex) rte_eth_conf =
  conf_link_speeds :: u32
  conf_rxmode :: rte_eth_rxmode
  conf_txmode :: rte_eth_txmode
  lpbk_mode :: u32
  conf_rx_adv :: rx_adv_conf
  conf_tx_adv :: tx_adv_conf
  dcb_capability_en :: u32
  fdir_conf :: "('mode, 'mask, 'flex) rte_fdir_conf"
  intr_conf :: rte_intr_conf

record rte_eth_dev_info =
  pci_dev :: ptr
  driver_name :: ptr
  info_if_index :: u32
  min_rx_bufsize :: u32
  max_rx_pktlen :: u32
  max_rx_queues :: u16
  max_tx_queues :: u16
  max_mac_addrs :: u32
  max_hash_mac_addrs :: u32
  max_vfs :: u16
  max_vmdq_pools :: u16
  rx_offload_capa :: u64
  tx_offload_capa :: u64
  rx_queue_offload_capa :: u64
  tx_queue_offload_capa :: u64
  reta_size :: u16
  hash_key_size :: u8
  flow_type_rss_offloads :: u64
  default_rxconf :: rte_eth_rxconf
  default_txconf :: rte_eth_txconf
  vmdq_queue_base :: u16
  vmdq_queue_num :: u16
  vmdq_pool_base :: u16
  rx_desc_lim :: rte_eth_desc_lim
  tx_desc_lim :: rte_eth_desc_lim
  speed_capa :: u32
  info_nb_rx_queues :: u16
  info_nb_tx_queues :: u16

record rte_eth_rxq_info =
  rxq_mp :: ptr
  rxq_conf :: rte_eth_rxconf
  scattered_rx :: u8
  rxq_nb_desc :: u16

record rte_eth_txq_info =
  txq_conf :: rte_eth_txconf
  txq_nb_desc :: u16

record rte_eth_xstat =
  xstat_id :: u64
  xstat_value :: u64

datatype rte_eth_dev_state =
  RTE_ETH_DEV_UNUSED | RTE_ETH_DEV_ATTACHED | RTE_ETH_DEV_DEFERRED | RTE_ETH_DEV_REMOVED

record rte_eth_dev_sriov =
  sriov_active :: u8
  nb_q_per_pool :: u8
  def_vmdq_idx :: u16
  def_pool_q_idx :: u16

datatype rte_eth_event_type =
  RTE_ETH_EVENT_UNKNOWN | RTE_ETH_EVENT_INTR_LSC | RTE_ETH_EVENT_QUEUE_STATE | RTE_ETH_EVENT_INTR_RESET | RTE_ETH_EVENT_VF_MBOX | RTE_ETH_EVENT_MACSEC | RTE_ETH_EVENT_INTR_RMV | RTE_ETH_EVENT_NEW | RTE_ETH_EVENT_DESTROY | RTE_ETH_EVENT_MAX


section \<open>The link state as one word\<close>

text \<open>
  The structure has 8 bytes and is aligned to them, so that it is read and written at once: the speed is
  the low half, the three bit-fields follow, lowest bit first, as the x86-64 ABI lays them out.
\<close>

definition link_word :: "rte_eth_link \<Rightarrow> u64" where
  "link_word l = ucast (link_speed l) OR push_bit 32 (ucast (link_duplex l)) OR
     push_bit 33 (ucast (link_autoneg l)) OR push_bit 34 (ucast (link_status l))"

definition link_of_word :: "u64 \<Rightarrow> rte_eth_link" where
  "link_of_word w = \<lparr>link_speed = ucast w, link_duplex = ucast (drop_bit 32 w),
     link_autoneg = ucast (drop_bit 33 w), link_status = ucast (drop_bit 34 w)\<rparr>"

lemma link_word_fields:
  "ucast (link_word l) = link_speed l" "ucast (drop_bit 32 (link_word l)) = link_duplex l"
  "ucast (drop_bit 33 (link_word l)) = link_autoneg l" "ucast (drop_bit 34 (link_word l)) = link_status l"
  by (rule bit_word_eqI, auto simp: link_word_def bit_simps dest: bit_imp_le_length)+

text \<open>
  A link state read back from the word that was written is the one written, so two link states have
  the same word only when they are equal, and what the padding holds makes no difference to a reader.
\<close>

theorem link_word_roundtrip:
  "link_of_word (link_word l) = l \<and> link_word (link_of_word w) = take_bit 35 w \<and>
   link_of_word (take_bit 35 w) = link_of_word w"
proof (intro conjI)
  show "link_of_word (link_word l) = l" by (simp add: link_of_word_def link_word_fields)
  show "link_word (link_of_word w) = take_bit 35 w"
  proof (rule bit_word_eqI)
    fix n assume "n < LENGTH(64)"
    consider "n < 32" | "n = 32" | "n = 33" | "n = 34" | "34 < n" by linarith
    then show "bit (link_word (link_of_word w)) n \<longleftrightarrow> bit (take_bit 35 w) n"
      by cases (auto simp: link_word_def link_of_word_def bit_simps)
  qed
  show "link_of_word (take_bit 35 w) = link_of_word w"
    unfolding link_of_word_def by (auto intro!: bit_word_eqI simp: bit_simps)
qed

section \<open>Flags that are combined in a word\<close>

definition or_flags :: "'a :: len word list \<Rightarrow> 'a word" where
  "or_flags fs = foldr (OR) fs 0"

definition one_bit_each :: "'a :: len word list \<Rightarrow> bool" where
  "one_bit_each fs \<longleftrightarrow> (\<forall>f\<in>set fs. \<exists>n<LENGTH('a). f = push_bit n 1)"

lemma bit_or_flags: "bit (or_flags fs) n \<longleftrightarrow> (\<exists>f\<in>set fs. bit f n)"
  by (induction fs) (auto simp: or_flags_def bit_or_iff)

lemma one_bit_flags:
  fixes fs :: "'a :: len word list"
  assumes "one_bit_each fs" "set req \<subseteq> set fs" "f \<in> set fs"
  shows "or_flags req AND f \<noteq> 0 \<longleftrightarrow> f \<in> set req"
proof -
  obtain n where n: "n < LENGTH('a)" "f = push_bit n 1" using assms(1,3) by (auto simp: one_bit_each_def)
  have eq: "g = f" if g: "g \<in> set req" "bit g n" for g
  proof -
    obtain k where "g = push_bit k 1" using g(1) assms(1,2) by (auto simp: one_bit_each_def)
    with g(2) n show ?thesis by (auto simp: bit_exp_iff)
  qed
  have "or_flags req AND f \<noteq> 0 \<longleftrightarrow> bit (or_flags req) n"
    unfolding n(2) by (rule bit_and_push_bit)
  also have "\<dots> \<longleftrightarrow> (\<exists>g\<in>set req. bit g n)" by (rule bit_or_flags)
  also have "\<dots> \<longleftrightarrow> f \<in> set req"
  proof -
    have "bit f n" using n by (simp add: bit_exp_iff)
    with eq show ?thesis by blast
  qed
  finally show ?thesis .
qed

lemma one_bit_eachI:
  "list_all2 (\<lambda>f n. n < LENGTH('a) \<and> f = push_bit n 1) fs ns \<Longrightarrow> one_bit_each (fs :: 'a :: len word list)"
  by (induction rule: list_all2_induct) (auto simp: one_bit_each_def)

lemma conf_families:
  "one_bit_each link_speeds_family" "one_bit_each rx_offloads_family"
  "one_bit_each tx_offloads_family" "one_bit_each txq_flags_family"
proof -
  show "one_bit_each link_speeds_family"
    by (rule one_bit_eachI [where ns = "[0, 1, 2, 3, 4, 5, 6, 7, 8, 9, 10, 11, 12, 13, 14]"])
      (simp add: link_speeds_family_def conf_flags)
  show "one_bit_each rx_offloads_family"
    by (rule one_bit_eachI [where ns = "[0, 1, 2, 3, 4, 5, 6, 7, 8, 9, 10, 11, 12, 13, 14, 15]"])
      (simp add: rx_offloads_family_def conf_flags)
  show "one_bit_each tx_offloads_family"
    by (rule one_bit_eachI [where ns = "[0, 1, 2, 3, 4, 5, 6, 7, 8, 9, 10, 11, 12, 13, 14, 15, 16, 17]"])
      (simp add: tx_offloads_family_def conf_flags)
  show "one_bit_each txq_flags_family"
    by (rule one_bit_eachI [where ns = "[0, 1, 2, 8, 9, 10, 11, 15]"])
      (simp add: txq_flags_family_def conf_flags)
qed

lemma conf_groups:
  "DEV_RX_OFFLOAD_CHECKSUM = or_flags [DEV_RX_OFFLOAD_IPV4_CKSUM, DEV_RX_OFFLOAD_UDP_CKSUM, DEV_RX_OFFLOAD_TCP_CKSUM]"
  "DEV_RX_OFFLOAD_VLAN = or_flags [DEV_RX_OFFLOAD_VLAN_STRIP, DEV_RX_OFFLOAD_VLAN_FILTER, DEV_RX_OFFLOAD_VLAN_EXTEND]"
  "ETH_TXQ_FLAGS_NOOFFLOADS = ETH_TXQ_FLAGS_NOVLANOFFL OR ETH_TXQ_FLAGS_NOXSUMS"
  by (simp_all add: or_flags_def DEV_RX_OFFLOAD_CHECKSUM_def DEV_RX_OFFLOAD_VLAN_def
      ETH_TXQ_FLAGS_NOOFFLOADS_def ETH_TXQ_FLAGS_NOXSUMS_def or.assoc)

text \<open>
  Flags of one kind that are combined in a word can be told apart again: each is set in the
  combination exactly when it was requested, for link speeds, receive and transmit offloads and queue
  flags, and the named groups are the combinations of their members.
\<close>

theorem conf_flags_told_apart:
  "(set s \<subseteq> set link_speeds_family \<and> a \<in> set link_speeds_family \<longrightarrow> (or_flags s AND a \<noteq> 0 \<longleftrightarrow> a \<in> set s)) \<and>
   (set r \<subseteq> set rx_offloads_family \<and> b \<in> set rx_offloads_family \<longrightarrow> (or_flags r AND b \<noteq> 0 \<longleftrightarrow> b \<in> set r)) \<and>
   (set t \<subseteq> set tx_offloads_family \<and> d \<in> set tx_offloads_family \<longrightarrow> (or_flags t AND d \<noteq> 0 \<longleftrightarrow> d \<in> set t)) \<and>
   (set q \<subseteq> set txq_flags_family \<and> e \<in> set txq_flags_family \<longrightarrow> (or_flags q AND e \<noteq> 0 \<longleftrightarrow> e \<in> set q)) \<and>
   DEV_RX_OFFLOAD_CHECKSUM = or_flags [DEV_RX_OFFLOAD_IPV4_CKSUM, DEV_RX_OFFLOAD_UDP_CKSUM, DEV_RX_OFFLOAD_TCP_CKSUM] \<and>
   DEV_RX_OFFLOAD_VLAN = or_flags [DEV_RX_OFFLOAD_VLAN_STRIP, DEV_RX_OFFLOAD_VLAN_FILTER, DEV_RX_OFFLOAD_VLAN_EXTEND] \<and>
   ETH_TXQ_FLAGS_NOOFFLOADS = ETH_TXQ_FLAGS_NOVLANOFFL OR ETH_TXQ_FLAGS_NOXSUMS"
  using conf_families [THEN one_bit_flags] conf_groups by blast

theorem conf_flags_told_apart_witness:
  "or_flags [DEV_RX_OFFLOAD_SCATTER, DEV_RX_OFFLOAD_TCP_LRO] AND DEV_RX_OFFLOAD_TCP_LRO \<noteq> 0 \<and>
   or_flags [DEV_RX_OFFLOAD_SCATTER, DEV_RX_OFFLOAD_TCP_LRO] AND DEV_RX_OFFLOAD_VLAN_STRIP = 0"
proof -
  have "set [DEV_RX_OFFLOAD_SCATTER, DEV_RX_OFFLOAD_TCP_LRO] \<subseteq> set rx_offloads_family"
    "DEV_RX_OFFLOAD_TCP_LRO \<in> set rx_offloads_family" "DEV_RX_OFFLOAD_VLAN_STRIP \<in> set rx_offloads_family"
    "DEV_RX_OFFLOAD_VLAN_STRIP \<notin> set [DEV_RX_OFFLOAD_SCATTER, DEV_RX_OFFLOAD_TCP_LRO]"
    by (simp_all add: rx_offloads_family_def) (simp_all add: conf_flags)
  then show ?thesis
    using conf_flags_told_apart [of "[]" _ "[DEV_RX_OFFLOAD_SCATTER, DEV_RX_OFFLOAD_TCP_LRO]" DEV_RX_OFFLOAD_TCP_LRO "[]" _ "[]"]
      conf_flags_told_apart [of "[]" _ "[DEV_RX_OFFLOAD_SCATTER, DEV_RX_OFFLOAD_TCP_LRO]" DEV_RX_OFFLOAD_VLAN_STRIP "[]" _ "[]"]
    by simp
qed

section \<open>Queue modes as sets of flags\<close>

text \<open>
  The receive modes are exactly the combinations of the three flags: every word of the low three bits
  is the value of one mode and of no other.
\<close>

theorem rx_mq_modes_complete:
  "(w < 8 \<longleftrightarrow> (\<exists>m. rx_mq_value m = w)) \<and> (rx_mq_value m = rx_mq_value n \<longleftrightarrow> m = n)"
proof (intro conjI iffI)
  note defs = ETH_MQ_RX_RSS_FLAG_def ETH_MQ_RX_DCB_FLAG_def ETH_MQ_RX_VMDQ_FLAG_def
  show "m = n" if "rx_mq_value m = rx_mq_value n"
    using that by (cases m; cases n) (simp_all add: defs)
  show "w < 8" if "\<exists>m. rx_mq_value m = w"
  proof -
    from that obtain m where "w = rx_mq_value m" by blast
    then show ?thesis by (cases m) (simp_all add: defs)
  qed
  show "\<exists>m. rx_mq_value m = w" if w: "w < 8"
  proof -
    have "unat w < 8" using w by (simp add: word_less_nat_alt)
    then have "unat w \<in> {0, 1, 2, 3, 4, 5, 6, 7}" by auto
    then have "w \<in> {0, 1, 2, 3, 4, 5, 6, 7}" by (auto simp: word_unat_eq_iff)
    moreover have "rx_mq_value ` {ETH_MQ_RX_NONE, ETH_MQ_RX_RSS, ETH_MQ_RX_DCB, ETH_MQ_RX_DCB_RSS,
        ETH_MQ_RX_VMDQ_ONLY, ETH_MQ_RX_VMDQ_RSS, ETH_MQ_RX_VMDQ_DCB, ETH_MQ_RX_VMDQ_DCB_RSS} = {0, 1, 2, 3, 4, 5, 6, 7}"
      by (simp add: defs insert_commute)
    ultimately show ?thesis by (metis image_iff)
  qed
qed simp


end
