(* ===== verification/Ethdev_Limits.thy ===== *)
theory Ethdev_Limits
  imports Ethdev Ethdev_Conf
begin

text \<open>
  The limits and the remaining flags and structures of \<open>src/src/ext/rte_ethdev.c\<close>: sizes of tables and name
  buffers, the flags of VLAN, VMDq, mirroring and tunnel configuration, descriptor and queue states, the traffic-class
  information, and the two macros that check a port number.
\<close>

section \<open>Limits\<close>

definition ETH_RSS_RETA_SIZE_64 :: nat where "ETH_RSS_RETA_SIZE_64 = 64"
definition ETH_RSS_RETA_SIZE_128 :: nat where "ETH_RSS_RETA_SIZE_128 = 128"
definition ETH_RSS_RETA_SIZE_256 :: nat where "ETH_RSS_RETA_SIZE_256 = 256"
definition ETH_RSS_RETA_SIZE_512 :: nat where "ETH_RSS_RETA_SIZE_512 = 512"
definition RTE_RETA_GROUP_SIZE :: nat where "RTE_RETA_GROUP_SIZE = 64"
definition ETH_VMDQ_MAX_VLAN_FILTERS :: nat where "ETH_VMDQ_MAX_VLAN_FILTERS = 64"
definition ETH_DCB_NUM_USER_PRIORITIES :: nat where "ETH_DCB_NUM_USER_PRIORITIES = 8"
definition ETH_VMDQ_DCB_NUM_QUEUES :: nat where "ETH_VMDQ_DCB_NUM_QUEUES = 128"
definition ETH_DCB_NUM_QUEUES :: nat where "ETH_DCB_NUM_QUEUES = 128"
definition ETH_NUM_RECEIVE_MAC_ADDR :: nat where "ETH_NUM_RECEIVE_MAC_ADDR = 128"
definition ETH_VMDQ_NUM_UC_HASH_ARRAY :: nat where "ETH_VMDQ_NUM_UC_HASH_ARRAY = 128"
definition ETH_MIRROR_MAX_VLANS :: nat where "ETH_MIRROR_MAX_VLANS = 64"
definition RTE_ETH_XSTATS_NAME_SIZE :: nat where "RTE_ETH_XSTATS_NAME_SIZE = 64"
definition ETH_DCB_NUM_TCS :: nat where "ETH_DCB_NUM_TCS = 8"
definition ETH_MAX_VMDQ_POOL :: nat where "ETH_MAX_VMDQ_POOL = 64"
definition RTE_ETH_MAX_OWNER_NAME_LEN :: nat where "RTE_ETH_MAX_OWNER_NAME_LEN = 64"
definition ETH_VLAN_ID_MAX :: u16 where "ETH_VLAN_ID_MAX = 0xfff"

section \<open>Flags\<close>

definition ETH_VLAN_STRIP_OFFLOAD :: u32 where "ETH_VLAN_STRIP_OFFLOAD = 0x1"
definition ETH_VLAN_FILTER_OFFLOAD :: u32 where "ETH_VLAN_FILTER_OFFLOAD = 0x2"
definition ETH_VLAN_EXTEND_OFFLOAD :: u32 where "ETH_VLAN_EXTEND_OFFLOAD = 0x4"
definition ETH_VMDQ_ACCEPT_UNTAG :: u32 where "ETH_VMDQ_ACCEPT_UNTAG = 0x1"
definition ETH_VMDQ_ACCEPT_HASH_MC :: u32 where "ETH_VMDQ_ACCEPT_HASH_MC = 0x2"
definition ETH_VMDQ_ACCEPT_HASH_UC :: u32 where "ETH_VMDQ_ACCEPT_HASH_UC = 0x4"
definition ETH_VMDQ_ACCEPT_BROADCAST :: u32 where "ETH_VMDQ_ACCEPT_BROADCAST = 0x8"
definition ETH_VMDQ_ACCEPT_MULTICAST :: u32 where "ETH_VMDQ_ACCEPT_MULTICAST = 0x10"
definition ETH_MIRROR_VIRTUAL_POOL_UP :: u8 where "ETH_MIRROR_VIRTUAL_POOL_UP = 0x1"
definition ETH_MIRROR_UPLINK_PORT :: u8 where "ETH_MIRROR_UPLINK_PORT = 0x2"
definition ETH_MIRROR_DOWNLINK_PORT :: u8 where "ETH_MIRROR_DOWNLINK_PORT = 0x4"
definition ETH_MIRROR_VLAN :: u8 where "ETH_MIRROR_VLAN = 0x8"
definition ETH_MIRROR_VIRTUAL_POOL_DOWN :: u8 where "ETH_MIRROR_VIRTUAL_POOL_DOWN = 0x10"
definition ETH_L2_TUNNEL_ENABLE_MASK :: u32 where "ETH_L2_TUNNEL_ENABLE_MASK = 0x1"
definition ETH_L2_TUNNEL_INSERTION_MASK :: u32 where "ETH_L2_TUNNEL_INSERTION_MASK = 0x2"
definition ETH_L2_TUNNEL_STRIPPING_MASK :: u32 where "ETH_L2_TUNNEL_STRIPPING_MASK = 0x4"
definition ETH_L2_TUNNEL_FORWARDING_MASK :: u32 where "ETH_L2_TUNNEL_FORWARDING_MASK = 0x8"
definition ETH_DCB_PG_SUPPORT :: u32 where "ETH_DCB_PG_SUPPORT = 0x1"
definition ETH_DCB_PFC_SUPPORT :: u32 where "ETH_DCB_PFC_SUPPORT = 0x2"
definition ETH_VLAN_STRIP_MASK :: u32 where "ETH_VLAN_STRIP_MASK = 0x1"
definition ETH_VLAN_FILTER_MASK :: u32 where "ETH_VLAN_FILTER_MASK = 0x2"
definition ETH_VLAN_EXTEND_MASK :: u32 where "ETH_VLAN_EXTEND_MASK = 0x4"
definition RTE_ETH_DEV_INTR_LSC :: u32 where "RTE_ETH_DEV_INTR_LSC = 0x2"
definition RTE_ETH_DEV_BONDED_SLAVE :: u32 where "RTE_ETH_DEV_BONDED_SLAVE = 0x4"
definition RTE_ETH_DEV_INTR_RMV :: u32 where "RTE_ETH_DEV_INTR_RMV = 0x8"

definition vlan_offload_family :: "u32 list" where
  "vlan_offload_family = [ETH_VLAN_STRIP_OFFLOAD, ETH_VLAN_FILTER_OFFLOAD, ETH_VLAN_EXTEND_OFFLOAD]"
definition vmdq_accept_family :: "u32 list" where
  "vmdq_accept_family = [ETH_VMDQ_ACCEPT_UNTAG, ETH_VMDQ_ACCEPT_HASH_MC, ETH_VMDQ_ACCEPT_HASH_UC, ETH_VMDQ_ACCEPT_BROADCAST, ETH_VMDQ_ACCEPT_MULTICAST]"
definition mirror_family :: "u8 list" where
  "mirror_family = [ETH_MIRROR_VIRTUAL_POOL_UP, ETH_MIRROR_UPLINK_PORT, ETH_MIRROR_DOWNLINK_PORT, ETH_MIRROR_VLAN, ETH_MIRROR_VIRTUAL_POOL_DOWN]"
definition l2_tunnel_family :: "u32 list" where
  "l2_tunnel_family = [ETH_L2_TUNNEL_ENABLE_MASK, ETH_L2_TUNNEL_INSERTION_MASK, ETH_L2_TUNNEL_STRIPPING_MASK, ETH_L2_TUNNEL_FORWARDING_MASK]"
definition dcb_capa_family :: "u32 list" where
  "dcb_capa_family = [ETH_DCB_PG_SUPPORT, ETH_DCB_PFC_SUPPORT]"
definition dev_flags_family :: "u32 list" where
  "dev_flags_family = [RTE_ETH_DEV_INTR_LSC, RTE_ETH_DEV_BONDED_SLAVE, RTE_ETH_DEV_INTR_RMV]"

lemmas limit_flag_defs =
  ETH_VLAN_STRIP_OFFLOAD_def ETH_VLAN_FILTER_OFFLOAD_def ETH_VLAN_EXTEND_OFFLOAD_def
  ETH_VMDQ_ACCEPT_UNTAG_def ETH_VMDQ_ACCEPT_HASH_MC_def ETH_VMDQ_ACCEPT_HASH_UC_def
  ETH_VMDQ_ACCEPT_BROADCAST_def ETH_VMDQ_ACCEPT_MULTICAST_def ETH_MIRROR_VIRTUAL_POOL_UP_def
  ETH_MIRROR_UPLINK_PORT_def ETH_MIRROR_DOWNLINK_PORT_def ETH_MIRROR_VLAN_def
  ETH_MIRROR_VIRTUAL_POOL_DOWN_def ETH_L2_TUNNEL_ENABLE_MASK_def ETH_L2_TUNNEL_INSERTION_MASK_def
  ETH_L2_TUNNEL_STRIPPING_MASK_def ETH_L2_TUNNEL_FORWARDING_MASK_def ETH_DCB_PG_SUPPORT_def
  ETH_DCB_PFC_SUPPORT_def RTE_ETH_DEV_INTR_LSC_def RTE_ETH_DEV_BONDED_SLAVE_def
  RTE_ETH_DEV_INTR_RMV_def

section \<open>States\<close>

definition RTE_ETH_QUEUE_STATE_STOPPED :: int where "RTE_ETH_QUEUE_STATE_STOPPED = 0"
definition RTE_ETH_QUEUE_STATE_STARTED :: int where "RTE_ETH_QUEUE_STATE_STARTED = 1"
definition RTE_ETH_RX_DESC_AVAIL :: int where "RTE_ETH_RX_DESC_AVAIL = 0"
definition RTE_ETH_RX_DESC_DONE :: int where "RTE_ETH_RX_DESC_DONE = 1"
definition RTE_ETH_RX_DESC_UNAVAIL :: int where "RTE_ETH_RX_DESC_UNAVAIL = 2"
definition RTE_ETH_TX_DESC_FULL :: int where "RTE_ETH_TX_DESC_FULL = 0"
definition RTE_ETH_TX_DESC_DONE :: int where "RTE_ETH_TX_DESC_DONE = 1"
definition RTE_ETH_TX_DESC_UNAVAIL :: int where "RTE_ETH_TX_DESC_UNAVAIL = 2"

section \<open>Structures\<close>

record rte_eth_xstat_name =
  xstat_name :: string

record tc_queues =
  tc_base :: u8
  tc_nb_queue :: u8

text \<open>The two-dimensional arrays are indexed by pool and traffic class.\<close>

record rte_eth_dcb_tc_queue_mapping =
  tc_rxq :: "tc_queues list list"
  tc_txq :: "tc_queues list list"

record rte_eth_dcb_info =
  info_nb_tcs :: u8
  prio_tc :: "u8 list"
  tc_bws :: "u8 list"
  tc_queue :: rte_eth_dcb_tc_queue_mapping

record rte_eth_dev_owner =
  owner_id :: u64
  owner_name :: string

text \<open>The sizes are those of the x86-64 ABI: two pointers, two 16-bit counters and padding, then the pointers.\<close>

definition rte_eth_tx_buffer_size :: "nat \<Rightarrow> nat" where
  "rte_eth_tx_buffer_size sz = 24 + sz * 8"

section \<open>Checking a port\<close>

text \<open>
  The macros leave the function they are used in when the port is not valid, the first with a value; the rest of
  the function is the last argument.
\<close>

definition RTE_ETH_VALID_PORTID_OR_ERR_RET :: "(u16 \<Rightarrow> bool) \<Rightarrow> u16 \<Rightarrow> 'a \<Rightarrow> 'a option \<Rightarrow> 'a option" where
  "RTE_ETH_VALID_PORTID_OR_ERR_RET is_valid port_id retval cont = (if \<not> is_valid port_id then Some retval else cont)"

definition RTE_ETH_VALID_PORTID_OR_RET :: "(u16 \<Rightarrow> bool) \<Rightarrow> u16 \<Rightarrow> 'w \<Rightarrow> 'w option \<Rightarrow> 'w option" where
  "RTE_ETH_VALID_PORTID_OR_RET is_valid port_id w cont = (if \<not> is_valid port_id then Some w else cont)"

text \<open>The descriptor query of \<^theory_text>\<open>Ethdev\<close> is the macro followed by its body.\<close>

lemma rx_descriptor_done_checks_port:
  "rte_eth_rx_descriptor_done env port_id queue_id offset w =
     RTE_ETH_VALID_PORTID_OR_ERR_RET (is_valid_port env) port_id (- ENODEV)
       (rte_eth_rx_descriptor_done (env\<lparr>is_valid_port := (\<lambda>_. True)\<rparr>) port_id queue_id offset w)"
  by (simp add: rte_eth_rx_descriptor_done_def RTE_ETH_VALID_PORTID_OR_ERR_RET_def)

section \<open>What the constants promise\<close>

lemma limit_families:
  "one_bit_each vlan_offload_family" "one_bit_each vmdq_accept_family" "one_bit_each mirror_family"
  "one_bit_each l2_tunnel_family" "one_bit_each dcb_capa_family" "one_bit_each dev_flags_family"
proof -
  show "one_bit_each vlan_offload_family"
    by (rule one_bit_eachI [where ns = "[0, 1, 2]"]) (simp add: vlan_offload_family_def limit_flag_defs)
  show "one_bit_each vmdq_accept_family"
    by (rule one_bit_eachI [where ns = "[0, 1, 2, 3, 4]"]) (simp add: vmdq_accept_family_def limit_flag_defs)
  show "one_bit_each mirror_family"
    by (rule one_bit_eachI [where ns = "[0, 1, 2, 3, 4]"]) (simp add: mirror_family_def limit_flag_defs)
  show "one_bit_each l2_tunnel_family"
    by (rule one_bit_eachI [where ns = "[0, 1, 2, 3]"]) (simp add: l2_tunnel_family_def limit_flag_defs)
  show "one_bit_each dcb_capa_family"
    by (rule one_bit_eachI [where ns = "[0, 1]"]) (simp add: dcb_capa_family_def limit_flag_defs)
  show "one_bit_each dev_flags_family"
    by (rule one_bit_eachI [where ns = "[1, 2, 3]"]) (simp add: dev_flags_family_def limit_flag_defs)
qed

text \<open>Each of these flags can be told from the others of its kind when they are combined.\<close>

lemmas limit_flags_told_apart = limit_families [THEN one_bit_flags]

text \<open>
  A VLAN offload is queried with the flag and set with the mask of the same name: what was set under one is read
  under the other, and nothing else is.
\<close>

theorem vlan_masks_are_offloads:
  assumes "set req \<subseteq> set vlan_offload_family"
  shows "(or_flags req AND ETH_VLAN_STRIP_MASK \<noteq> 0 \<longleftrightarrow> ETH_VLAN_STRIP_OFFLOAD \<in> set req) \<and>
    (or_flags req AND ETH_VLAN_FILTER_MASK \<noteq> 0 \<longleftrightarrow> ETH_VLAN_FILTER_OFFLOAD \<in> set req) \<and>
    (or_flags req AND ETH_VLAN_EXTEND_MASK \<noteq> 0 \<longleftrightarrow> ETH_VLAN_EXTEND_OFFLOAD \<in> set req)"
proof -
  have "ETH_VLAN_STRIP_MASK = ETH_VLAN_STRIP_OFFLOAD" "ETH_VLAN_FILTER_MASK = ETH_VLAN_FILTER_OFFLOAD"
    "ETH_VLAN_EXTEND_MASK = ETH_VLAN_EXTEND_OFFLOAD"
    by (simp_all add: limit_flag_defs ETH_VLAN_STRIP_MASK_def ETH_VLAN_FILTER_MASK_def ETH_VLAN_EXTEND_MASK_def)
  then show ?thesis using one_bit_flags [OF limit_families(1) assms] by (simp add: vlan_offload_family_def)
qed

text \<open>
  A redirection table is configured in groups of 64 entries, one mask bit each: every entry of a table of one of
  the four sizes has a group and a bit of a 64-bit mask, no two entries share them, and the groups are full.
\<close>

theorem reta_groups_cover:
  assumes "n \<in> {ETH_RSS_RETA_SIZE_64, ETH_RSS_RETA_SIZE_128, ETH_RSS_RETA_SIZE_256, ETH_RSS_RETA_SIZE_512}"
  shows "bij_betw (\<lambda>i. (i div RTE_RETA_GROUP_SIZE, i mod RTE_RETA_GROUP_SIZE)) {..<n}
    ({..<n div RTE_RETA_GROUP_SIZE} \<times> {..<LENGTH(64)})"
proof (rule bij_betw_byWitness [where f' = "\<lambda>(g, b). g * RTE_RETA_GROUP_SIZE + b"])
  obtain k where k: "n = k * 64"
    using assms by (auto simp: ETH_RSS_RETA_SIZE_64_def ETH_RSS_RETA_SIZE_128_def ETH_RSS_RETA_SIZE_256_def
        ETH_RSS_RETA_SIZE_512_def intro: that [of 1] that [of 2] that [of 4] that [of 8])
  show "(\<lambda>i. (i div RTE_RETA_GROUP_SIZE, i mod RTE_RETA_GROUP_SIZE)) ` {..<n} \<subseteq>
      {..<n div RTE_RETA_GROUP_SIZE} \<times> {..<LENGTH(64)}"
    by (auto simp: k RTE_RETA_GROUP_SIZE_def less_mult_imp_div_less)
  show "(\<lambda>(g, b). g * RTE_RETA_GROUP_SIZE + b) `
      ({..<n div RTE_RETA_GROUP_SIZE} \<times> {..<LENGTH(64)}) \<subseteq> {..<n}"
    by (auto simp: k RTE_RETA_GROUP_SIZE_def)
qed (auto simp: RTE_RETA_GROUP_SIZE_def)

text \<open>The states of a descriptor and of a queue are different values.\<close>

theorem states_distinct:
  "distinct [RTE_ETH_RX_DESC_AVAIL, RTE_ETH_RX_DESC_DONE, RTE_ETH_RX_DESC_UNAVAIL] \<and>
   distinct [RTE_ETH_TX_DESC_FULL, RTE_ETH_TX_DESC_DONE, RTE_ETH_TX_DESC_UNAVAIL] \<and>
   RTE_ETH_QUEUE_STATE_STOPPED \<noteq> RTE_ETH_QUEUE_STATE_STARTED"
  by (simp add: RTE_ETH_RX_DESC_AVAIL_def RTE_ETH_RX_DESC_DONE_def RTE_ETH_RX_DESC_UNAVAIL_def
      RTE_ETH_TX_DESC_FULL_def RTE_ETH_TX_DESC_DONE_def RTE_ETH_TX_DESC_UNAVAIL_def
      RTE_ETH_QUEUE_STATE_STOPPED_def RTE_ETH_QUEUE_STATE_STARTED_def)

end
