(* ===== verification/Mbuf.thy ===== *)
theory Mbuf
  imports Byte_Memory
begin

text \<open>
  The packet buffer of \<open>src/src/ext/rte_mbuf.c\<close>: the offload flags, \<open>struct rte_mbuf\<close>, and the
  operations that only look at one structure: reference counting in its atomic and its plain
  build, resetting, headroom, tailroom and data addresses, and the validation of transmit offload
  requests.  What the file takes from elsewhere (the EAL atomics, the private data of a mempool,
  the address translation, build-time constants) is a field of the record \<open>mbuf_config\<close>.
\<close>

section \<open>Offload flags\<close>

definition PKT_RX_VLAN :: u64 where "PKT_RX_VLAN = push_bit 0 1"
definition PKT_RX_RSS_HASH :: u64 where "PKT_RX_RSS_HASH = push_bit 1 1"
definition PKT_RX_FDIR :: u64 where "PKT_RX_FDIR = push_bit 2 1"
definition PKT_RX_EIP_CKSUM_BAD :: u64 where "PKT_RX_EIP_CKSUM_BAD = push_bit 5 1"
definition PKT_RX_VLAN_STRIPPED :: u64 where "PKT_RX_VLAN_STRIPPED = push_bit 6 1"
definition PKT_RX_IP_CKSUM_BAD :: u64 where "PKT_RX_IP_CKSUM_BAD = push_bit 4 1"
definition PKT_RX_IP_CKSUM_GOOD :: u64 where "PKT_RX_IP_CKSUM_GOOD = push_bit 7 1"
definition PKT_RX_L4_CKSUM_BAD :: u64 where "PKT_RX_L4_CKSUM_BAD = push_bit 3 1"
definition PKT_RX_L4_CKSUM_GOOD :: u64 where "PKT_RX_L4_CKSUM_GOOD = push_bit 8 1"
definition PKT_RX_IEEE1588_PTP :: u64 where "PKT_RX_IEEE1588_PTP = push_bit 9 1"
definition PKT_RX_IEEE1588_TMST :: u64 where "PKT_RX_IEEE1588_TMST = push_bit 10 1"
definition PKT_RX_FDIR_ID :: u64 where "PKT_RX_FDIR_ID = push_bit 13 1"
definition PKT_RX_FDIR_FLX :: u64 where "PKT_RX_FDIR_FLX = push_bit 14 1"
definition PKT_RX_QINQ_STRIPPED :: u64 where "PKT_RX_QINQ_STRIPPED = push_bit 15 1"
definition PKT_RX_LRO :: u64 where "PKT_RX_LRO = push_bit 16 1"
definition PKT_RX_TIMESTAMP :: u64 where "PKT_RX_TIMESTAMP = push_bit 17 1"
definition PKT_RX_SEC_OFFLOAD :: u64 where "PKT_RX_SEC_OFFLOAD = push_bit 18 1"
definition PKT_RX_SEC_OFFLOAD_FAILED :: u64 where "PKT_RX_SEC_OFFLOAD_FAILED = push_bit 19 1"
definition PKT_RX_QINQ :: u64 where "PKT_RX_QINQ = push_bit 20 1"
definition PKT_RX_IP_CKSUM_NONE :: u64 where "PKT_RX_IP_CKSUM_NONE = push_bit 4 1 OR push_bit 7 1"
definition PKT_RX_IP_CKSUM_MASK :: u64 where "PKT_RX_IP_CKSUM_MASK = push_bit 4 1 OR push_bit 7 1"
definition PKT_RX_L4_CKSUM_NONE :: u64 where "PKT_RX_L4_CKSUM_NONE = push_bit 3 1 OR push_bit 8 1"
definition PKT_RX_L4_CKSUM_MASK :: u64 where "PKT_RX_L4_CKSUM_MASK = push_bit 3 1 OR push_bit 8 1"

definition PKT_TX_UDP_SEG :: u64 where "PKT_TX_UDP_SEG = push_bit 42 1"
definition PKT_TX_SEC_OFFLOAD :: u64 where "PKT_TX_SEC_OFFLOAD = push_bit 43 1"
definition PKT_TX_MACSEC :: u64 where "PKT_TX_MACSEC = push_bit 44 1"
definition PKT_TX_QINQ :: u64 where "PKT_TX_QINQ = push_bit 49 1"
definition PKT_TX_TCP_SEG :: u64 where "PKT_TX_TCP_SEG = push_bit 50 1"
definition PKT_TX_IEEE1588_TMST :: u64 where "PKT_TX_IEEE1588_TMST = push_bit 51 1"
definition PKT_TX_IP_CKSUM :: u64 where "PKT_TX_IP_CKSUM = push_bit 54 1"
definition PKT_TX_IPV4 :: u64 where "PKT_TX_IPV4 = push_bit 55 1"
definition PKT_TX_IPV6 :: u64 where "PKT_TX_IPV6 = push_bit 56 1"
definition PKT_TX_VLAN :: u64 where "PKT_TX_VLAN = push_bit 57 1"
definition PKT_TX_OUTER_IP_CKSUM :: u64 where "PKT_TX_OUTER_IP_CKSUM = push_bit 58 1"
definition PKT_TX_OUTER_IPV4 :: u64 where "PKT_TX_OUTER_IPV4 = push_bit 59 1"
definition PKT_TX_OUTER_IPV6 :: u64 where "PKT_TX_OUTER_IPV6 = push_bit 60 1"
definition PKT_TX_TUNNEL_VXLAN :: u64 where "PKT_TX_TUNNEL_VXLAN = push_bit 45 1"
definition PKT_TX_TUNNEL_GRE :: u64 where "PKT_TX_TUNNEL_GRE = push_bit 45 2"
definition PKT_TX_TUNNEL_IPIP :: u64 where "PKT_TX_TUNNEL_IPIP = push_bit 45 3"
definition PKT_TX_TUNNEL_GENEVE :: u64 where "PKT_TX_TUNNEL_GENEVE = push_bit 45 4"
definition PKT_TX_TUNNEL_MPLSINUDP :: u64 where "PKT_TX_TUNNEL_MPLSINUDP = push_bit 45 5"
definition PKT_TX_TUNNEL_MASK :: u64 where "PKT_TX_TUNNEL_MASK = push_bit 45 15"
definition PKT_TX_L4_NO_CKSUM :: u64 where "PKT_TX_L4_NO_CKSUM = push_bit 52 0"
definition PKT_TX_TCP_CKSUM :: u64 where "PKT_TX_TCP_CKSUM = push_bit 52 1"
definition PKT_TX_SCTP_CKSUM :: u64 where "PKT_TX_SCTP_CKSUM = push_bit 52 2"
definition PKT_TX_UDP_CKSUM :: u64 where "PKT_TX_UDP_CKSUM = push_bit 52 3"
definition PKT_TX_L4_MASK :: u64 where "PKT_TX_L4_MASK = push_bit 52 3"

definition PKT_TX_OFFLOAD_MASK :: u64 where
  "PKT_TX_OFFLOAD_MASK =
     PKT_TX_IP_CKSUM OR PKT_TX_L4_MASK OR PKT_TX_OUTER_IP_CKSUM OR PKT_TX_TCP_SEG OR
     PKT_TX_IEEE1588_TMST OR PKT_TX_QINQ OR PKT_TX_VLAN OR PKT_TX_TUNNEL_MASK OR
     PKT_TX_MACSEC OR PKT_TX_SEC_OFFLOAD"

definition IND_ATTACHED_MBUF :: u64 where "IND_ATTACHED_MBUF = push_bit 62 1"
definition CTRL_MBUF_FLAG :: u64 where "CTRL_MBUF_FLAG = push_bit 63 1"

named_theorems flag_defs
declare PKT_RX_VLAN_def [flag_defs]
  PKT_RX_RSS_HASH_def [flag_defs]
  PKT_RX_FDIR_def [flag_defs]
  PKT_RX_EIP_CKSUM_BAD_def [flag_defs]
  PKT_RX_VLAN_STRIPPED_def [flag_defs]
  PKT_RX_IP_CKSUM_BAD_def [flag_defs]
  PKT_RX_IP_CKSUM_GOOD_def [flag_defs]
  PKT_RX_L4_CKSUM_BAD_def [flag_defs]
  PKT_RX_L4_CKSUM_GOOD_def [flag_defs]
  PKT_RX_IEEE1588_PTP_def [flag_defs]
  PKT_RX_IEEE1588_TMST_def [flag_defs]
  PKT_RX_FDIR_ID_def [flag_defs]
  PKT_RX_FDIR_FLX_def [flag_defs]
  PKT_RX_QINQ_STRIPPED_def [flag_defs]
  PKT_RX_LRO_def [flag_defs]
  PKT_RX_TIMESTAMP_def [flag_defs]
  PKT_RX_SEC_OFFLOAD_def [flag_defs]
  PKT_RX_SEC_OFFLOAD_FAILED_def [flag_defs]
  PKT_RX_QINQ_def [flag_defs]
  PKT_RX_IP_CKSUM_NONE_def [flag_defs]
  PKT_RX_IP_CKSUM_MASK_def [flag_defs]
  PKT_RX_L4_CKSUM_NONE_def [flag_defs]
  PKT_RX_L4_CKSUM_MASK_def [flag_defs]
  PKT_TX_UDP_SEG_def [flag_defs]
  PKT_TX_SEC_OFFLOAD_def [flag_defs]
  PKT_TX_MACSEC_def [flag_defs]
  PKT_TX_QINQ_def [flag_defs]
  PKT_TX_TCP_SEG_def [flag_defs]
  PKT_TX_IEEE1588_TMST_def [flag_defs]
  PKT_TX_IP_CKSUM_def [flag_defs]
  PKT_TX_IPV4_def [flag_defs]
  PKT_TX_IPV6_def [flag_defs]
  PKT_TX_VLAN_def [flag_defs]
  PKT_TX_OUTER_IP_CKSUM_def [flag_defs]
  PKT_TX_OUTER_IPV4_def [flag_defs]
  PKT_TX_OUTER_IPV6_def [flag_defs]
  PKT_TX_TUNNEL_VXLAN_def [flag_defs]
  PKT_TX_TUNNEL_GRE_def [flag_defs]
  PKT_TX_TUNNEL_IPIP_def [flag_defs]
  PKT_TX_TUNNEL_GENEVE_def [flag_defs]
  PKT_TX_TUNNEL_MPLSINUDP_def [flag_defs]
  PKT_TX_TUNNEL_MASK_def [flag_defs]
  PKT_TX_L4_NO_CKSUM_def [flag_defs]
  PKT_TX_TCP_CKSUM_def [flag_defs]
  PKT_TX_SCTP_CKSUM_def [flag_defs]
  PKT_TX_UDP_CKSUM_def [flag_defs]
  PKT_TX_L4_MASK_def [flag_defs]
  PKT_TX_OFFLOAD_MASK_def [flag_defs]
  IND_ATTACHED_MBUF_def [flag_defs]
  CTRL_MBUF_FLAG_def [flag_defs]

section \<open>The structure\<close>

text \<open>
  The unions are kept by their widest member: \<open>mb_hash\<close> has the 8 bytes of the union \<open>hash\<close>,
  \<open>userdata\<close> and \<open>packet_type\<close> those of theirs.  \<open>tx_offload\<close> is the combined word; its bit-fields
  are read below, lowest bits first, as the x86-64 ABI lays them out.
\<close>

record rte_mbuf =
  buf_addr :: ptr
  buf_iova :: u64
  data_off :: u16
  refcnt :: u16
  nb_segs :: u16
  mb_port :: u16
  ol_flags :: u64
  packet_type :: u32
  pkt_len :: u32
  data_len :: u16
  vlan_tci :: u16
  mb_hash :: u64
  vlan_tci_outer :: u16
  buf_len :: u16
  mb_timestamp :: u64
  userdata :: u64
  mb_pool :: ptr
  mb_next :: ptr
  tx_offload :: u64
  priv_size :: u16
  timesync :: u16
  seqn :: u32

definition l2_len :: "rte_mbuf \<Rightarrow> u64" where "l2_len m = take_bit 7 (tx_offload m)"
definition l3_len :: "rte_mbuf \<Rightarrow> u64" where "l3_len m = take_bit 9 (drop_bit 7 (tx_offload m))"
definition l4_len :: "rte_mbuf \<Rightarrow> u64" where "l4_len m = take_bit 8 (drop_bit 16 (tx_offload m))"
definition tso_segsz :: "rte_mbuf \<Rightarrow> u64" where "tso_segsz m = take_bit 16 (drop_bit 24 (tx_offload m))"
definition outer_l3_len :: "rte_mbuf \<Rightarrow> u64" where "outer_l3_len m = take_bit 9 (drop_bit 40 (tx_offload m))"
definition outer_l2_len :: "rte_mbuf \<Rightarrow> u64" where "outer_l2_len m = take_bit 7 (drop_bit 49 (tx_offload m))"

definition RTE_MBUF_INDIRECT :: "rte_mbuf \<Rightarrow> bool" where
  "RTE_MBUF_INDIRECT mb \<longleftrightarrow> ol_flags mb AND IND_ATTACHED_MBUF \<noteq> 0"

definition RTE_MBUF_DIRECT :: "rte_mbuf \<Rightarrow> bool" where
  "RTE_MBUF_DIRECT mb \<longleftrightarrow> \<not> RTE_MBUF_INDIRECT mb"

definition rte_is_ctrlmbuf :: "rte_mbuf \<Rightarrow> int" where
  "rte_is_ctrlmbuf m = (if ol_flags m AND CTRL_MBUF_FLAG \<noteq> 0 then 1 else 0)"

lemma indirect_bit: "RTE_MBUF_INDIRECT m \<longleftrightarrow> bit (ol_flags m) 62"
  unfolding RTE_MBUF_INDIRECT_def IND_ATTACHED_MBUF_def by (rule bit_and_push_bit)

section \<open>The surroundings\<close>

record rte_pktmbuf_pool_private =
  mbuf_data_room_size :: u16
  mbuf_priv_size :: u16

text \<open>
  \<open>rte_atomic16_t\<close> comes from the EAL: the operations are given by their effect on the 16-bit cell.
\<close>

record atomic16_ops =
  a16_read :: "u16 \<Rightarrow> u16"
  a16_set :: "u16 \<Rightarrow> u16 \<Rightarrow> u16"
  a16_add_return :: "u16 \<Rightarrow> u16 \<Rightarrow> u16 \<times> u16"

record mbuf_config =
  pktmbuf_headroom :: nat
  sizeof_mbuf :: nat
  assert_enabled :: bool
  refcnt_is_atomic :: bool
  atomic16 :: atomic16_ops
  mempool_priv :: "ptr \<Rightarrow> rte_pktmbuf_pool_private"
  mempool_virt2iova :: "ptr \<Rightarrow> u64"

definition rte_assert :: "mbuf_config \<Rightarrow> bool \<Rightarrow> unit option" where
  "rte_assert c b = (if assert_enabled c \<and> \<not> b then None else Some ())"

lemma rte_assert_true [simp]: "rte_assert c True = Some ()"
  by (simp add: rte_assert_def)

section \<open>Addresses of a segment\<close>

definition rte_mbuf_data_iova :: "rte_mbuf \<Rightarrow> u64" where
  "rte_mbuf_data_iova mb = buf_iova mb + ucast (data_off mb)"

definition rte_mbuf_data_iova_default :: "mbuf_config \<Rightarrow> rte_mbuf \<Rightarrow> u64" where
  "rte_mbuf_data_iova_default c mb = buf_iova mb + of_nat (pktmbuf_headroom c)"

definition rte_pktmbuf_mtod_offset :: "rte_mbuf \<Rightarrow> u64 \<Rightarrow> ptr" where
  "rte_pktmbuf_mtod_offset m off = buf_addr m + ucast (data_off m) + off"

definition rte_pktmbuf_mtod :: "rte_mbuf \<Rightarrow> ptr" where
  "rte_pktmbuf_mtod m = rte_pktmbuf_mtod_offset m 0"

definition rte_pktmbuf_iova_offset :: "rte_mbuf \<Rightarrow> u64 \<Rightarrow> u64" where
  "rte_pktmbuf_iova_offset m off = buf_iova m + ucast (data_off m) + off"

text \<open>Field accessors and deprecated names.\<close>

definition rte_pktmbuf_pkt_len :: "rte_mbuf \<Rightarrow> u32" where "rte_pktmbuf_pkt_len m = pkt_len m"
definition rte_pktmbuf_data_len :: "rte_mbuf \<Rightarrow> u16" where "rte_pktmbuf_data_len m = data_len m"
definition rte_ctrlmbuf_len :: "rte_mbuf \<Rightarrow> u16" where "rte_ctrlmbuf_len m = rte_pktmbuf_data_len m"
definition rte_pktmbuf_iova :: "rte_mbuf \<Rightarrow> u64" where "rte_pktmbuf_iova m = rte_pktmbuf_iova_offset m 0"
definition rte_pktmbuf_mtophys :: "rte_mbuf \<Rightarrow> u64" where "rte_pktmbuf_mtophys m = rte_pktmbuf_iova m"

definition rte_pktmbuf_mtophys_offset :: "rte_mbuf \<Rightarrow> u64 \<Rightarrow> u64" where
  "rte_pktmbuf_mtophys_offset m off = rte_pktmbuf_iova_offset m off"

definition rte_mbuf_data_dma_addr :: "rte_mbuf \<Rightarrow> u64" where
  "rte_mbuf_data_dma_addr mb = rte_mbuf_data_iova mb"

definition rte_mbuf_data_dma_addr_default :: "mbuf_config \<Rightarrow> rte_mbuf \<Rightarrow> u64" where
  "rte_mbuf_data_dma_addr_default c mb = rte_mbuf_data_iova_default c mb"

definition rte_ctrlmbuf_data :: "rte_mbuf \<Rightarrow> ptr" where
  "rte_ctrlmbuf_data m = buf_addr m + ucast (data_off m)"

definition rte_pktmbuf_headroom :: "rte_mbuf \<Rightarrow> u16" where
  "rte_pktmbuf_headroom m = data_off m"

definition rte_pktmbuf_tailroom :: "rte_mbuf \<Rightarrow> u16" where
  "rte_pktmbuf_tailroom m = buf_len m - rte_pktmbuf_headroom m - data_len m"

definition rte_pktmbuf_is_contiguous :: "rte_mbuf \<Rightarrow> bool" where
  "rte_pktmbuf_is_contiguous m \<longleftrightarrow> nb_segs m = 1"

definition rte_pktmbuf_data_room_size :: "mbuf_config \<Rightarrow> ptr \<Rightarrow> u16" where
  "rte_pktmbuf_data_room_size c mp = mbuf_data_room_size (mempool_priv c mp)"

definition rte_pktmbuf_priv_size :: "mbuf_config \<Rightarrow> ptr \<Rightarrow> u16" where
  "rte_pktmbuf_priv_size c mp = mbuf_priv_size (mempool_priv c mp)"

definition rte_mbuf_from_indirect :: "mbuf_config \<Rightarrow> rte_mbuf \<Rightarrow> ptr" where
  "rte_mbuf_from_indirect c mi = buf_addr mi - (of_nat (sizeof_mbuf c) + ucast (priv_size mi))"

definition rte_mbuf_to_baddr :: "mbuf_config \<Rightarrow> ptr \<Rightarrow> rte_mbuf \<Rightarrow> ptr" where
  "rte_mbuf_to_baddr c md m = md + of_nat (sizeof_mbuf c) + ucast (rte_pktmbuf_priv_size c (mb_pool m))"

section \<open>Resetting\<close>

definition rte_pktmbuf_reset_headroom :: "mbuf_config \<Rightarrow> rte_mbuf \<Rightarrow> rte_mbuf" where
  "rte_pktmbuf_reset_headroom c m =
     m\<lparr>data_off := of_nat (min (pktmbuf_headroom c) (unat (buf_len m)))\<rparr>"

definition MBUF_INVALID_PORT :: u16 where "MBUF_INVALID_PORT = 0xFFFF"

definition rte_pktmbuf_reset :: "mbuf_config \<Rightarrow> rte_mbuf \<Rightarrow> rte_mbuf" where
  "rte_pktmbuf_reset c m =
     (let m = m\<lparr>mb_next := 0, pkt_len := 0, tx_offload := 0, vlan_tci := 0, vlan_tci_outer := 0,
                nb_segs := 1, mb_port := MBUF_INVALID_PORT\<rparr>;
          m = m\<lparr>ol_flags := 0, packet_type := 0\<rparr>;
          m = rte_pktmbuf_reset_headroom c m
      in m\<lparr>data_len := 0\<rparr>)"

section \<open>The reference counter\<close>

text \<open>Without \<open>RTE_MBUF_REFCNT_ATOMIC\<close>; \<open>value\<close> is an \<open>int16_t\<close>, so subtracting 1 adds 0xFFFF.\<close>

definition refcnt_update_plain :: "rte_mbuf \<Rightarrow> u16 \<Rightarrow> u16 \<times> rte_mbuf" where
  "refcnt_update_plain m value = (refcnt m + value, m\<lparr>refcnt := refcnt m + value\<rparr>)"

definition refcnt_read_plain :: "rte_mbuf \<Rightarrow> u16" where
  "refcnt_read_plain m = refcnt m"

definition refcnt_set_plain :: "rte_mbuf \<Rightarrow> u16 \<Rightarrow> rte_mbuf" where
  "refcnt_set_plain m new_value = m\<lparr>refcnt := new_value\<rparr>"

text \<open>With it.\<close>

definition refcnt_read_atomic :: "atomic16_ops \<Rightarrow> rte_mbuf \<Rightarrow> u16" where
  "refcnt_read_atomic a m = a16_read a (refcnt m)"

definition refcnt_set_atomic :: "atomic16_ops \<Rightarrow> rte_mbuf \<Rightarrow> u16 \<Rightarrow> rte_mbuf" where
  "refcnt_set_atomic a m new_value = m\<lparr>refcnt := a16_set a (refcnt m) new_value\<rparr>"

definition refcnt_add_atomic :: "atomic16_ops \<Rightarrow> rte_mbuf \<Rightarrow> u16 \<Rightarrow> u16 \<times> rte_mbuf" where
  "refcnt_add_atomic a m value =
     (let (ret, cell) = a16_add_return a (refcnt m) value in (ret, m\<lparr>refcnt := cell\<rparr>))"

definition refcnt_update_atomic :: "atomic16_ops \<Rightarrow> rte_mbuf \<Rightarrow> u16 \<Rightarrow> u16 \<times> rte_mbuf" where
  "refcnt_update_atomic a m value =
     (if refcnt_read_atomic a m = 1 then (1 + value, refcnt_set_atomic a m (1 + value))
      else refcnt_add_atomic a m value)"

text \<open>What the rest of the file calls, whichever way it is built.\<close>

definition rte_mbuf_refcnt_read :: "mbuf_config \<Rightarrow> rte_mbuf \<Rightarrow> u16" where
  "rte_mbuf_refcnt_read c m =
     (if refcnt_is_atomic c then refcnt_read_atomic (atomic16 c) m else refcnt_read_plain m)"

definition rte_mbuf_refcnt_set :: "mbuf_config \<Rightarrow> rte_mbuf \<Rightarrow> u16 \<Rightarrow> rte_mbuf" where
  "rte_mbuf_refcnt_set c m new_value =
     (if refcnt_is_atomic c then refcnt_set_atomic (atomic16 c) m new_value
      else refcnt_set_plain m new_value)"

definition mbuf_refcnt_update_internal :: "mbuf_config \<Rightarrow> rte_mbuf \<Rightarrow> u16 \<Rightarrow> u16 \<times> rte_mbuf" where
  "mbuf_refcnt_update_internal c m value =
     (if refcnt_is_atomic c then refcnt_add_atomic (atomic16 c) m value
      else refcnt_update_plain m value)"

definition rte_mbuf_refcnt_update :: "mbuf_config \<Rightarrow> rte_mbuf \<Rightarrow> u16 \<Rightarrow> u16 \<times> rte_mbuf" where
  "rte_mbuf_refcnt_update c m value =
     (if refcnt_is_atomic c then refcnt_update_atomic (atomic16 c) m value
      else refcnt_update_plain m value)"

text \<open>The documented behaviour of the three EAL operations.\<close>

definition atomic16_ok :: "atomic16_ops \<Rightarrow> bool" where
  "atomic16_ok a \<longleftrightarrow> (\<forall>c v. a16_read a c = c \<and> a16_set a c v = v \<and> a16_add_return a c v = (c + v, c + v))"

text \<open>
  The interface of a reference counter, as the rest of the file uses it, and the two builds that
  provide it.
\<close>

locale ref_counter =
  fixes read :: "rte_mbuf \<Rightarrow> u16"
    and set_to :: "rte_mbuf \<Rightarrow> u16 \<Rightarrow> rte_mbuf"
    and update :: "rte_mbuf \<Rightarrow> u16 \<Rightarrow> u16 \<times> rte_mbuf"
  assumes read_set: "read (set_to m v) = v"
    and read_update: "update m v = (read m + v, set_to m (read m + v))"
    and set_eq: "set_to m v = m\<lparr>refcnt := v\<rparr>"
    and read_eq: "read m = refcnt m"
begin

lemma update_eq: "update m v = (refcnt m + v, m\<lparr>refcnt := refcnt m + v\<rparr>)"
  by (simp add: read_update set_eq read_eq)

lemma update_inverse: "snd (update (snd (update m v)) (- v)) = m"
  by (simp add: update_eq)

text \<open>The counter reaches zero exactly when the last of \<open>n\<close> references is dropped.\<close>

lemma last_reference: "refcnt m \<noteq> 0 \<Longrightarrow> fst (update m (- 1)) = 0 \<longleftrightarrow> refcnt m = 1"
  by (simp add: update_eq)

end

interpretation plain_counter: ref_counter refcnt_read_plain refcnt_set_plain refcnt_update_plain
  by unfold_locales (simp_all add: refcnt_read_plain_def refcnt_set_plain_def refcnt_update_plain_def)

lemma atomic_counter:
  "atomic16_ok a \<Longrightarrow> ref_counter (refcnt_read_atomic a) (refcnt_set_atomic a) (refcnt_update_atomic a)"
  by unfold_locales (simp_all add: atomic16_ok_def refcnt_read_atomic_def refcnt_set_atomic_def
      refcnt_update_atomic_def refcnt_add_atomic_def)

text \<open>Whichever way the file is built, the counter behaves as the plain one.\<close>

definition config_ok :: "mbuf_config \<Rightarrow> bool" where
  "config_ok c \<longleftrightarrow> refcnt_is_atomic c \<longrightarrow> atomic16_ok (atomic16 c)"

lemma refcnt_simps:
  assumes "config_ok c"
  shows "rte_mbuf_refcnt_read c m = refcnt m"
    and "rte_mbuf_refcnt_set c m v = m\<lparr>refcnt := v\<rparr>"
    and "rte_mbuf_refcnt_update c m v = (refcnt m + v, m\<lparr>refcnt := refcnt m + v\<rparr>)"
    and "mbuf_refcnt_update_internal c m v = (refcnt m + v, m\<lparr>refcnt := refcnt m + v\<rparr>)"
  using assms atomic_counter [of "atomic16 c"]
  by (auto simp: config_ok_def rte_mbuf_refcnt_read_def rte_mbuf_refcnt_set_def
      rte_mbuf_refcnt_update_def mbuf_refcnt_update_internal_def refcnt_add_atomic_def atomic16_ok_def
      plain_counter.update_eq plain_counter.read_eq plain_counter.set_eq
      ref_counter.update_eq ref_counter.set_eq ref_counter.read_eq)

section \<open>Validation of transmit offload requests\<close>

definition rte_validate_tx_offload :: "rte_mbuf \<Rightarrow> int" where
  "rte_validate_tx_offload m =
     (let flags = ol_flags m;
          inner_l3_offset = l2_len m
      in if flags AND PKT_TX_OFFLOAD_MASK = 0 then 0
      else let inner_l3_offset =
                 (if flags AND PKT_TX_OUTER_IP_CKSUM \<noteq> 0
                  then inner_l3_offset + (outer_l2_len m + outer_l3_len m) else inner_l3_offset)
      in if ucast (data_len m) < inner_l3_offset + l3_len m + l4_len m then - ENOTSUP
      else if flags AND PKT_TX_IP_CKSUM \<noteq> 0 \<and> flags AND PKT_TX_IPV6 \<noteq> 0 then - EINVAL
      else if flags AND (PKT_TX_L4_MASK OR PKT_TX_TCP_SEG) \<noteq> 0 \<and>
              flags AND (PKT_TX_IPV4 OR PKT_TX_IPV6) = 0 then - EINVAL
      else if flags AND PKT_TX_TCP_SEG \<noteq> 0 \<and>
              (tso_segsz m = 0 \<or> flags AND PKT_TX_IPV4 \<noteq> 0 \<and> flags AND PKT_TX_IP_CKSUM = 0) then - EINVAL
      else if flags AND PKT_TX_OUTER_IP_CKSUM \<noteq> 0 \<and> flags AND PKT_TX_OUTER_IPV4 = 0 then - EINVAL
      else 0)"

text \<open>
  What the documentation of the transmit flags says, independently of the checks: the flags as
  features of a request, the requirements on a request as rules, and the bytes of header that have to
  be described, as a number that does not wrap.
\<close>

datatype tx_flag =
  IpCksum | L4Cksum | OuterIpCksum | TcpSeg | UdpSeg | Ieee1588 | Qinq | Vlan | Tunnel | Macsec | SecOffload
| Ipv4 | Ipv6 | OuterIpv4 | OuterIpv6

primrec requests :: "rte_mbuf \<Rightarrow> tx_flag \<Rightarrow> bool" where
  "requests m IpCksum = bit (ol_flags m) 54"
| "requests m L4Cksum = (bit (ol_flags m) 52 \<or> bit (ol_flags m) 53)"
| "requests m OuterIpCksum = bit (ol_flags m) 58"
| "requests m TcpSeg = bit (ol_flags m) 50"
| "requests m UdpSeg = bit (ol_flags m) 42"
| "requests m Ieee1588 = bit (ol_flags m) 51"
| "requests m Qinq = bit (ol_flags m) 49"
| "requests m Vlan = bit (ol_flags m) 57"
| "requests m Tunnel = (\<exists>i\<in>{45, 46, 47, 48}. bit (ol_flags m) i)"
| "requests m Macsec = bit (ol_flags m) 44"
| "requests m SecOffload = bit (ol_flags m) 43"
| "requests m Ipv4 = bit (ol_flags m) 55"
| "requests m Ipv6 = bit (ol_flags m) 56"
| "requests m OuterIpv4 = bit (ol_flags m) 59"
| "requests m OuterIpv6 = bit (ol_flags m) 60"

text \<open>The offload features a packet asks for; the other flags tell what the packet is.\<close>

definition tx_features :: "rte_mbuf \<Rightarrow> tx_flag list" where
  "tx_features m = filter (requests m)
     [IpCksum, L4Cksum, OuterIpCksum, TcpSeg, UdpSeg, Ieee1588, Qinq, Vlan, Tunnel, Macsec, SecOffload]"

definition header_bytes :: "rte_mbuf \<Rightarrow> nat" where
  "header_bytes m =
     (if requests m OuterIpCksum then unat (outer_l2_len m) + unat (outer_l3_len m) else 0) +
     unat (l2_len m) + unat (l3_len m) + unat (l4_len m)"

text \<open>
  The rules, each with the flag whose documentation states it.  A packet is IPv4 or IPv6, and so is its
  outer header.  \<open>PKT_TX_IPV4\<close> must be set for every offload of L3 checksum, L4 checksum or segmentation
  of an IPv4 packet, \<open>PKT_TX_IPV6\<close> for L4 checksum or segmentation of an IPv6 packet: a packet that asks
  for its L3 checksum is IPv4 (\<open>PKT_TX_IP_CKSUM\<close>), not IPv6, and one that asks for an L4 checksum or
  TCP segmentation has one of the two.  TCP segmentation needs a segment size and, for IPv4, the
  L3 checksum (\<open>PKT_TX_TCP_SEG\<close>); UDP segmentation needs a segment size (\<open>PKT_TX_UDP_SEG\<close>); the outer
  L3 checksum is that of an outer IPv4 header (\<open>PKT_TX_OUTER_IP_CKSUM\<close>).
\<close>

datatype tx_rule =
  One_version | One_outer_version | L3_cksum_is_ipv4 | L3_cksum_not_ipv6 | L4_cksum_version | Tso_version
| Tso_segment_size | Tso_ipv4_cksum | Ufo_segment_size | Outer_cksum_is_ipv4

primrec violates :: "rte_mbuf \<Rightarrow> tx_rule \<Rightarrow> bool" where
  "violates m One_version = (requests m Ipv4 \<and> requests m Ipv6)"
| "violates m One_outer_version = (requests m OuterIpv4 \<and> requests m OuterIpv6)"
| "violates m L3_cksum_is_ipv4 = (requests m IpCksum \<and> \<not> requests m Ipv4)"
| "violates m L3_cksum_not_ipv6 = (requests m IpCksum \<and> requests m Ipv6)"
| "violates m L4_cksum_version = (requests m L4Cksum \<and> \<not> requests m Ipv4 \<and> \<not> requests m Ipv6)"
| "violates m Tso_version = (requests m TcpSeg \<and> \<not> requests m Ipv4 \<and> \<not> requests m Ipv6)"
| "violates m Tso_segment_size = (requests m TcpSeg \<and> tso_segsz m = 0)"
| "violates m Tso_ipv4_cksum = (requests m TcpSeg \<and> requests m Ipv4 \<and> \<not> requests m IpCksum)"
| "violates m Ufo_segment_size = (requests m UdpSeg \<and> tso_segsz m = 0)"
| "violates m Outer_cksum_is_ipv4 = (requests m OuterIpCksum \<and> \<not> requests m OuterIpv4)"

definition tx_rules :: "tx_rule list" where
  "tx_rules = [One_version, One_outer_version, L3_cksum_is_ipv4, L3_cksum_not_ipv6, L4_cksum_version, Tso_version,
     Tso_segment_size, Tso_ipv4_cksum, Ufo_segment_size, Outer_cksum_is_ipv4]"

definition violations :: "rte_mbuf \<Rightarrow> tx_rule list" where
  "violations m = filter (violates m) tx_rules"

text \<open>The rules that the validation does not enforce.\<close>

definition unenforced_rules :: "tx_rule list" where
  "unenforced_rules = [One_version, One_outer_version, L3_cksum_is_ipv4, Ufo_segment_size]"

lemma tx_rules_all: "set tx_rules = UNIV"
  by (auto simp: tx_rules_def intro: tx_rule.exhaust)

lemma and_or_nonzero: "w AND (a OR b) \<noteq> 0 \<longleftrightarrow> w AND a \<noteq> 0 \<or> w AND b \<noteq> 0" for w :: "'a :: len word"
proof -
  have "w AND (a OR b) = (w AND a) OR (w AND b)" by (rule bit_word_eqI) (auto simp: bit_simps)
  then show ?thesis by (simp add: or_eq_0_iff)
qed

lemma flag_bits:
  "w AND PKT_TX_IP_CKSUM \<noteq> 0 \<longleftrightarrow> bit w 54"
  "w AND PKT_TX_OUTER_IP_CKSUM \<noteq> 0 \<longleftrightarrow> bit w 58"
  "w AND PKT_TX_TCP_SEG \<noteq> 0 \<longleftrightarrow> bit w 50"
  "w AND PKT_TX_IEEE1588_TMST \<noteq> 0 \<longleftrightarrow> bit w 51"
  "w AND PKT_TX_QINQ \<noteq> 0 \<longleftrightarrow> bit w 49"
  "w AND PKT_TX_VLAN \<noteq> 0 \<longleftrightarrow> bit w 57"
  "w AND PKT_TX_MACSEC \<noteq> 0 \<longleftrightarrow> bit w 44"
  "w AND PKT_TX_SEC_OFFLOAD \<noteq> 0 \<longleftrightarrow> bit w 43"
  "w AND PKT_TX_IPV4 \<noteq> 0 \<longleftrightarrow> bit w 55"
  "w AND PKT_TX_IPV6 \<noteq> 0 \<longleftrightarrow> bit w 56"
  "w AND PKT_TX_OUTER_IPV4 \<noteq> 0 \<longleftrightarrow> bit w 59"
  unfolding flag_defs by (rule bit_and_push_bit)+

lemma or_of_bits:
  "(3 :: u64) = push_bit 0 1 OR push_bit 1 1"
  "(0xF :: u64) = (push_bit 0 1 OR push_bit 1 1) OR (push_bit 2 1 OR push_bit 3 1)"
  by simp_all

lemma flag_fields:
  "w AND PKT_TX_L4_MASK \<noteq> 0 \<longleftrightarrow> bit w 52 \<or> bit w 53"
  "w AND PKT_TX_TUNNEL_MASK \<noteq> 0 \<longleftrightarrow> bit w 45 \<or> bit w 46 \<or> bit w 47 \<or> bit w 48"
  unfolding PKT_TX_L4_MASK_def PKT_TX_TUNNEL_MASK_def or_of_bits push_bit_or push_bit_push_bit
    and_or_nonzero bit_and_push_bit by simp_all

lemma offload_mask_bits: "ol_flags m AND PKT_TX_OFFLOAD_MASK \<noteq> 0 \<longleftrightarrow> \<not> set (tx_features m) \<subseteq> {UdpSeg}"
  unfolding PKT_TX_OFFLOAD_MASK_def tx_features_def
  by (simp add: and_or_nonzero flag_bits flag_fields disj_ac)

lemma unat_take_bit_less: "unat (take_bit n w) < 2 ^ n" for w :: "'a :: len word"
  by (simp only: unsigned_take_bit_eq take_bit_nat_less_exp)

lemma unat_u16_less: "unat (w :: u16) < 2 ^ 16"
  using unsigned_less [of w] by simp

lemma unat_ucast_u16 [simp]: "unat (ucast (w :: u16) :: u64) = unat w" "unat (ucast w :: u32) = unat w"
  using unat_u16_less [of w] by (simp_all add: unsigned_ucast_eq take_bit_nat_eq_self_iff)

lemma header_fields_small:
  "unat (l2_len m) < 128" "unat (l3_len m) < 512" "unat (l4_len m) < 256"
  "unat (outer_l2_len m) < 128" "unat (outer_l3_len m) < 512"
  using unat_take_bit_less [of 7 "tx_offload m"] unat_take_bit_less [of 9 "drop_bit 7 (tx_offload m)"]
    unat_take_bit_less [of 8 "drop_bit 16 (tx_offload m)"]
    unat_take_bit_less [of 7 "drop_bit 49 (tx_offload m)"]
    unat_take_bit_less [of 9 "drop_bit 40 (tx_offload m)"]
  unfolding l2_len_def l3_len_def l4_len_def outer_l2_len_def outer_l3_len_def by simp_all

lemma header_fits:
  "ucast (data_len m) < (if bit (ol_flags m) 58 then l2_len m + (outer_l2_len m + outer_l3_len m)
     else l2_len m) + l3_len m + l4_len m \<longleftrightarrow> unat (data_len m) < header_bytes m"
  using header_fields_small [of m]
  by (auto simp: header_bytes_def word_less_nat_alt unat_word_ariths)

lemma enforced_violations:
  "set (violations m) \<subseteq> set unenforced_rules \<longleftrightarrow>
     \<not> (requests m IpCksum \<and> requests m Ipv6 \<or>
        (requests m L4Cksum \<or> requests m TcpSeg) \<and> \<not> (requests m Ipv4 \<or> requests m Ipv6) \<or>
        requests m TcpSeg \<and> (tso_segsz m = 0 \<or> requests m Ipv4 \<and> \<not> requests m IpCksum) \<or>
        requests m OuterIpCksum \<and> \<not> requests m OuterIpv4)"
  unfolding violations_def tx_rules_def unenforced_rules_def
  by (simp del: requests.simps)

lemma validate_tx_offload:
  "rte_validate_tx_offload m =
     (if set (tx_features m) \<subseteq> {UdpSeg} then 0
      else if unat (data_len m) < header_bytes m then - ENOTSUP
      else if set (violations m) \<subseteq> set unenforced_rules then 0 else - EINVAL)"
proof -
  have one: "(if C1 then e else if C2 then e else if C3 then e else if C4 then e else 0) =
      (if \<not> (C1 \<or> C2 \<or> C3 \<or> C4) then 0 else (e :: int))" for C1 C2 C3 C4 e
    by simp
  have clear:
    "ol_flags m AND PKT_TX_OFFLOAD_MASK = 0 \<longleftrightarrow> set (tx_features m) \<subseteq> {UdpSeg}"
    "ol_flags m AND PKT_TX_IP_CKSUM = 0 \<longleftrightarrow> \<not> bit (ol_flags m) 54"
    "ol_flags m AND PKT_TX_OUTER_IPV4 = 0 \<longleftrightarrow> \<not> bit (ol_flags m) 59"
    "ol_flags m AND (PKT_TX_IPV4 OR PKT_TX_IPV6) = 0 \<longleftrightarrow> \<not> (bit (ol_flags m) 55 \<or> bit (ol_flags m) 56)"
    using offload_mask_bits [of m] flag_bits [of "ol_flags m"]
      and_or_nonzero [of "ol_flags m" PKT_TX_IPV4 PKT_TX_IPV6] by blast+
  show ?thesis
    unfolding rte_validate_tx_offload_def Let_def one clear enforced_violations
      and_or_nonzero flag_bits flag_fields header_fits requests.simps ..
qed


text \<open>
  \<open>PKT_TX_OFFLOAD_MASK\<close>, described as the mask of all supported transmit offload features, misses
  the UDP segmentation flag: a packet that asks only for UDP segmentation is declared valid even
  with no segment size, no IP version and headers that do not fit in the segment.
\<close>

theorem udp_segmentation_not_validated:
  assumes "ol_flags m = PKT_TX_UDP_SEG"
  shows "rte_validate_tx_offload m = 0"
proof -
  have "PKT_TX_UDP_SEG AND PKT_TX_OFFLOAD_MASK = 0"
    unfolding flag_defs by simp
  with assms show ?thesis by (simp add: rte_validate_tx_offload_def)
qed

definition zero_mbuf :: rte_mbuf where
  "zero_mbuf = \<lparr>buf_addr = 0, buf_iova = 0, data_off = 0, refcnt = 1, nb_segs = 1, mb_port = 0,
     ol_flags = 0, packet_type = 0, pkt_len = 0, data_len = 0, vlan_tci = 0, mb_hash = 0,
     vlan_tci_outer = 0, buf_len = 0, mb_timestamp = 0, userdata = 0, mb_pool = 0, mb_next = 0,
     tx_offload = 0, priv_size = 0, timesync = 0, seqn = 0\<rparr>"

theorem udp_segmentation_not_validated_witness:
  "let m = zero_mbuf\<lparr>ol_flags := PKT_TX_UDP_SEG, data_len := 10, tx_offload := 60\<rparr>
   in tso_segsz m = 0 \<and> unat (data_len m) < unat (l2_len m) \<and> rte_validate_tx_offload m = 0"
  using udp_segmentation_not_validated
    [of "zero_mbuf\<lparr>ol_flags := PKT_TX_UDP_SEG, data_len := 10, tx_offload := 60\<rparr>"]
  by (simp add: tso_segsz_def l2_len_def zero_mbuf_def take_bit_eq_mod)

text \<open>
  None of the four rules is listed as unenforced in vain: for each there is a packet, with its headers in
  the first segment, that asks for an offload the validation looks at, violates that rule and no other,
  and is accepted.
\<close>

definition unenforced_example :: "tx_rule \<Rightarrow> rte_mbuf" where
  "unenforced_example r = zero_mbuf\<lparr>ol_flags :=
     (case r of
        One_version \<Rightarrow> PKT_TX_TCP_CKSUM OR PKT_TX_IPV4 OR PKT_TX_IPV6
      | One_outer_version \<Rightarrow> PKT_TX_VLAN OR PKT_TX_OUTER_IPV4 OR PKT_TX_OUTER_IPV6
      | L3_cksum_is_ipv4 \<Rightarrow> PKT_TX_IP_CKSUM
      | _ \<Rightarrow> PKT_TX_VLAN OR PKT_TX_UDP_SEG)\<rparr>"

theorem unenforced_rules_accepted:
  "list_all (\<lambda>r. let m = unenforced_example r in
     \<not> set (tx_features m) \<subseteq> {UdpSeg} \<and> header_bytes m \<le> unat (data_len m) \<and>
     violations m = [r] \<and> rte_validate_tx_offload m = 0) unenforced_rules"
proof -
  have header: "header_bytes (unenforced_example r) = 0" for r
    by (simp add: header_bytes_def unenforced_example_def zero_mbuf_def l2_len_def l3_len_def l4_len_def
        outer_l2_len_def outer_l3_len_def)
  have size: "tso_segsz (unenforced_example r) = 0" for r
    by (simp add: tso_segsz_def unenforced_example_def zero_mbuf_def)
  have flag: "bit (push_bit k 1 :: u64) n \<longleftrightarrow> n = k \<and> k < 64" for k n
    by (auto simp: push_bit_of_1 bit_exp_iff possible_bit_def)
  have flags: "ol_flags (unenforced_example r) = (case r of
      One_version \<Rightarrow> push_bit 52 1 OR push_bit 55 1 OR push_bit 56 1
    | One_outer_version \<Rightarrow> push_bit 57 1 OR push_bit 59 1 OR push_bit 60 1
    | L3_cksum_is_ipv4 \<Rightarrow> push_bit 54 1
    | _ \<Rightarrow> push_bit 57 1 OR push_bit 42 1)" for r
    by (simp add: unenforced_example_def flag_defs split: tx_rule.split)
  have "\<not> set (tx_features (unenforced_example r)) \<subseteq> {UdpSeg} \<and> violations (unenforced_example r) = [r]"
    if "r \<in> {One_version, One_outer_version, L3_cksum_is_ipv4, Ufo_segment_size}" for r
    using that
    by (elim insertE emptyE) (simp_all add: tx_features_def violations_def tx_rules_def flags flag size
        bit_or_iff del: push_bit_of_1 push_bit_eq_mult)
  then have "r \<in> set unenforced_rules \<Longrightarrow>
      \<not> set (tx_features (unenforced_example r)) \<subseteq> {UdpSeg} \<and> violations (unenforced_example r) = [r]" for r
    by (simp add: unenforced_rules_def)
  then show ?thesis
    by (simp add: list_all_iff Let_def header validate_tx_offload)
qed

text \<open>
  The two builds of the reference counter agree: with the EAL's atomic operations behaving as
  documented, the shortcut for a sole owner included, every update returns and stores the same
  16-bit value as the plain counter, wrapping at \<open>2^16\<close>.
\<close>

theorem refcnt_builds_agree:
  assumes "atomic16_ok a"
  shows "refcnt_update_atomic a m v = refcnt_update_plain m v \<and>
         refcnt_add_atomic a m v = refcnt_update_plain m v \<and>
         refcnt_read_atomic a m = refcnt_read_plain m \<and>
         refcnt_set_atomic a m v = refcnt_set_plain m v \<and>
         unat (fst (refcnt_update_atomic a m v)) = (unat (refcnt m) + unat v) mod 2 ^ 16"
proof -
  have u: "refcnt_update_atomic a m v = refcnt_update_plain m v"
    using ref_counter.update_eq [OF atomic_counter [OF assms]] by (simp add: plain_counter.update_eq)
  with assms show ?thesis
    by (simp add: refcnt_add_atomic_def atomic16_ok_def refcnt_read_atomic_def refcnt_set_atomic_def
        refcnt_read_plain_def refcnt_set_plain_def refcnt_update_plain_def unat_word_ariths)
qed

definition simple_atomic16 :: atomic16_ops where
  "simple_atomic16 = \<lparr>a16_read = \<lambda>c. c, a16_set = \<lambda>c v. v, a16_add_return = \<lambda>c v. (c + v, c + v)\<rparr>"

lemma simple_atomic16_ok: "atomic16_ok simple_atomic16"
  by (simp add: atomic16_ok_def simple_atomic16_def)

theorem refcnt_builds_agree_witness:
  "atomic16_ok simple_atomic16 \<and>
   refcnt_update_atomic simple_atomic16 (zero_mbuf\<lparr>refcnt := 0\<rparr>) (- 1) =
     refcnt_update_plain (zero_mbuf\<lparr>refcnt := 0\<rparr>) (- 1)"
  using refcnt_builds_agree [OF simple_atomic16_ok, of "zero_mbuf\<lparr>refcnt := 0\<rparr>" "- 1"]
    simple_atomic16_ok by blast

end
