(* ===== verification/Mbuf_Chain.thy ===== *)
theory Mbuf_Chain
  imports Mbuf
begin

text \<open>
  Packets as chains of mbufs in a heap: the operations of \<open>src/src/ext/rte_mbuf.c\<close> that walk or
  change a chain (\<open>lastseg\<close>, \<open>prepend\<close>, \<open>append\<close>, \<open>adj\<close>, \<open>trim\<close>, \<open>read\<close>, \<open>chain\<close>), the invariant
  \<open>packet\<close> of a well-formed packet, and its abstraction \<open>pkt_addrs\<close>, the list of the addresses of its
  data bytes in order.  Following a pointer that is NULL or points to no mbuf is the value
  \<^const>\<open>None\<close>, and so is a walk over a cyclic chain, which does not end.
\<close>

section \<open>The operations\<close>

type_synonym heap = "ptr \<rightharpoonup> rte_mbuf"

partial_function (option) rte_pktmbuf_lastseg :: "heap \<Rightarrow> ptr \<Rightarrow> ptr option" where
  "rte_pktmbuf_lastseg h p = do {
     m \<leftarrow> h p;
     if mb_next m \<noteq> 0 then rte_pktmbuf_lastseg h (mb_next m) else Some p }"

definition rte_pktmbuf_prepend :: "heap \<Rightarrow> ptr \<Rightarrow> u16 \<Rightarrow> (ptr \<times> heap) option" where
  "rte_pktmbuf_prepend h p len = do {
     m \<leftarrow> h p;
     if rte_pktmbuf_headroom m < len then Some (0, h)
     else
       let m = m\<lparr>data_off := data_off m - len\<rparr>;
           m = m\<lparr>data_len := data_len m + len\<rparr>;
           m = m\<lparr>pkt_len := pkt_len m + ucast len\<rparr>
       in Some (buf_addr m + ucast (data_off m), h(p \<mapsto> m)) }"

definition rte_pktmbuf_append :: "heap \<Rightarrow> ptr \<Rightarrow> u16 \<Rightarrow> (ptr \<times> heap) option" where
  "rte_pktmbuf_append h p len = do {
     last_p \<leftarrow> rte_pktmbuf_lastseg h p;
     m_last \<leftarrow> h last_p;
     if rte_pktmbuf_tailroom m_last < len then Some (0, h)
     else do {
       let tail = buf_addr m_last + ucast (data_off m_last) + ucast (data_len m_last);
       let h = h(last_p \<mapsto> m_last\<lparr>data_len := data_len m_last + len\<rparr>);
       m \<leftarrow> h p;
       Some (tail, h(p \<mapsto> m\<lparr>pkt_len := pkt_len m + ucast len\<rparr>)) } }"

definition rte_pktmbuf_adj :: "heap \<Rightarrow> ptr \<Rightarrow> u16 \<Rightarrow> (ptr \<times> heap) option" where
  "rte_pktmbuf_adj h p len = do {
     m \<leftarrow> h p;
     if data_len m < len then Some (0, h)
     else
       let m = m\<lparr>data_len := data_len m - len\<rparr>;
           m = m\<lparr>data_off := data_off m + len\<rparr>;
           m = m\<lparr>pkt_len := pkt_len m - ucast len\<rparr>
       in Some (buf_addr m + ucast (data_off m), h(p \<mapsto> m)) }"

definition rte_pktmbuf_trim :: "heap \<Rightarrow> ptr \<Rightarrow> u16 \<Rightarrow> (int \<times> heap) option" where
  "rte_pktmbuf_trim h p len = do {
     last_p \<leftarrow> rte_pktmbuf_lastseg h p;
     m_last \<leftarrow> h last_p;
     if data_len m_last < len then Some (- 1, h)
     else do {
       let h = h(last_p \<mapsto> m_last\<lparr>data_len := data_len m_last - len\<rparr>);
       m \<leftarrow> h p;
       Some (0, h(p \<mapsto> m\<lparr>pkt_len := pkt_len m - ucast len\<rparr>)) } }"

text \<open>\<open>slow\<close> is the external \<open>__rte_pktmbuf_read\<close>, which reads a range that spans segments.\<close>

definition rte_pktmbuf_read ::
    "(ptr \<Rightarrow> u32 \<Rightarrow> u32 \<Rightarrow> ptr \<Rightarrow> ptr) \<Rightarrow> heap \<Rightarrow> ptr \<Rightarrow> u32 \<Rightarrow> u32 \<Rightarrow> ptr \<Rightarrow> ptr option" where
  "rte_pktmbuf_read slow h p off len buf = do {
     m \<leftarrow> h p;
     if off + len \<le> ucast (data_len m) then Some (rte_pktmbuf_mtod_offset m (ucast off))
     else Some (slow p off len buf) }"

definition RTE_MBUF_MAX_NB_SEGS :: nat where "RTE_MBUF_MAX_NB_SEGS = 0xFFFF"

definition rte_pktmbuf_chain :: "heap \<Rightarrow> ptr \<Rightarrow> ptr \<Rightarrow> (int \<times> heap) option" where
  "rte_pktmbuf_chain h head tail = do {
     mh \<leftarrow> h head;
     mt \<leftarrow> h tail;
     if RTE_MBUF_MAX_NB_SEGS < unat (nb_segs mh) + unat (nb_segs mt) then Some (- EOVERFLOW, h)
     else do {
       cur_tail \<leftarrow> rte_pktmbuf_lastseg h head;
       mc \<leftarrow> h cur_tail;
       let h = h(cur_tail \<mapsto> mc\<lparr>mb_next := tail\<rparr>);
       mh \<leftarrow> h head;
       mt \<leftarrow> h tail;
       let h = h(head \<mapsto> mh\<lparr>nb_segs := nb_segs mh + nb_segs mt, pkt_len := pkt_len mh + pkt_len mt\<rparr>);
       mt \<leftarrow> h tail;
       Some (0, h(tail \<mapsto> mt\<lparr>pkt_len := ucast (data_len mt)\<rparr>)) } }"

section \<open>Well-formed packets\<close>

fun seg_list :: "heap \<Rightarrow> ptr \<Rightarrow> ptr list \<Rightarrow> bool" where
  "seg_list h p [] \<longleftrightarrow> p = 0"
| "seg_list h p (q # qs) \<longleftrightarrow>
     p = q \<and> p \<noteq> 0 \<and> (case h p of None \<Rightarrow> False | Some m \<Rightarrow> seg_list h (mb_next m) qs)"

definition seg_ok :: "rte_mbuf \<Rightarrow> bool" where
  "seg_ok m \<longleftrightarrow> unat (data_off m) + unat (data_len m) \<le> unat (buf_len m)"

definition addr_range :: "ptr \<Rightarrow> nat \<Rightarrow> ptr list" where
  "addr_range a n = map (\<lambda>i. a + of_nat i) [0..<n]"

definition seg_addrs :: "rte_mbuf \<Rightarrow> ptr list" where
  "seg_addrs m = addr_range (rte_pktmbuf_mtod m) (unat (data_len m))"

definition seg_at :: "heap \<Rightarrow> ptr \<Rightarrow> rte_mbuf" where
  "seg_at h p = the (h p)"

definition pkt_addrs :: "heap \<Rightarrow> ptr list \<Rightarrow> ptr list" where
  "pkt_addrs h ps = concat (map (\<lambda>p. seg_addrs (seg_at h p)) ps)"

definition packet :: "heap \<Rightarrow> ptr \<Rightarrow> ptr list \<Rightarrow> bool" where
  "packet h p ps \<longleftrightarrow>
     seg_list h p ps \<and> ps \<noteq> [] \<and> distinct ps \<and> (\<forall>q\<in>set ps. seg_ok (seg_at h q)) \<and>
     unat (nb_segs (seg_at h p)) = length ps \<and>
     unat (pkt_len (seg_at h p)) = length (pkt_addrs h ps)"

lemma addr_range_length [simp]: "length (addr_range a n) = n"
  by (simp add: addr_range_def)

lemma addr_range_add: "addr_range a (m + n) = addr_range a m @ addr_range (a + of_nat m) n"
  by (rule nth_equalityI) (auto simp: addr_range_def nth_append add.assoc simp flip: of_nat_add)

lemma addr_range_take: "k \<le> n \<Longrightarrow> take k (addr_range a n) = addr_range a k"
  by (simp add: addr_range_def take_map)

lemma addr_range_drop: "k \<le> n \<Longrightarrow> drop k (addr_range a n) = addr_range (a + of_nat k) (n - k)"
  using addr_range_add [of a k "n - k"] by simp

lemma seg_addrs_length [simp]: "length (seg_addrs m) = unat (data_len m)"
  by (simp add: seg_addrs_def)

lemma pkt_addrs_simps [simp]:
  "pkt_addrs h [] = []"
  "pkt_addrs h (p # ps) = seg_addrs (seg_at h p) @ pkt_addrs h ps"
  "pkt_addrs h (ps @ qs) = pkt_addrs h ps @ pkt_addrs h qs"
  by (simp_all add: pkt_addrs_def)

lemma seg_at_upd [simp]: "seg_at (h(p \<mapsto> m)) q = (if q = p then m else seg_at h q)"
  by (simp add: seg_at_def)

lemma pkt_addrs_cong:
  "(\<And>q. q \<in> set ps \<Longrightarrow> seg_addrs (seg_at h q) = seg_addrs (seg_at h' q)) \<Longrightarrow> pkt_addrs h ps = pkt_addrs h' ps"
  by (simp add: pkt_addrs_def cong: map_cong)

lemma seg_addrs_frame [simp]:
  "seg_addrs (m\<lparr>pkt_len := x\<rparr>) = seg_addrs m"
  "seg_addrs (m\<lparr>mb_next := y\<rparr>) = seg_addrs m"
  "seg_addrs (m\<lparr>nb_segs := z\<rparr>) = seg_addrs m"
  by (simp_all add: seg_addrs_def rte_pktmbuf_mtod_def rte_pktmbuf_mtod_offset_def)

lemma seg_list_in_heap: "seg_list h p ps \<Longrightarrow> q \<in> set ps \<Longrightarrow> h q = Some (seg_at h q)"
  by (induction h p ps rule: seg_list.induct) (auto simp: seg_at_def split: option.splits)

lemma seg_list_nonnull: "seg_list h p ps \<Longrightarrow> q \<in> set ps \<Longrightarrow> q \<noteq> 0"
  by (induction h p ps rule: seg_list.induct) (auto split: option.splits)

lemma seg_list_hd: "seg_list h p ps \<Longrightarrow> ps \<noteq> [] \<Longrightarrow> hd ps = p"
  by (cases ps) auto

text \<open>The shape of a chain depends on the \<open>next\<close> fields of its segments only.\<close>

lemma seg_list_cong:
  assumes "\<And>q. q \<in> set ps \<Longrightarrow> map_option mb_next (h q) = map_option mb_next (h' q)"
  shows "seg_list h p ps = seg_list h' p ps"
  using assms
proof (induction h p ps rule: seg_list.induct)
  case (2 h p q qs)
  show ?case
  proof (cases "p = q")
    case True
    from "2.prems" [of q] have e: "map_option mb_next (h q) = map_option mb_next (h' q)" by simp
    have IH: "seg_list h (mb_next m) qs = seg_list h' (mb_next m) qs" if "h p = Some m" for m
      using that True "2.prems" by (intro "2.IH") auto
    from True e IH show ?thesis by (cases "h q"; cases "h' q") auto
  qed simp
qed simp

lemma seg_list_append:
  "ps \<noteq> [] \<Longrightarrow> distinct ps \<Longrightarrow> seg_list h p ps \<Longrightarrow> seg_list h q qs \<Longrightarrow> last ps \<notin> set qs \<Longrightarrow>
   seg_list (h(last ps \<mapsto> (seg_at h (last ps))\<lparr>mb_next := q\<rparr>)) p (ps @ qs)"
proof (induction ps arbitrary: p)
  case (Cons a as)
  let ?h = "\<lambda>l. h(l \<mapsto> (seg_at h l)\<lparr>mb_next := q\<rparr>)"
  show ?case
  proof (cases "as = []")
    case True
    from Cons.prems(5) True have "seg_list (?h a) q qs = seg_list h q qs"
      by (intro seg_list_cong) auto
    with Cons.prems True show ?thesis
      by (auto simp del: fun_upd_apply simp: fun_upd_same split: option.splits)
  next
    case False
    with Cons.prems have "a \<noteq> last as" by auto
    with Cons False show ?thesis by (auto split: option.splits)
  qed
qed simp

section \<open>Walking to the last segment\<close>

lemma lastseg_last: "seg_list h p ps \<Longrightarrow> ps \<noteq> [] \<Longrightarrow> rte_pktmbuf_lastseg h p = Some (last ps)"
proof (induction ps arbitrary: p)
  case (Cons a as)
  then obtain m where m: "h p = Some m" "p = a" "seg_list h (mb_next m) as"
    by (auto split: option.splits)
  show ?case
  proof (cases as)
    case Nil
    with m show ?thesis by (subst rte_pktmbuf_lastseg.simps) simp
  next
    case (Cons b bs)
    with m have "mb_next m \<noteq> 0" by auto
    with m Cons.IH [OF m(3)] Cons show ?thesis by (subst rte_pktmbuf_lastseg.simps) simp
  qed
qed simp

lemma packetD:
  assumes "packet h p ps"
  shows "seg_list h p ps" "ps \<noteq> []" "distinct ps" "hd ps = p" "p \<in> set ps" "last ps \<in> set ps"
    "h p = Some (seg_at h p)" "h (last ps) = Some (seg_at h (last ps))"
    "rte_pktmbuf_lastseg h p = Some (last ps)"
    "\<And>q. q \<in> set ps \<Longrightarrow> seg_ok (seg_at h q)"
    "unat (nb_segs (seg_at h p)) = length ps" "unat (pkt_len (seg_at h p)) = length (pkt_addrs h ps)"
proof -
  from assms show s: "seg_list h p ps" and ne: "ps \<noteq> []" and "distinct ps"
    "\<And>q. q \<in> set ps \<Longrightarrow> seg_ok (seg_at h q)"
    "unat (nb_segs (seg_at h p)) = length ps" "unat (pkt_len (seg_at h p)) = length (pkt_addrs h ps)"
    by (auto simp: packet_def)
  from s ne show "hd ps = p" by (rule seg_list_hd)
  with ne show p: "p \<in> set ps" by (cases ps) auto
  from ne show l: "last ps \<in> set ps" by simp
  show "h p = Some (seg_at h p)" using s p by (rule seg_list_in_heap)
  show "h (last ps) = Some (seg_at h (last ps))" using s l by (rule seg_list_in_heap)
  show "rte_pktmbuf_lastseg h p = Some (last ps)" using s ne by (rule lastseg_last)
qed

text \<open>The packet length never wraps: at most 65535 segments of at most 65535 bytes.\<close>

lemma pkt_addrs_bound: "length (pkt_addrs h ps) \<le> length ps * 65535"
proof (induction ps)
  case (Cons p ps)
  have "unat (data_len (seg_at h p)) \<le> 65535" using unat_u16_less [of "data_len (seg_at h p)"] by simp
  with Cons show ?case by simp
qed simp

lemma packet_length_small: "length ps \<le> 65535 \<Longrightarrow> length (pkt_addrs h ps) < 2 ^ 32"
proof -
  assume "length ps \<le> 65535"
  then have "length ps * 65535 \<le> 65535 * 65535" by (rule mult_le_mono1)
  with pkt_addrs_bound [of h ps] show ?thesis by simp
qed

lemma packet_segments: "packet h p ps \<Longrightarrow> length ps \<le> 65535"
  using packetD(11) [of h p ps] unat_u16_less [of "nb_segs (seg_at h p)"] by simp

text \<open>Changing the data of segments keeps a packet when the head's length is kept up to date.\<close>

lemma packet_update:
  assumes "packet h p ps"
    and "\<And>q. q \<in> set ps \<Longrightarrow> \<exists>m. h' q = Some m \<and> mb_next m = mb_next (seg_at h q) \<and> seg_ok m"
    and "nb_segs (seg_at h' p) = nb_segs (seg_at h p)"
    and "unat (pkt_len (seg_at h' p)) = length (pkt_addrs h' ps)"
  shows "packet h' p ps"
proof -
  have "map_option mb_next (h' q) = map_option mb_next (h q)" if "q \<in> set ps" for q
    using assms(2) [OF that] seg_list_in_heap [OF packetD(1) [OF assms(1)] that] by auto
  then have "seg_list h' p ps = seg_list h p ps" by (rule seg_list_cong)
  with assms show ?thesis by (fastforce simp: packet_def seg_at_def)
qed

end
