(* ===== verification/Mbuf_Packet.thy ===== *)
theory Mbuf_Packet
  imports Mbuf_Chain
begin

text \<open>
  What the chain operations of \<open>src/src/ext/rte_mbuf.c\<close> do to a well-formed packet: each keeps
  \<open>packet\<close>, changes \<open>pkt_addrs\<close> as documented, and leaves the heap alone when it fails.
\<close>

section \<open>Arithmetic on the 16-bit fields\<close>

lemma ucast_sub_u16: "b \<le> a \<Longrightarrow> (ucast (a - b) :: u64) = ucast a - ucast b" for a b :: u16
proof -
  assume "b \<le> a"
  moreover from this have "(ucast b :: u64) \<le> ucast a" by (simp add: word_le_nat_alt)
  ultimately have "unat (ucast (a - b) :: u64) = unat (ucast a - ucast b :: u64)"
    by (simp add: unat_sub)
  then show ?thesis by (simp add: word_unat_eq_iff)
qed

lemma unat_add_u16: "unat a + unat b < 2 ^ 16 \<Longrightarrow> unat (a + b) = unat a + unat b" for a b :: u16
  by (simp add: unat_word_ariths)

lemma ucast_add_u16:
  "unat a + unat b < 2 ^ 16 \<Longrightarrow> (ucast (a + b) :: u64) = ucast a + ucast b" for a b :: u16
proof -
  assume "unat a + unat b < 2 ^ 16"
  then have "unat (ucast (a + b) :: u64) = unat (ucast a + ucast b :: u64)"
    by (simp add: unat_add_u16 unat_word_ariths)
  then show ?thesis by (simp add: word_unat_eq_iff)
qed

lemma of_nat_unat_u16: "of_nat (unat w) = (ucast w :: u64)" for w :: u16
  by (simp add: word_unat_eq_iff)

lemma unat_add_pkt_len: "unat a + n < 2 ^ 32 \<Longrightarrow> n = unat b \<Longrightarrow> unat (a + ucast b) = unat a + n" for a :: u32 and b :: u16
  by (simp add: unat_word_ariths)

lemma unat_sub_pkt_len: "unat b \<le> unat a \<Longrightarrow> unat (a - ucast b) = unat a - unat b" for a :: u32 and b :: u16
  by (simp add: unat_sub word_le_nat_alt)

lemma seg_ok_room:
  assumes "seg_ok m"
  shows "unat (rte_pktmbuf_tailroom m) = unat (buf_len m) - unat (data_off m) - unat (data_len m)"
proof -
  from assms have "unat (buf_len m - data_off m) = unat (buf_len m) - unat (data_off m)"
    by (simp add: seg_ok_def unat_sub word_le_nat_alt)
  with assms show ?thesis
    by (simp add: rte_pktmbuf_tailroom_def rte_pktmbuf_headroom_def seg_ok_def unat_sub word_le_nat_alt)
qed

section \<open>Changing the first or the last segment\<close>

lemma pkt_addrs_other [simp]: "p \<notin> set ps \<Longrightarrow> pkt_addrs (h(p \<mapsto> m)) ps = pkt_addrs h ps"
  by (rule pkt_addrs_cong) auto

lemma packet_split_head:
  assumes "packet h p ps"
  obtains rest where "ps = p # rest" "p \<notin> set rest"
  using packetD(2,3,4) [OF assms] by (cases ps) auto

lemma packet_split_last:
  assumes "packet h p ps"
  obtains init where "ps = init @ [last ps]" "last ps \<notin> set init"
proof
  show "ps = butlast ps @ [last ps]" using packetD(2) [OF assms] by simp
  with packetD(3) [OF assms] show "last ps \<notin> set (butlast ps)"
    by (metis distinct.simps(2) distinct_rev rev.simps(2) rev_append rev_rev_ident set_rev append_Cons append_Nil)
qed

lemma packet_head:
  assumes pk: "packet h p ps" and m': "seg_ok m'" "mb_next m' = mb_next (seg_at h p)"
    "nb_segs m' = nb_segs (seg_at h p)"
    and len: "unat (pkt_len m') + unat (data_len (seg_at h p)) = unat (pkt_len (seg_at h p)) + unat (data_len m')"
  shows "packet (h(p \<mapsto> m')) p ps"
proof (rule packet_update [OF pk])
  from pk obtain rest where ps: "ps = p # rest" "p \<notin> set rest" by (rule packet_split_head)
  show "unat (pkt_len (seg_at (h(p \<mapsto> m')) p)) = length (pkt_addrs (h(p \<mapsto> m')) ps)"
    using len packetD(12) [OF pk] ps by simp
  show "\<exists>m. (h(p \<mapsto> m')) q = Some m \<and> mb_next m = mb_next (seg_at h q) \<and> seg_ok m" if "q \<in> set ps" for q
    using m' packetD(10) [OF pk that] seg_list_in_heap [OF packetD(1) [OF pk] that] by auto
qed (use m' in simp)

text \<open>Changing the last segment to \<open>ml\<close> and then the length of the head by the same amount.\<close>

definition set_last :: "heap \<Rightarrow> ptr \<Rightarrow> ptr \<Rightarrow> rte_mbuf \<Rightarrow> u32 \<Rightarrow> heap" where
  "set_last h p l ml n = (let h = h(l \<mapsto> ml) in h(p \<mapsto> (seg_at h p)\<lparr>pkt_len := n\<rparr>))"

lemma pkt_addrs_set_last:
  assumes "ps = init @ [l]" "l \<notin> set init"
  shows "pkt_addrs (set_last h p l ml n) ps = pkt_addrs h init @ seg_addrs ml"
proof -
  have "pkt_addrs (set_last h p l ml n) init = pkt_addrs h init"
    using assms(2) by (intro pkt_addrs_cong) (auto simp: set_last_def Let_def)
  then show ?thesis using assms(1) by (simp add: set_last_def Let_def)
qed

lemma packet_set_last:
  assumes pk: "packet h p ps" and l: "l = last ps" and m': "seg_ok m'"
    "mb_next m' = mb_next (seg_at h l)" "nb_segs m' = nb_segs (seg_at h l)"
    and len: "unat n + unat (data_len (seg_at h l)) = unat (pkt_len (seg_at h p)) + unat (data_len m')"
  shows "packet (set_last h p l m' n) p ps"
proof (rule packet_update [OF pk])
  from pk obtain init where ps: "ps = init @ [l]" "l \<notin> set init" using l by (metis packet_split_last)
  have "length (pkt_addrs h ps) = length (pkt_addrs h init) + unat (data_len (seg_at h l))" using ps by simp
  with len packetD(12) [OF pk] pkt_addrs_set_last [OF ps, of h p m' n]
  show "unat (pkt_len (seg_at (set_last h p l m' n) p)) = length (pkt_addrs (set_last h p l m' n) ps)"
    by (simp add: set_last_def Let_def)
  show "\<exists>m. set_last h p l m' n q = Some m \<and> mb_next m = mb_next (seg_at h q) \<and> seg_ok m"
    if "q \<in> set ps" for q
    using m' packetD(10) [OF pk that] seg_list_in_heap [OF packetD(1) [OF pk] that]
    by (auto simp: set_last_def Let_def seg_ok_def)
qed (use m' in \<open>auto simp: set_last_def Let_def\<close>)

section \<open>Prepend and adj: the front of the packet\<close>

lemma prepend_result:
  assumes "packet h p ps" "len \<le> data_off (seg_at h p)"
  defines "m \<equiv> seg_at h p"
  defines "m' \<equiv> m\<lparr>data_off := data_off m - len, data_len := data_len m + len, pkt_len := pkt_len m + ucast len\<rparr>"
  shows "rte_pktmbuf_prepend h p len = Some (rte_pktmbuf_mtod m', h(p \<mapsto> m'))"
  using leD [OF assms(2)] packetD(7) [OF assms(1)] unfolding m'_def m_def rte_pktmbuf_prepend_def Let_def
  by (simp add: rte_pktmbuf_headroom_def rte_pktmbuf_mtod_def rte_pktmbuf_mtod_offset_def)

lemma prepend_seg:
  fixes x :: u32
  assumes ok: "seg_ok m" and len: "len \<le> data_off m"
  defines "m' \<equiv> m\<lparr>data_off := data_off m - len, data_len := data_len m + len, pkt_len := x\<rparr>"
  shows "seg_ok m'" "unat (data_len m') = unat (data_len m) + unat len"
    "seg_addrs m' = addr_range (rte_pktmbuf_mtod m') (unat len) @ seg_addrs m"
proof -
  from len have le: "unat len \<le> unat (data_off m)" by (simp add: word_le_nat_alt)
  have off: "unat (data_off m - len) = unat (data_off m) - unat len" using len by (rule unat_sub)
  from ok le unat_u16_less [of "buf_len m"] have "unat (data_len m) + unat len < 2 ^ 16"
    unfolding seg_ok_def by linarith
  then have dl: "unat (data_len m + len) = unat (data_len m) + unat len" by (rule unat_add_u16)
  show "seg_ok m'" using ok le off dl by (simp add: m'_def seg_ok_def)
  show dl': "unat (data_len m') = unat (data_len m) + unat len" using dl by (simp add: m'_def)
  have "rte_pktmbuf_mtod m' + of_nat (unat len) = rte_pktmbuf_mtod m"
    using ucast_sub_u16 [OF len]
    by (simp add: m'_def rte_pktmbuf_mtod_def rte_pktmbuf_mtod_offset_def of_nat_unat_u16)
  then show "seg_addrs m' = addr_range (rte_pktmbuf_mtod m') (unat len) @ seg_addrs m"
    using addr_range_add [of "rte_pktmbuf_mtod m'" "unat len" "unat (data_len m)"]
    by (simp add: seg_addrs_def dl' add.commute)
qed

lemma prepend_packet:
  assumes pk: "packet h p ps"
  shows "if rte_pktmbuf_headroom (seg_at h p) < len then rte_pktmbuf_prepend h p len = Some (0, h)
         else \<exists>a h'. rte_pktmbuf_prepend h p len = Some (a, h') \<and> packet h' p ps \<and>
                pkt_addrs h' ps = addr_range a (unat len) @ pkt_addrs h ps \<and>
                buf_addr (seg_at h' p) = buf_addr (seg_at h p) \<and> (\<forall>q. q \<noteq> p \<longrightarrow> h' q = h q)"
proof (cases "data_off (seg_at h p) < len")
  case True
  then show ?thesis using packetD(7) [OF pk]
    by (simp add: rte_pktmbuf_headroom_def rte_pktmbuf_prepend_def)
next
  case False
  define m where "m = seg_at h p"
  define m' where "m' = m\<lparr>data_off := data_off m - len, data_len := data_len m + len, pkt_len := pkt_len m + ucast len\<rparr>"
  from False have len: "len \<le> data_off m" by (simp add: m_def)
  have ok: "seg_ok m" using packetD(5,10) [OF pk] by (simp add: m_def)
  note seg = prepend_seg [OF ok len, of "pkt_len m + ucast len", folded m'_def]
  from pk obtain rest where ps: "ps = p # rest" "p \<notin> set rest" by (rule packet_split_head)
  have addrs: "pkt_addrs (h(p \<mapsto> m')) ps = addr_range (rte_pktmbuf_mtod m') (unat len) @ pkt_addrs h ps"
    using seg(3) ps by (simp add: m_def)
  have "unat (pkt_len m) + unat len < 2 ^ 32"
    using packet_length_small [OF packet_segments [OF pk], of "h(p \<mapsto> m')"] packetD(12) [OF pk]
    by (simp add: addrs m_def)
  then have "unat (pkt_len m + ucast len) = unat (pkt_len m) + unat len" by (rule unat_add_pkt_len) simp
  then have "unat (pkt_len m') = unat (pkt_len m) + unat len" by (simp add: m'_def)
  then have "packet (h(p \<mapsto> m')) p ps"
    using seg by (intro packet_head [OF pk]) (simp_all add: m_def m'_def)
  with prepend_result [OF pk, of len] addrs False show ?thesis
    by (simp add: m_def m'_def rte_pktmbuf_headroom_def)
qed

text \<open>
  Prepending to a packet either fails for lack of headroom, returning NULL and changing nothing,
  or returns the address of exactly \<open>len\<close> new bytes in front of the data, in the same buffer; the
  packet stays well-formed (the 16- and 32-bit lengths do not wrap) and no other mbuf changes.
\<close>

theorem rte_pktmbuf_prepend_spec:
  assumes pk: "packet h p ps"
  shows "if rte_pktmbuf_headroom (seg_at h p) < len then rte_pktmbuf_prepend h p len = Some (0, h)
         else \<exists>a h'. rte_pktmbuf_prepend h p len = Some (a, h') \<and> packet h' p ps \<and>
                pkt_addrs h' ps = addr_range a (unat len) @ pkt_addrs h ps \<and>
                buf_addr (seg_at h' p) = buf_addr (seg_at h p) \<and> (\<forall>q. q \<noteq> p \<longrightarrow> h' q = h q)"
  by (rule prepend_packet [OF pk])

lemma adj_result:
  assumes "packet h p ps" "len \<le> data_len (seg_at h p)"
  defines "m \<equiv> seg_at h p"
  defines "m' \<equiv> m\<lparr>data_len := data_len m - len, data_off := data_off m + len, pkt_len := pkt_len m - ucast len\<rparr>"
  shows "rte_pktmbuf_adj h p len = Some (rte_pktmbuf_mtod m', h(p \<mapsto> m'))"
  using leD [OF assms(2)] packetD(7) [OF assms(1)] unfolding m'_def m_def rte_pktmbuf_adj_def Let_def
  by (simp add: rte_pktmbuf_mtod_def rte_pktmbuf_mtod_offset_def)

lemma adj_seg:
  fixes x :: u32
  assumes ok: "seg_ok m" and len: "len \<le> data_len m"
  defines "m' \<equiv> m\<lparr>data_len := data_len m - len, data_off := data_off m + len, pkt_len := x\<rparr>"
  shows "seg_ok m'" "unat (data_len m') = unat (data_len m) - unat len"
    "seg_addrs m' = drop (unat len) (seg_addrs m)"
proof -
  from len have le: "unat len \<le> unat (data_len m)" by (simp add: word_le_nat_alt)
  have dl: "unat (data_len m - len) = unat (data_len m) - unat len" using len by (rule unat_sub)
  from ok le unat_u16_less [of "buf_len m"] have small: "unat (data_off m) + unat len < 2 ^ 16"
    unfolding seg_ok_def by linarith
  then have off: "unat (data_off m + len) = unat (data_off m) + unat len" by (rule unat_add_u16)
  show "seg_ok m'" using ok le off dl by (simp add: m'_def seg_ok_def)
  show dl': "unat (data_len m') = unat (data_len m) - unat len" using dl by (simp add: m'_def)
  have "rte_pktmbuf_mtod m' = rte_pktmbuf_mtod m + of_nat (unat len)"
    using ucast_add_u16 [OF small]
    by (simp add: m'_def rte_pktmbuf_mtod_def rte_pktmbuf_mtod_offset_def of_nat_unat_u16 add.assoc)
  then show "seg_addrs m' = drop (unat len) (seg_addrs m)"
    using addr_range_drop [OF le] by (simp add: seg_addrs_def dl')
qed

text \<open>
  Removing bytes at the front either fails because the first segment is shorter, returning NULL
  and changing nothing, or drops exactly the first \<open>len\<close> data bytes of the packet and returns the new
  start of the data; the packet stays well-formed and no other mbuf changes.
\<close>

theorem rte_pktmbuf_adj_spec:
  assumes pk: "packet h p ps"
  shows "if data_len (seg_at h p) < len then rte_pktmbuf_adj h p len = Some (0, h)
         else \<exists>h'. rte_pktmbuf_adj h p len = Some (rte_pktmbuf_mtod (seg_at h' p), h') \<and> packet h' p ps \<and>
                pkt_addrs h' ps = drop (unat len) (pkt_addrs h ps) \<and>
                rte_pktmbuf_mtod (seg_at h' p) = rte_pktmbuf_mtod (seg_at h p) + ucast len \<and>
                (\<forall>q. q \<noteq> p \<longrightarrow> h' q = h q)"
proof (cases "data_len (seg_at h p) < len")
  case True
  then show ?thesis using packetD(7) [OF pk] by (simp add: rte_pktmbuf_adj_def)
next
  case False
  define m where "m = seg_at h p"
  define m' where "m' = m\<lparr>data_len := data_len m - len, data_off := data_off m + len, pkt_len := pkt_len m - ucast len\<rparr>"
  from False have len: "len \<le> data_len m" by (simp add: m_def)
  then have le: "unat len \<le> unat (data_len m)" by (simp add: word_le_nat_alt)
  have ok: "seg_ok m" using packetD(5,10) [OF pk] by (simp add: m_def)
  note seg = adj_seg [OF ok len, of "pkt_len m - ucast len", folded m'_def]
  from pk obtain rest where ps: "ps = p # rest" "p \<notin> set rest" by (rule packet_split_head)
  have addrs: "pkt_addrs (h(p \<mapsto> m')) ps = drop (unat len) (pkt_addrs h ps)"
    using seg(3) ps le by (simp add: m_def)
  have total: "unat (data_len m) \<le> unat (pkt_len m)"
    using packetD(12) [OF pk] ps by (simp add: m_def)
  then have "unat (pkt_len m - ucast len) = unat (pkt_len m) - unat len"
    using le by (intro unat_sub_pkt_len) simp
  then have "unat (pkt_len m') = unat (pkt_len m) - unat len" by (simp add: m'_def)
  then have "packet (h(p \<mapsto> m')) p ps"
    using seg le total by (intro packet_head [OF pk]) (simp_all add: m_def m'_def)
  moreover have "rte_pktmbuf_mtod m' = rte_pktmbuf_mtod m + ucast len"
    using ok le unat_u16_less [of "buf_len m"] ucast_add_u16 [of "data_off m" len]
    by (simp add: m'_def rte_pktmbuf_mtod_def rte_pktmbuf_mtod_offset_def seg_ok_def)
  ultimately show ?thesis using adj_result [OF pk len [unfolded m_def]] addrs False
    by (simp add: m_def m'_def)
qed

text \<open>
  Prepending and then removing the same number of bytes gives back the heap as it was, every
  field of every mbuf included.
\<close>

theorem prepend_then_adj:
  assumes "packet h p ps" "\<not> rte_pktmbuf_headroom (seg_at h p) < len"
  shows "\<exists>a h'. rte_pktmbuf_prepend h p len = Some (a, h') \<and>
           rte_pktmbuf_adj h' p len = Some (rte_pktmbuf_mtod (seg_at h p), h)"
proof -
  define m where "m = seg_at h p"
  define m' where "m' = m\<lparr>data_off := data_off m - len, data_len := data_len m + len, pkt_len := pkt_len m + ucast len\<rparr>"
  have len: "len \<le> data_off m" using assms(2) by (simp add: rte_pktmbuf_headroom_def m_def)
  have pre: "rte_pktmbuf_prepend h p len = Some (rte_pktmbuf_mtod m', h(p \<mapsto> m'))"
    using prepend_result [OF assms(1), of len] len by (simp add: m_def m'_def)
  have ok: "seg_ok m" using packetD(5,10) [OF assms(1)] by (simp add: m_def)
  have "unat (data_len m') = unat (data_len m) + unat len"
    using prepend_seg(2) [OF ok len, of "pkt_len m + ucast len"] by (simp add: m'_def)
  then have "\<not> data_len m' < len" by (simp add: word_less_nat_alt)
  moreover have "h p = Some m" using packetD(7) [OF assms(1)] by (simp add: m_def)
  ultimately have "rte_pktmbuf_adj (h(p \<mapsto> m')) p len = Some (rte_pktmbuf_mtod m, h)"
    unfolding rte_pktmbuf_adj_def
    by (simp add: m'_def rte_pktmbuf_mtod_def rte_pktmbuf_mtod_offset_def fun_upd_idem)
  with pre show ?thesis by (auto simp: m_def)
qed

section \<open>Append and trim: the end of the packet\<close>

lemma append_result:
  assumes pk: "packet h p ps" and len: "len \<le> rte_pktmbuf_tailroom (seg_at h l)" and l: "l = last ps"
  defines "ml \<equiv> seg_at h l"
  shows "rte_pktmbuf_append h p len =
     Some (rte_pktmbuf_mtod_offset ml (ucast (data_len ml)),
           set_last h p l (ml\<lparr>data_len := data_len ml + len\<rparr>)
             (pkt_len (seg_at h p) + ucast len))"
  using leD [OF len] packetD(7,8,9) [OF pk] l unfolding ml_def rte_pktmbuf_append_def
  by (cases "l = p") (simp_all add: set_last_def Let_def rte_pktmbuf_mtod_offset_def)

lemma append_seg:
  assumes ok: "seg_ok m" and len: "len \<le> rte_pktmbuf_tailroom m"
  defines "m' \<equiv> m\<lparr>data_len := data_len m + len\<rparr>"
  shows "seg_ok m'" "unat (data_len m') = unat (data_len m) + unat len"
    "seg_addrs m' = seg_addrs m @ addr_range (rte_pktmbuf_mtod_offset m (ucast (data_len m))) (unat len)"
proof -
  from len have le: "unat len \<le> unat (buf_len m) - unat (data_off m) - unat (data_len m)"
    using seg_ok_room [OF ok] by (simp add: word_le_nat_alt)
  then have "unat (data_len m) + unat len < 2 ^ 16"
    using ok unat_u16_less [of "buf_len m"] unfolding seg_ok_def by linarith
  then have dl: "unat (data_len m + len) = unat (data_len m) + unat len" by (rule unat_add_u16)
  show "seg_ok m'" using ok le dl by (simp add: m'_def seg_ok_def)
  show dl': "unat (data_len m') = unat (data_len m) + unat len" using dl by (simp add: m'_def)
  show "seg_addrs m' = seg_addrs m @ addr_range (rte_pktmbuf_mtod_offset m (ucast (data_len m))) (unat len)"
    by (simp add: seg_addrs_def dl' addr_range_add)
      (simp add: m'_def rte_pktmbuf_mtod_def rte_pktmbuf_mtod_offset_def of_nat_unat_u16)
qed

lemma append_packet:
  assumes pk: "packet h p ps"
  shows "if rte_pktmbuf_tailroom (seg_at h (last ps)) < len then rte_pktmbuf_append h p len = Some (0, h)
         else \<exists>a h'. rte_pktmbuf_append h p len = Some (a, h') \<and> packet h' p ps \<and>
                pkt_addrs h' ps = pkt_addrs h ps @ addr_range a (unat len) \<and>
                (\<forall>q. q \<noteq> p \<longrightarrow> q \<noteq> last ps \<longrightarrow> h' q = h q)"
proof (cases "rte_pktmbuf_tailroom (seg_at h (last ps)) < len")
  case True
  then show ?thesis using packetD(8,9) [OF pk] by (simp add: rte_pktmbuf_append_def)
next
  case False
  define ml where "ml = seg_at h (last ps)"
  define ml' where "ml' = ml\<lparr>data_len := data_len ml + len\<rparr>"
  define n where "n = pkt_len (seg_at h p) + ucast len"
  from False have len: "len \<le> rte_pktmbuf_tailroom ml" by (simp add: ml_def)
  have ok: "seg_ok ml" using packetD(6,10) [OF pk] by (simp add: ml_def)
  note seg = append_seg [OF ok len, folded ml'_def]
  let ?a = "rte_pktmbuf_mtod_offset ml (ucast (data_len ml))"
  let ?h = "set_last h p (last ps) ml' n"
  from pk obtain init where ps: "ps = init @ [last ps]" "last ps \<notin> set init" by (rule packet_split_last)
  have "pkt_addrs h ps = pkt_addrs h init @ seg_addrs ml" by (subst ps(1)) (simp add: ml_def)
  then have addrs: "pkt_addrs ?h ps = pkt_addrs h ps @ addr_range ?a (unat len)"
    using pkt_addrs_set_last [OF ps, of h p ml' n] seg(3) by simp
  have "unat (pkt_len (seg_at h p)) + unat len < 2 ^ 32"
    using packet_length_small [OF packet_segments [OF pk], of ?h] packetD(12) [OF pk] by (simp add: addrs)
  then have "unat n = unat (pkt_len (seg_at h p)) + unat len"
    unfolding n_def by (rule unat_add_pkt_len) simp
  then have "packet ?h p ps"
    using seg by (intro packet_set_last [OF pk refl]) (simp_all add: ml_def ml'_def)
  moreover have "rte_pktmbuf_append h p len = Some (?a, ?h)"
    using append_result [OF pk _ refl, of len] len by (simp add: ml_def ml'_def n_def)
  moreover have "\<forall>q. q \<noteq> p \<longrightarrow> q \<noteq> last ps \<longrightarrow> ?h q = h q" by (simp add: set_last_def Let_def)
  ultimately show ?thesis using addrs False by auto
qed

text \<open>
  Appending to a packet either fails for lack of tailroom in its last segment, returning NULL
  and changing nothing, or returns the address of exactly \<open>len\<close> new bytes behind the data of the
  packet, inside the last segment's buffer; the packet stays well-formed and no mbuf other than
  the first and the last changes.
\<close>

theorem rte_pktmbuf_append_spec:
  assumes pk: "packet h p ps"
  shows "if rte_pktmbuf_tailroom (seg_at h (last ps)) < len then rte_pktmbuf_append h p len = Some (0, h)
         else \<exists>a h'. rte_pktmbuf_append h p len = Some (a, h') \<and> packet h' p ps \<and>
                pkt_addrs h' ps = pkt_addrs h ps @ addr_range a (unat len) \<and>
                (\<forall>q. q \<noteq> p \<longrightarrow> q \<noteq> last ps \<longrightarrow> h' q = h q)"
  by (rule append_packet [OF pk])

text \<open>
  Trimming a packet either fails because its last segment is shorter, returning -1 and changing
  nothing, or returns 0 and drops exactly the last \<open>len\<close> data bytes; the packet stays well-formed.
\<close>

theorem rte_pktmbuf_trim_spec:
  assumes pk: "packet h p ps"
  shows "if data_len (seg_at h (last ps)) < len then rte_pktmbuf_trim h p len = Some (- 1, h)
         else \<exists>h'. rte_pktmbuf_trim h p len = Some (0, h') \<and> packet h' p ps \<and>
                pkt_addrs h' ps = take (length (pkt_addrs h ps) - unat len) (pkt_addrs h ps) \<and>
                (\<forall>q. q \<noteq> p \<longrightarrow> q \<noteq> last ps \<longrightarrow> h' q = h q)"
proof (cases "data_len (seg_at h (last ps)) < len")
  case True
  then show ?thesis using packetD(8,9) [OF pk] by (simp add: rte_pktmbuf_trim_def)
next
  case False
  define ml where "ml = seg_at h (last ps)"
  define ml' where "ml' = ml\<lparr>data_len := data_len ml - len\<rparr>"
  define n where "n = pkt_len (seg_at h p) - ucast len"
  from False have len: "len \<le> data_len ml" by (simp add: ml_def)
  then have le: "unat len \<le> unat (data_len ml)" by (simp add: word_le_nat_alt)
  have ok: "seg_ok ml" using packetD(6,10) [OF pk] by (simp add: ml_def)
  have dl: "unat (data_len ml') = unat (data_len ml) - unat len"
    using len by (simp add: ml'_def unat_sub)
  have "seg_ok ml'" using ok dl by (simp add: ml'_def seg_ok_def)
  have seg: "seg_addrs ml' = take (unat (data_len ml) - unat len) (seg_addrs ml)"
    by (simp add: seg_addrs_def dl addr_range_take)
      (simp add: ml'_def rte_pktmbuf_mtod_def rte_pktmbuf_mtod_offset_def)
  let ?h = "set_last h p (last ps) ml' n"
  from pk obtain init where ps: "ps = init @ [last ps]" "last ps \<notin> set init" by (rule packet_split_last)
  have old: "pkt_addrs h ps = pkt_addrs h init @ seg_addrs ml" by (subst ps(1)) (simp add: ml_def)
  then have addrs: "pkt_addrs ?h ps = take (length (pkt_addrs h ps) - unat len) (pkt_addrs h ps)"
    using pkt_addrs_set_last [OF ps, of h p ml' n] seg le by simp
  have total: "unat (data_len ml) \<le> unat (pkt_len (seg_at h p))"
    using packetD(12) [OF pk] old by simp
  then have "unat n = unat (pkt_len (seg_at h p)) - unat len"
    unfolding n_def using le by (intro unat_sub_pkt_len) simp
  then have "packet ?h p ps"
    using dl le total \<open>seg_ok ml'\<close>
    by (intro packet_set_last [OF pk refl]) (simp_all add: ml_def ml'_def)
  moreover have "rte_pktmbuf_trim h p len = Some (0, ?h)"
    using False packetD(7,8,9) [OF pk] unfolding rte_pktmbuf_trim_def
    by (cases "last ps = p") (simp_all add: set_last_def Let_def ml_def ml'_def n_def)
  moreover have "\<forall>q. q \<noteq> p \<longrightarrow> q \<noteq> last ps \<longrightarrow> ?h q = h q" by (simp add: set_last_def Let_def)
  ultimately show ?thesis using addrs False by auto
qed

section \<open>Read\<close>

text \<open>
  C35: A read that lies inside the first segment returns the address of exactly the requested bytes
  of the packet, without the user's buffer; one that reaches past the first segment is left to
  \<open>__rte_pktmbuf_read\<close>.  Both as long as \<open>off + len\<close> does not exceed 32 bits.
\<close>

theorem rte_pktmbuf_read_spec:
  assumes pk: "packet h p ps" and "unat off + unat len < 2 ^ 32"
  shows "if unat off + unat len \<le> unat (data_len (seg_at h p))
         then \<exists>a. rte_pktmbuf_read slow h p off len buf = Some a \<and>
                addr_range a (unat len) = take (unat len) (drop (unat off) (pkt_addrs h ps))
         else rte_pktmbuf_read slow h p off len buf = Some (slow p off len buf)"
proof -
  define m where "m = seg_at h p"
  have m: "h p = Some m" using packetD(7) [OF pk] by (simp add: m_def)
  have sum: "unat (off + len) = unat off + unat len" using assms(2) by (simp add: unat_word_ariths)
  show ?thesis
  proof (cases "unat off + unat len \<le> unat (data_len m)")
    case True
    have off: "(of_nat (unat off) :: u64) = ucast off"
    proof -
      have "unat off < 2 ^ 32" using assms(2) by simp
      then show ?thesis by (simp add: word_unat_eq_iff unsigned_ucast_eq unsigned_of_nat)
    qed
    from pk obtain rest where "ps = p # rest" by (rule packet_split_head)
    then have "take (unat len) (drop (unat off) (pkt_addrs h ps)) =
        take (unat len) (drop (unat off) (addr_range (rte_pktmbuf_mtod m) (unat (data_len m))))"
      using True by (simp add: seg_addrs_def m_def)
    also have "\<dots> = addr_range (rte_pktmbuf_mtod_offset m (ucast off)) (unat len)"
      using True by (simp add: addr_range_drop addr_range_take off rte_pktmbuf_mtod_def
          rte_pktmbuf_mtod_offset_def)
    finally show ?thesis using True m sum
      by (simp add: rte_pktmbuf_read_def word_le_nat_alt m_def)
  next
    case False
    then show ?thesis using m sum by (simp add: rte_pktmbuf_read_def word_le_nat_alt m_def)
  qed
qed

text \<open>
  C37: When \<open>off + len\<close> exceeds 32 bits the check is made on the wrapped sum: an offset up to 4 GB past
  a packet can then be declared to lie in its first segment, and the function returns a pointer
  outside the segment instead of NULL.
\<close>

theorem rte_pktmbuf_read_wraps:
  assumes m: "h p = Some m" and wrap: "2 ^ 32 \<le> unat off + unat len"
    "unat off + unat len - 2 ^ 32 \<le> unat (data_len m)" and out: "unat (data_len m) < unat off"
  shows "rte_pktmbuf_read slow h p off len buf = Some (rte_pktmbuf_mtod_offset m (ucast off)) \<and>
         rte_pktmbuf_mtod_offset m (ucast off) \<notin> set (seg_addrs m)"
proof
  have bound: "unat off < 2 ^ 32" "unat len < 2 ^ 32"
    using unsigned_less [of off] unsigned_less [of len] by simp_all
  have "unat (off + len) = (unat off + unat len) mod 2 ^ 32" by (simp add: unat_word_ariths)
  also have "\<dots> = (unat off + unat len - 2 ^ 32) mod 2 ^ 32" using wrap(1) by (rule le_mod_geq)
  also have "\<dots> = unat off + unat len - 2 ^ 32" using bound by (intro mod_less) linarith
  finally have "off + len \<le> ucast (data_len m)" using wrap(2) by (simp add: word_le_nat_alt)
  with m show "rte_pktmbuf_read slow h p off len buf = Some (rte_pktmbuf_mtod_offset m (ucast off))"
    by (simp add: rte_pktmbuf_read_def)
  have off: "unat (ucast off :: u64) = unat off"
    using bound(1) by (simp add: unsigned_ucast_eq take_bit_nat_eq_self_iff)
  have "(ucast off :: u64) \<noteq> of_nat i" if "i < unat (data_len m)" for i
  proof
    assume "(ucast off :: u64) = of_nat i"
    then have "unat off = take_bit 64 i" using off by (simp add: unsigned_of_nat)
    also have "\<dots> = i"
      using that unat_u16_less [of "data_len m"] by (simp add: take_bit_nat_eq_self_iff)
    finally show False using that out by simp
  qed
  then have ne: "rte_pktmbuf_mtod_offset m (ucast off) \<noteq> rte_pktmbuf_mtod m + of_nat i"
    if "i < unat (data_len m)" for i
    using that unfolding rte_pktmbuf_mtod_def rte_pktmbuf_mtod_offset_def by simp
  show "rte_pktmbuf_mtod_offset m (ucast off) \<notin> set (seg_addrs m)"
  proof
    assume "rte_pktmbuf_mtod_offset m (ucast off) \<in> set (seg_addrs m)"
    then obtain i where "i < unat (data_len m)"
      "rte_pktmbuf_mtod_offset m (ucast off) = rte_pktmbuf_mtod m + of_nat i"
      unfolding seg_addrs_def addr_range_def by auto
    with ne show False by blast
  qed
qed

section \<open>Chain\<close>

lemma chain_result:
  assumes pk: "packet h p ps" and pk2: "packet h q qs" and dis: "set ps \<inter> set qs = {}"
    and small: "length ps + length qs \<le> 65535"
  defines "l \<equiv> last ps"
  defines "h1 \<equiv> h(l \<mapsto> (seg_at h l)\<lparr>mb_next := q\<rparr>)"
  defines "h2 \<equiv> h1(p \<mapsto> (seg_at h1 p)\<lparr>nb_segs := nb_segs (seg_at h p) + nb_segs (seg_at h q),
                              pkt_len := pkt_len (seg_at h p) + pkt_len (seg_at h q)\<rparr>)"
  defines "h3 \<equiv> h2(q \<mapsto> (seg_at h q)\<lparr>pkt_len := ucast (data_len (seg_at h q))\<rparr>)"
  shows "rte_pktmbuf_chain h p q = Some (0, h3)"
proof -
  have qs: "q \<notin> set ps" "q \<noteq> l" "p \<noteq> q"
    using dis packetD(5,6) [OF pk] packetD(5) [OF pk2] unfolding l_def by blast+
  obtain mp ml mq where at: "h p = Some mp" "h l = Some ml" "h q = Some mq"
    using packetD(7,8) [OF pk] packetD(7) [OF pk2] unfolding l_def by blast
  have last: "rte_pktmbuf_lastseg h p = Some l" using packetD(9) [OF pk] by (simp add: l_def)
  have few: "\<not> RTE_MBUF_MAX_NB_SEGS < unat (nb_segs mp) + unat (nb_segs mq)"
    using packetD(11) [OF pk] packetD(11) [OF pk2] at small
    by (simp add: RTE_MBUF_MAX_NB_SEGS_def seg_at_def)
  show ?thesis
    using qs at last few unfolding rte_pktmbuf_chain_def h3_def h2_def h1_def
    by (cases "p = l") (simp_all add: seg_at_def Let_def)
qed

lemma chain_packet:
  assumes pk: "packet h p ps" and pk2: "packet h q qs" and dis: "set ps \<inter> set qs = {}"
  shows "if 65535 < length ps + length qs then rte_pktmbuf_chain h p q = Some (- EOVERFLOW, h)
         else \<exists>h'. rte_pktmbuf_chain h p q = Some (0, h') \<and> packet h' p (ps @ qs) \<and>
                pkt_addrs h' (ps @ qs) = pkt_addrs h ps @ pkt_addrs h qs \<and>
                (\<forall>r. r \<notin> {p, last ps, q} \<longrightarrow> h' r = h r)"
proof (cases "65535 < length ps + length qs")
  case True
  then show ?thesis using packetD(7,11) [OF pk] packetD(7,11) [OF pk2]
    by (simp add: rte_pktmbuf_chain_def RTE_MBUF_MAX_NB_SEGS_def)
next
  case False
  define l where "l = last ps"
  define h1 where "h1 = h(l \<mapsto> (seg_at h l)\<lparr>mb_next := q\<rparr>)"
  define h2 where "h2 = h1(p \<mapsto> (seg_at h1 p)\<lparr>nb_segs := nb_segs (seg_at h p) + nb_segs (seg_at h q),
                              pkt_len := pkt_len (seg_at h p) + pkt_len (seg_at h q)\<rparr>)"
  define h3 where "h3 = h2(q \<mapsto> (seg_at h q)\<lparr>pkt_len := ucast (data_len (seg_at h q))\<rparr>)"
  have res: "rte_pktmbuf_chain h p q = Some (0, h3)"
    using chain_result [OF pk pk2 dis] False by (simp add: l_def h1_def h2_def h3_def)
  have mem: "p \<in> set ps" "l \<in> set ps" "q \<in> set qs"
    using packetD(5,6) [OF pk] packetD(5) [OF pk2] by (simp_all add: l_def)
  then have ne: "q \<noteq> l" "p \<noteq> q" "l \<notin> set qs" "p \<notin> set qs" "q \<notin> set ps" using dis by auto
  have seg3: "seg_at h3 r = (if r = q then (seg_at h q)\<lparr>pkt_len := ucast (data_len (seg_at h q))\<rparr>
      else if r = p then (seg_at h1 p)\<lparr>nb_segs := nb_segs (seg_at h p) + nb_segs (seg_at h q),
                              pkt_len := pkt_len (seg_at h p) + pkt_len (seg_at h q)\<rparr>
      else seg_at h1 r)" for r
    by (simp add: h3_def h2_def)
  have seg1: "seg_at h1 r = (if r = l then (seg_at h l)\<lparr>mb_next := q\<rparr> else seg_at h r)" for r
    by (simp add: h1_def)
  have same: "seg_addrs (seg_at h3 r) = seg_addrs (seg_at h r)"
    "seg_ok (seg_at h3 r) = seg_ok (seg_at h r)" for r
    by (simp_all add: seg3 seg1 seg_ok_def)
  have addrs: "pkt_addrs h3 rs = pkt_addrs h rs" for rs
    by (rule pkt_addrs_cong) (simp add: same)
  have "seg_list h1 p (ps @ qs)"
    unfolding h1_def l_def using packetD(1,2,3) [OF pk] packetD(1) [OF pk2] ne(3)
    by (intro seg_list_append) (simp_all add: l_def)
  moreover have "map_option mb_next (h3 r) = map_option mb_next (h1 r)" if "r \<in> set (ps @ qs)" for r
  proof -
    have "h1 r = Some (seg_at h1 r)" using that seg_list_in_heap calculation by blast
    then show ?thesis using ne by (simp add: h3_def h2_def seg1)
  qed
  ultimately have "seg_list h3 p (ps @ qs)" by (metis (no_types, lifting) seg_list_cong)
  moreover have "unat (nb_segs (seg_at h3 p)) = length (ps @ qs)"
    using packetD(11) [OF pk] packetD(11) [OF pk2] False ne by (simp add: seg3 unat_add_u16)
  moreover have "unat (pkt_len (seg_at h3 p)) = length (pkt_addrs h3 (ps @ qs))"
  proof -
    have "length (pkt_addrs h (ps @ qs)) < 2 ^ 32" using False by (intro packet_length_small) simp
    then have "unat (pkt_len (seg_at h p)) + unat (pkt_len (seg_at h q)) < 2 ^ 32"
      using packetD(12) [OF pk] packetD(12) [OF pk2] by simp
    then have "unat (pkt_len (seg_at h p) + pkt_len (seg_at h q)) =
        unat (pkt_len (seg_at h p)) + unat (pkt_len (seg_at h q))" by (simp add: unat_word_ariths)
    then show ?thesis
      using packetD(12) [OF pk] packetD(12) [OF pk2] ne unfolding addrs by (simp add: seg3)
  qed
  moreover have "\<forall>r\<in>set (ps @ qs). seg_ok (seg_at h3 r)"
    using packetD(10) [OF pk] packetD(10) [OF pk2] by (auto simp: same)
  moreover have "distinct (ps @ qs)" using packetD(3) [OF pk] packetD(3) [OF pk2] dis by simp
  ultimately have "packet h3 p (ps @ qs)" using packetD(2) [OF pk] by (simp add: packet_def)
  moreover have "\<forall>r. r \<notin> {p, last ps, q} \<longrightarrow> h3 r = h r" by (simp add: h3_def h2_def h1_def l_def)
  ultimately show ?thesis using res addrs False by simp
qed

text \<open>
  C33: Chaining two well-formed packets either fails with \<open>-EOVERFLOW\<close> when together they have more
  than 65535 segments, changing nothing, or makes one well-formed packet whose data is that of the
  first followed by that of the second; segment count and length do not wrap.
\<close>

theorem rte_pktmbuf_chain_spec:
  assumes pk: "packet h p ps" and pk2: "packet h q qs" and dis: "set ps \<inter> set qs = {}"
  shows "if 65535 < length ps + length qs then rte_pktmbuf_chain h p q = Some (- EOVERFLOW, h)
         else \<exists>h'. rte_pktmbuf_chain h p q = Some (0, h') \<and> packet h' p (ps @ qs) \<and>
                pkt_addrs h' (ps @ qs) = pkt_addrs h ps @ pkt_addrs h qs \<and>
                (\<forall>r. r \<notin> {p, last ps, q} \<longrightarrow> h' r = h r)"
  by (rule chain_packet [OF assms])

section \<open>A concrete heap\<close>

text \<open>A packet of two segments of 60 and 40 bytes, and one of a single segment of 7 bytes.\<close>

definition demo_seg :: "ptr \<Rightarrow> u16 \<Rightarrow> rte_mbuf" where
  "demo_seg a n = zero_mbuf\<lparr>buf_addr := a + 128, buf_len := 2176, data_off := 128, data_len := n,
                            pkt_len := ucast n\<rparr>"

definition demo_heap :: heap where
  "demo_heap = [0x1000 \<mapsto> (demo_seg 0x1000 60)\<lparr>nb_segs := 2, pkt_len := 100, mb_next := 0x3000\<rparr>,
                0x3000 \<mapsto> demo_seg 0x3000 40, 0x5000 \<mapsto> demo_seg 0x5000 7]"

lemmas demo_defs = demo_heap_def demo_seg_def zero_mbuf_def

lemma demo_packets: "packet demo_heap 0x1000 [0x1000, 0x3000]" "packet demo_heap 0x5000 [0x5000]"
  by (simp_all add: packet_def demo_defs seg_at_def seg_ok_def unsigned_ucast_eq)

theorem rte_pktmbuf_prepend_spec_witness:
  "(\<exists>a h'. rte_pktmbuf_prepend demo_heap 0x1000 14 = Some (a, h') \<and> packet h' 0x1000 [0x1000, 0x3000] \<and>
      pkt_addrs h' [0x1000, 0x3000] = addr_range a 14 @ pkt_addrs demo_heap [0x1000, 0x3000]) \<and>
   rte_pktmbuf_prepend demo_heap 0x1000 129 = Some (0, demo_heap)"
  using rte_pktmbuf_prepend_spec [OF demo_packets(1), of 14]
    rte_pktmbuf_prepend_spec [OF demo_packets(1), of 129]
  by (auto simp: rte_pktmbuf_headroom_def demo_defs seg_at_def)

theorem rte_pktmbuf_adj_spec_witness:
  "(\<exists>h'. rte_pktmbuf_adj demo_heap 0x1000 14 = Some (rte_pktmbuf_mtod (seg_at h' 0x1000), h') \<and>
      packet h' 0x1000 [0x1000, 0x3000] \<and>
      pkt_addrs h' [0x1000, 0x3000] = drop 14 (pkt_addrs demo_heap [0x1000, 0x3000])) \<and>
   rte_pktmbuf_adj demo_heap 0x1000 61 = Some (0, demo_heap)"
  using rte_pktmbuf_adj_spec [OF demo_packets(1), of 14] rte_pktmbuf_adj_spec [OF demo_packets(1), of 61]
  by (simp add: demo_defs seg_at_def) blast

theorem prepend_then_adj_witness:
  "\<exists>a h'. rte_pktmbuf_prepend demo_heap 0x1000 14 = Some (a, h') \<and>
     rte_pktmbuf_adj h' 0x1000 14 = Some (rte_pktmbuf_mtod (seg_at demo_heap 0x1000), demo_heap)"
  by (rule prepend_then_adj [OF demo_packets(1)])
    (simp add: rte_pktmbuf_headroom_def demo_defs seg_at_def)

theorem rte_pktmbuf_append_spec_witness:
  "(\<exists>a h'. rte_pktmbuf_append demo_heap 0x1000 100 = Some (a, h') \<and> packet h' 0x1000 [0x1000, 0x3000] \<and>
      pkt_addrs h' [0x1000, 0x3000] = pkt_addrs demo_heap [0x1000, 0x3000] @ addr_range a 100) \<and>
   rte_pktmbuf_append demo_heap 0x1000 2009 = Some (0, demo_heap)"
  using rte_pktmbuf_append_spec [OF demo_packets(1), of 100]
    rte_pktmbuf_append_spec [OF demo_packets(1), of 2009]
  by (simp add: rte_pktmbuf_tailroom_def rte_pktmbuf_headroom_def demo_defs seg_at_def) blast

theorem rte_pktmbuf_trim_spec_witness:
  "(\<exists>h'. rte_pktmbuf_trim demo_heap 0x1000 40 = Some (0, h') \<and> packet h' 0x1000 [0x1000, 0x3000] \<and>
      pkt_addrs h' [0x1000, 0x3000] = take 60 (pkt_addrs demo_heap [0x1000, 0x3000])) \<and>
   rte_pktmbuf_trim demo_heap 0x1000 41 = Some (- 1, demo_heap)"
  using rte_pktmbuf_trim_spec [OF demo_packets(1), of 40] rte_pktmbuf_trim_spec [OF demo_packets(1), of 41]
    packetD(12) [OF demo_packets(1)]
  by (simp add: demo_defs seg_at_def) blast

theorem rte_pktmbuf_read_spec_witness:
  "\<exists>a. rte_pktmbuf_read (\<lambda>p off len buf. buf) demo_heap 0x1000 20 40 0x9000 = Some a \<and>
     addr_range a 40 = take 40 (drop 20 (pkt_addrs demo_heap [0x1000, 0x3000]))"
  using rte_pktmbuf_read_spec [OF demo_packets(1), where off = 20 and len = 40
      and slow = "\<lambda>p off len buf. buf" and buf = "0x9000"]
  by (simp add: demo_defs seg_at_def)

theorem rte_pktmbuf_read_wraps_witness:
  "rte_pktmbuf_read (\<lambda>p off len buf. 0) demo_heap 0x5000 0xFFFFFFFF 2 0x9000 = Some 0x1000050FF \<and>
   0x1000050FF \<notin> set (seg_addrs (demo_seg 0x5000 7))"
proof -
  have "demo_heap 0x5000 = Some (demo_seg 0x5000 7)" by (simp add: demo_heap_def)
  from rte_pktmbuf_read_wraps [where h = demo_heap, OF this, where off = "0xFFFFFFFF" and len = 2
      and slow = "\<lambda>p off len buf. 0" and buf = "0x9000"]
  show ?thesis by (simp add: demo_seg_def zero_mbuf_def rte_pktmbuf_mtod_offset_def)
qed

theorem rte_pktmbuf_chain_spec_witness:
  "\<exists>h'. rte_pktmbuf_chain demo_heap 0x1000 0x5000 = Some (0, h') \<and>
     packet h' 0x1000 [0x1000, 0x3000, 0x5000] \<and>
     pkt_addrs h' [0x1000, 0x3000, 0x5000] =
       pkt_addrs demo_heap [0x1000, 0x3000] @ pkt_addrs demo_heap [0x5000]"
  using rte_pktmbuf_chain_spec [OF demo_packets] by auto

end
