(* ===== verification/Mbuf_Edit.thy ===== *)
theory Mbuf_Edit
  imports Mbuf_Packet
begin

text \<open>
  Sequences of the operations by which a packet of \<open>src/src/ext/rte_mbuf.c\<close> is edited at its two ends.
  Abstractly a segment is its buffer cut in three, the free bytes in front of the data, the data and the free bytes
  behind it, and an operation moves one of the two cuts of the first or of the last segment, or
  refuses when there are not enough bytes to move it over.
\<close>

datatype edit = Prepend u16 | Append u16 | Adj u16 | Trim u16

fun do_edit :: "heap \<Rightarrow> ptr \<Rightarrow> edit \<Rightarrow> heap option" where
  "do_edit h p (Prepend len) = map_option snd (rte_pktmbuf_prepend h p len)"
| "do_edit h p (Append len) = map_option snd (rte_pktmbuf_append h p len)"
| "do_edit h p (Adj len) = map_option snd (rte_pktmbuf_adj h p len)"
| "do_edit h p (Trim len) = map_option snd (rte_pktmbuf_trim h p len)"

fun run_edits :: "heap \<Rightarrow> ptr \<Rightarrow> edit list \<Rightarrow> heap option" where
  "run_edits h p [] = Some h"
| "run_edits h p (e # es) = do { h \<leftarrow> do_edit h p e; run_edits h p es }"

section \<open>The abstract packet: buffers cut in three\<close>

record 'a seg_view =
  front :: "'a list"
  bytes :: "'a list"
  rest :: "'a list"

definition take_front :: "nat \<Rightarrow> 'a seg_view \<Rightarrow> 'a seg_view" where
  "take_front n s =
    (if length (front s) < n then s
     else let k = length (front s) - n in s\<lparr>front := take k (front s), bytes := drop k (front s) @ bytes s\<rparr>)"

definition give_front :: "nat \<Rightarrow> 'a seg_view \<Rightarrow> 'a seg_view" where
  "give_front n s =
    (if length (bytes s) < n then s
     else s\<lparr>front := front s @ take n (bytes s), bytes := drop n (bytes s)\<rparr>)"

definition take_rest :: "nat \<Rightarrow> 'a seg_view \<Rightarrow> 'a seg_view" where
  "take_rest n s =
    (if length (rest s) < n then s
     else s\<lparr>bytes := bytes s @ take n (rest s), rest := drop n (rest s)\<rparr>)"

definition give_rest :: "nat \<Rightarrow> 'a seg_view \<Rightarrow> 'a seg_view" where
  "give_rest n s =
    (if length (bytes s) < n then s
     else let k = length (bytes s) - n in s\<lparr>bytes := take k (bytes s), rest := drop k (bytes s) @ rest s\<rparr>)"

definition change :: "nat \<Rightarrow> ('a \<Rightarrow> 'a) \<Rightarrow> 'a list \<Rightarrow> 'a list" where
  "change i f xs = xs[i := f (xs ! i)]"

text \<open>The front operations work on the first segment, the others on the last one.\<close>

fun edit_views :: "edit \<Rightarrow> 'a seg_view list \<Rightarrow> 'a seg_view list" where
  "edit_views (Prepend len) vs = change 0 (take_front (unat len)) vs"
| "edit_views (Append len) vs = change (length vs - 1) (take_rest (unat len)) vs"
| "edit_views (Adj len) vs = change 0 (give_front (unat len)) vs"
| "edit_views (Trim len) vs = change (length vs - 1) (give_rest (unat len)) vs"

definition buffer_bytes :: "'a seg_view \<Rightarrow> 'a list" where
  "buffer_bytes s = front s @ bytes s @ rest s"

lemma cuts_keep_buffer:
  "buffer_bytes (take_front n s) = buffer_bytes s" "buffer_bytes (give_front n s) = buffer_bytes s"
  "buffer_bytes (take_rest n s) = buffer_bytes s" "buffer_bytes (give_rest n s) = buffer_bytes s"
  by (simp_all add: buffer_bytes_def take_front_def give_front_def take_rest_def give_rest_def Let_def)

lemma change_keeps: "(\<And>x. g (f x) = g x) \<Longrightarrow> map g (change i f xs) = map g xs"
  by (cases "i < length xs") (simp_all add: change_def map_update list_update_same_conv list_update_beyond)

lemma edit_views_keep_buffers: "map buffer_bytes (edit_views e vs) = map buffer_bytes vs"
  by (cases e) (simp_all add: change_keeps cuts_keep_buffer)

section \<open>The view of a segment and of a packet\<close>

definition cut_at :: "'a list \<Rightarrow> nat \<Rightarrow> nat \<Rightarrow> 'a seg_view" where
  "cut_at b i n = \<lparr>front = take i b, bytes = take n (drop i b), rest = drop (i + n) b\<rparr>"

definition seg_view :: "rte_mbuf \<Rightarrow> ptr seg_view" where
  "seg_view m = cut_at (addr_range (buf_addr m) (unat (buf_len m))) (unat (data_off m)) (unat (data_len m))"

definition views :: "heap \<Rightarrow> ptr list \<Rightarrow> ptr seg_view list" where
  "views h ps = map (\<lambda>p. seg_view (seg_at h p)) ps"

lemma seg_view_simps [simp]:
  "seg_view (m\<lparr>pkt_len := x\<rparr>) = seg_view m"
  by (simp add: seg_view_def)

lemma cut_append:
  "cut_at (xs @ ys @ zs) (length xs) (length ys) = \<lparr>front = xs, bytes = ys, rest = zs\<rparr>"
  by (simp add: cut_at_def)

lemma cut_split:
  assumes "i + n \<le> length b"
  obtains xs ys zs where "b = xs @ ys @ zs" "i = length xs" "n = length ys"
  using assms by (intro that [of "take i b" "take n (drop i b)" "drop n (drop i b)"])
    (simp_all del: drop_drop)

lemma take_drop_append [simp]: "take k xs @ drop k xs @ ys = xs @ ys"
  by (simp flip: append_assoc)

text \<open>Moving a cut is recutting the buffer.\<close>

lemma cut_moves:
  assumes "i + n \<le> length b"
  shows "k \<le> i \<Longrightarrow> cut_at b (i - k) (n + k) = take_front k (cut_at b i n)"
    "k \<le> n \<Longrightarrow> cut_at b (i + k) (n - k) = give_front k (cut_at b i n)"
    "i + n + k \<le> length b \<Longrightarrow> cut_at b i (n + k) = take_rest k (cut_at b i n)"
    "k \<le> n \<Longrightarrow> cut_at b i (n - k) = give_rest k (cut_at b i n)"
proof -
  from assms obtain xs ys zs where b: "b = xs @ ys @ zs" "i = length xs" "n = length ys"
    by (rule cut_split)
  note view = cut_append [of xs ys zs, folded b(2,3), folded b(1)]
  show "cut_at b (i - k) (n + k) = take_front k (cut_at b i n)" if "k \<le> i"
    using cut_append [of "take (i - k) xs" "drop (i - k) xs @ ys" zs] that
    unfolding view take_front_def by (simp add: b Let_def add.commute)
  show "cut_at b (i + k) (n - k) = give_front k (cut_at b i n)" if "k \<le> n"
    using cut_append [of "xs @ take k ys" "drop k ys" zs] that
    unfolding view give_front_def by (simp add: b)
  show "cut_at b i (n + k) = take_rest k (cut_at b i n)" if "i + n + k \<le> length b"
    using cut_append [of xs "ys @ take k zs" "drop k zs"] that
    unfolding view take_rest_def by (simp add: b)
  show "cut_at b i (n - k) = give_rest k (cut_at b i n)" if "k \<le> n"
    using cut_append [of xs "take (n - k) ys" "drop (n - k) ys @ zs"] that
    unfolding view give_rest_def by (simp add: b Let_def)
qed

lemma cut_refuses:
  assumes "i + n \<le> length b"
  shows "i < k \<Longrightarrow> take_front k (cut_at b i n) = cut_at b i n"
    "n < k \<Longrightarrow> give_front k (cut_at b i n) = cut_at b i n"
    "length b < i + n + k \<Longrightarrow> take_rest k (cut_at b i n) = cut_at b i n"
    "n < k \<Longrightarrow> give_rest k (cut_at b i n) = cut_at b i n"
  using assms by (auto simp: cut_at_def take_front_def give_front_def take_rest_def give_rest_def)

section \<open>Each operation moves a cut\<close>

lemma bytes_seg_view: "seg_ok m \<Longrightarrow> bytes (seg_view m) = seg_addrs m"
  by (simp add: seg_view_def cut_at_def seg_ok_def seg_addrs_def addr_range_drop addr_range_take
      rte_pktmbuf_mtod_def rte_pktmbuf_mtod_offset_def of_nat_unat_u16)

lemma views_head:
  assumes "ps = p # qs" "p \<notin> set qs"
  shows "views (h(p \<mapsto> m)) ps = (views h ps)[0 := seg_view m]"
  using assms by (auto simp: views_def)

lemma views_set_last:
  assumes "ps = init @ [l]" "l \<notin> set init"
  shows "views (set_last h p l ml n) ps = (views h ps)[length ps - 1 := seg_view ml]"
  using assms by (auto simp: views_def set_last_def Let_def list_update_append)

lemma seg_cut: "seg_ok m \<Longrightarrow> unat (data_off m) + unat (data_len m) \<le> length (addr_range (buf_addr m) (unat (buf_len m)))"
  by (simp add: seg_ok_def)

lemmas seg_moves = cut_moves [OF seg_cut, folded seg_view_def]
lemmas seg_refuses = cut_refuses [OF seg_cut, folded seg_view_def]

lemma seg_view_prepend:
  assumes "seg_ok m"
  shows "take_front (unat len) (seg_view m) =
    (if data_off m < len then seg_view m
     else seg_view (m\<lparr>data_off := data_off m - len, data_len := data_len m + len, pkt_len := x\<rparr>))"
proof (cases "data_off m < len")
  case False
  then have "len \<le> data_off m" by simp
  moreover from this have "unat (data_off m - len) = unat (data_off m) - unat len" by (rule unat_sub)
  moreover have "unat (data_len m + len) = unat (data_len m) + unat len"
    using prepend_seg(2) [OF assms \<open>len \<le> data_off m\<close>, of x] by simp
  ultimately show ?thesis using seg_moves(1) [OF assms, of "unat len"] False
    by (simp add: seg_view_def word_le_nat_alt)
qed (use seg_refuses(1) [OF assms] in \<open>simp add: word_less_nat_alt\<close>)

lemma seg_view_adj:
  assumes "seg_ok m"
  shows "give_front (unat len) (seg_view m) =
    (if data_len m < len then seg_view m
     else seg_view (m\<lparr>data_len := data_len m - len, data_off := data_off m + len, pkt_len := x\<rparr>))"
proof (cases "data_len m < len")
  case False
  then have le: "len \<le> data_len m" by simp
  then have n: "unat len \<le> unat (data_len m)" by (simp add: word_le_nat_alt)
  have "unat (data_len m - len) = unat (data_len m) - unat len" using le by (rule unat_sub)
  moreover have "unat (data_off m + len) = unat (data_off m) + unat len"
    using assms n unat_u16_less [of "buf_len m"] by (intro unat_add_u16) (simp add: seg_ok_def)
  ultimately show ?thesis using seg_moves(2) [OF assms n] False by (simp add: seg_view_def)
qed (use seg_refuses(2) [OF assms] in \<open>simp add: word_less_nat_alt\<close>)

lemma seg_view_append:
  assumes "seg_ok m"
  shows "take_rest (unat len) (seg_view m) =
    (if rte_pktmbuf_tailroom m < len then seg_view m else seg_view (m\<lparr>data_len := data_len m + len\<rparr>))"
proof (cases "rte_pktmbuf_tailroom m < len")
  case False
  then have "len \<le> rte_pktmbuf_tailroom m" by simp
  then have n: "unat (data_off m) + unat (data_len m) + unat len \<le> unat (buf_len m)"
    using seg_ok_room [OF assms] assms by (simp add: word_le_nat_alt seg_ok_def)
  then have "unat (data_len m + len) = unat (data_len m) + unat len"
    using unat_u16_less [of "buf_len m"] by (intro unat_add_u16) simp
  then show ?thesis using seg_moves(3) [OF assms, of "unat len"] n False by (simp add: seg_view_def)
next
  case True
  then have "unat (buf_len m) < unat (data_off m) + unat (data_len m) + unat len"
    using seg_ok_room [OF assms] by (simp add: word_less_nat_alt)
  then show ?thesis using seg_refuses(3) [OF assms, of "unat len"] True by simp
qed

lemma seg_view_trim:
  assumes "seg_ok m"
  shows "give_rest (unat len) (seg_view m) =
    (if data_len m < len then seg_view m else seg_view (m\<lparr>data_len := data_len m - len\<rparr>))"
proof (cases "data_len m < len")
  case False
  then have le: "len \<le> data_len m" by simp
  then have n: "unat len \<le> unat (data_len m)" by (simp add: word_le_nat_alt)
  have "unat (data_len m - len) = unat (data_len m) - unat len" using le by (rule unat_sub)
  then show ?thesis using seg_moves(4) [OF assms n] False by (simp add: seg_view_def)
qed (use seg_refuses(4) [OF assms] in \<open>simp add: word_less_nat_alt\<close>)

lemma change_view:
  assumes "i < length ps"
  shows "change i f (views h ps) = (views h ps)[i := f (seg_view (seg_at h (ps ! i)))]"
  using assms by (simp add: change_def views_def)

lemma views_same: "ps ! i = q \<Longrightarrow> (views h ps)[i := seg_view (seg_at h q)] = views h ps"
  by (cases "i < length ps") (auto simp: views_def list_update_same_conv list_update_beyond)

lemma edit_head:
  assumes pk: "packet h p ps"
  shows "\<exists>h'. do_edit h p (Prepend len) = Some h' \<and> views h' ps = edit_views (Prepend len) (views h ps)"
    "\<exists>h'. do_edit h p (Adj len) = Some h' \<and> views h' ps = edit_views (Adj len) (views h ps)"
proof -
  from pk obtain qs where ps: "ps = p # qs" "p \<notin> set qs" by (rule packet_split_head)
  have ok: "seg_ok (seg_at h p)" using packetD(5,10) [OF pk] by simp
  show "\<exists>h'. do_edit h p (Prepend len) = Some h' \<and> views h' ps = edit_views (Prepend len) (views h ps)"
    using prepend_packet [OF pk, of len] prepend_result [OF pk, of len] seg_view_prepend [OF ok, of len] ps
    by (cases "data_off (seg_at h p) < len")
      (auto simp: rte_pktmbuf_headroom_def change_view views_same views_head not_less)
  show "\<exists>h'. do_edit h p (Adj len) = Some h' \<and> views h' ps = edit_views (Adj len) (views h ps)"
    using rte_pktmbuf_adj_spec [OF pk, of len] adj_result [OF pk, of len] seg_view_adj [OF ok, of len] ps
    by (cases "data_len (seg_at h p) < len")
      (auto simp: change_view views_same views_head not_less)
qed

lemma trim_result:
  assumes pk: "packet h p ps" and len: "len \<le> data_len (seg_at h l)" and l: "l = last ps"
  shows "rte_pktmbuf_trim h p len =
     Some (0, set_last h p l ((seg_at h l)\<lparr>data_len := data_len (seg_at h l) - len\<rparr>)
                (pkt_len (seg_at h p) - ucast len))"
  using leD [OF len] packetD(7,8,9) [OF pk] l unfolding rte_pktmbuf_trim_def
  by (cases "l = p") (simp_all add: set_last_def Let_def)

lemma edit_last:
  assumes pk: "packet h p ps"
  shows "\<exists>h'. do_edit h p (Append len) = Some h' \<and> views h' ps = edit_views (Append len) (views h ps)"
    "\<exists>h'. do_edit h p (Trim len) = Some h' \<and> views h' ps = edit_views (Trim len) (views h ps)"
proof -
  from pk obtain init where ps: "ps = init @ [last ps]" "last ps \<notin> set init" by (rule packet_split_last)
  have i: "length (views h ps) - 1 < length ps" "ps ! (length ps - 1) = last ps"
    "length (views h ps) = length ps"
    using packetD(2) [OF pk] by (simp_all add: views_def last_conv_nth)
  have ok: "seg_ok (seg_at h (last ps))" using packetD(6,10) [OF pk] by simp
  show "\<exists>h'. do_edit h p (Append len) = Some h' \<and> views h' ps = edit_views (Append len) (views h ps)"
    using append_result [OF pk _ refl, of len] seg_view_append [OF ok, of len] packetD(7,8,9) [OF pk] i
    by (cases "rte_pktmbuf_tailroom (seg_at h (last ps)) < len")
      (auto simp: rte_pktmbuf_append_def change_view views_same views_set_last [OF ps] not_less)
  show "\<exists>h'. do_edit h p (Trim len) = Some h' \<and> views h' ps = edit_views (Trim len) (views h ps)"
    using trim_result [OF pk _ refl, of len] seg_view_trim [OF ok, of len] packetD(7,8,9) [OF pk] i
    by (cases "data_len (seg_at h (last ps)) < len")
      (auto simp: rte_pktmbuf_trim_def change_view views_same views_set_last [OF ps] not_less)
qed

section \<open>Any sequence of edits\<close>

lemma edit_views_refines:
  "packet h p ps \<Longrightarrow> \<exists>h'. do_edit h p e = Some h' \<and> views h' ps = edit_views e (views h ps)"
  by (cases e) (blast intro: edit_head edit_last)+

lemma edit_packet:
  assumes pk: "packet h p ps"
  shows "\<exists>h'. do_edit h p e = Some h' \<and> packet h' p ps \<and> (\<forall>q. q \<notin> set ps \<longrightarrow> h' q = h q)"
proof (cases e)
  case (Prepend len)
  then show ?thesis using prepend_packet [OF pk, of len] packetD(5,6) [OF pk] pk
    by (auto split: if_splits)
next
  case (Append len)
  then show ?thesis using append_packet [OF pk, of len] packetD(5,6) [OF pk] pk
    by (auto split: if_splits)
next
  case (Adj len)
  then show ?thesis using rte_pktmbuf_adj_spec [OF pk, of len] packetD(5,6) [OF pk] pk
    by (auto split: if_splits)
next
  case (Trim len)
  then show ?thesis using rte_pktmbuf_trim_spec [OF pk, of len] packetD(5,6) [OF pk] pk
    by (auto split: if_splits)
qed

lemma views_bytes: "packet h p ps \<Longrightarrow> concat (map bytes (views h ps)) = pkt_addrs h ps"
  using packetD(10) by (auto simp: views_def pkt_addrs_def bytes_seg_view intro!: arg_cong [where f = concat])

lemma run_edits_result:
  assumes "packet h p ps"
  shows "\<exists>h'. run_edits h p es = Some h' \<and> packet h' p ps \<and> views h' ps = fold edit_views es (views h ps) \<and>
    (\<forall>q. q \<notin> set ps \<longrightarrow> h' q = h q)"
  using assms
proof (induction es arbitrary: h)
  case (Cons e es)
  obtain h1 where h1: "do_edit h p e = Some h1" "views h1 ps = edit_views e (views h ps)"
    using edit_views_refines [OF Cons.prems] by blast
  then have "packet h1 p ps \<and> (\<forall>q. q \<notin> set ps \<longrightarrow> h1 q = h q)"
    using edit_packet [OF Cons.prems, of e] by simp
  with h1 Cons.IH [of h1] show ?case by force
qed simp

lemma fold_edit_views_keep_buffers: "map buffer_bytes (fold edit_views es vs) = map buffer_bytes vs"
  by (induction es arbitrary: vs) (simp_all add: edit_views_keep_buffers)

text \<open>
  C13: Any sequence of prepends, appends, adjustments and trims on a well-formed packet runs to its
  end, leaves a well-formed packet of the same segments (lengths within their widths, data inside
  the buffers, segment count and packet length true) in the same buffers, and touches no other mbuf.
\<close>

theorem edits_keep_packet:
  assumes "packet h p ps"
  shows "\<exists>h'. run_edits h p es = Some h' \<and> packet h' p ps \<and>
    map buffer_bytes (views h' ps) = map buffer_bytes (views h ps) \<and> (\<forall>q. q \<notin> set ps \<longrightarrow> h' q = h q)"
  using run_edits_result [OF assms, of es] fold_edit_views_keep_buffers [of es "views h ps"] by auto

theorem edits_keep_packet_witness:
  "\<exists>h. run_edits demo_heap 0x1000 [Adj 14, Prepend 20, Trim 4, Append 60000] = Some h \<and>
     packet h 0x1000 [0x1000, 0x3000]"
  using edits_keep_packet [OF demo_packets(1)] by blast

text \<open>
  C12: The operations that edit a packet at its ends refine their abstract versions, which move one
  cut of the first or of the last buffer: after any sequence of them every segment's free bytes in
  front, data and free bytes behind are those the same sequence of abstract moves gives, refusals
  included, and the bytes of the packet are the data of those buffers.
\<close>

theorem edits_refine_views:
  assumes "packet h p ps"
  shows "\<exists>h'. run_edits h p es = Some h' \<and> views h' ps = fold edit_views es (views h ps) \<and>
    pkt_addrs h' ps = concat (map bytes (fold edit_views es (views h ps)))"
  using run_edits_result [OF assms, of es] views_bytes by metis

text \<open>
  Ten bytes are given up at the front of the first segment and four at the end of the last, four
  more than there are are refused, and three are taken back at the front.
\<close>

theorem edits_refine_views_witness:
  "(\<exists>h. run_edits demo_heap 0x1000 [Adj 10, Trim 4, Trim 40, Prepend 3] = Some h \<and>
      views h [0x1000, 0x3000] =
        fold edit_views [Adj 10, Trim 4, Trim 40, Prepend 3] (views demo_heap [0x1000, 0x3000])) \<and>
   map (map length) (map (\<lambda>v. [front v, bytes v, rest v])
      (fold edit_views [Adj 10, Trim 4, Trim 40, Prepend 3] (views demo_heap [0x1000, 0x3000]))) =
     [[135, 53, 1988], [128, 36, 2012]]"
  using edits_refine_views [OF demo_packets(1), of "[Adj 10, Trim 4, Trim 40, Prepend 3]"]
  by (auto simp: views_def seg_view_def cut_at_def change_def take_front_def give_front_def
      give_rest_def demo_defs seg_at_def Let_def)

end
