(* ===== verification/Mbuf_Pool.thy ===== *)
theory Mbuf_Pool
  imports Mbuf_Packet
begin

text \<open>
  Allocation, sharing and release of mbufs in \<open>src/src/ext/rte_mbuf.c\<close>: the model.  The mempool
  library is not part of the repository; its three calls are a record of functions over a pool
  state of any type.  A failing \<open>RTE_ASSERT\<close>, like a dangling pointer, is the value
  \<^const>\<open>None\<close>; a loop over a cyclic chain does not end, and is \<^const>\<open>None\<close> too.
\<close>

record 'p mempool_ops =
  mempool_get :: "ptr \<Rightarrow> 'p \<Rightarrow> int \<times> ptr \<times> 'p"
  mempool_get_bulk :: "ptr \<Rightarrow> u32 \<Rightarrow> 'p \<Rightarrow> int \<times> ptr list \<times> 'p"
  mempool_put :: "ptr \<Rightarrow> ptr \<Rightarrow> 'p \<Rightarrow> 'p"

record 'p mbuf_state =
  heap_of :: heap
  pool_of :: 'p

definition upd_mbuf :: "ptr \<Rightarrow> (rte_mbuf \<Rightarrow> rte_mbuf) \<Rightarrow> 'p mbuf_state \<Rightarrow> 'p mbuf_state option" where
  "upd_mbuf p f st = do { m \<leftarrow> heap_of st p; Some (st\<lparr>heap_of := (heap_of st)(p \<mapsto> f m)\<rparr>) }"

section \<open>Allocation\<close>

definition mbuf_raw_alloc_check :: "mbuf_config \<Rightarrow> heap \<Rightarrow> ptr \<Rightarrow> unit option" where
  "mbuf_raw_alloc_check c h p =
     (if assert_enabled c then do {
        m \<leftarrow> h p;
        rte_assert c (rte_mbuf_refcnt_read c m = 1);
        rte_assert c (mb_next m = 0);
        rte_assert c (nb_segs m = 1) }
      else Some ())"

definition rte_mbuf_raw_alloc ::
    "mbuf_config \<Rightarrow> 'p mempool_ops \<Rightarrow> ptr \<Rightarrow> 'p mbuf_state \<Rightarrow> (ptr \<times> 'p mbuf_state) option" where
  "rte_mbuf_raw_alloc c ops mp st =
     (let (rc, m, pool) = mempool_get ops mp (pool_of st);
          st = st\<lparr>pool_of := pool\<rparr>
      in if rc < 0 then Some (0, st)
         else do { mbuf_raw_alloc_check c (heap_of st) m; Some (m, st) })"

definition rte_mbuf_raw_free ::
    "mbuf_config \<Rightarrow> 'p mempool_ops \<Rightarrow> ptr \<Rightarrow> 'p mbuf_state \<Rightarrow> 'p mbuf_state option" where
  "rte_mbuf_raw_free c ops p st = do {
     m \<leftarrow> heap_of st p;
     rte_assert c (RTE_MBUF_DIRECT m);
     rte_assert c (rte_mbuf_refcnt_read c m = 1);
     rte_assert c (mb_next m = 0);
     rte_assert c (nb_segs m = 1);
     Some (st\<lparr>pool_of := mempool_put ops (mb_pool m) p (pool_of st)\<rparr>) }"

definition rte_pktmbuf_alloc ::
    "mbuf_config \<Rightarrow> 'p mempool_ops \<Rightarrow> ptr \<Rightarrow> 'p mbuf_state \<Rightarrow> (ptr \<times> 'p mbuf_state) option" where
  "rte_pktmbuf_alloc c ops mp st = do {
     (m, st) \<leftarrow> rte_mbuf_raw_alloc c ops mp st;
     if m \<noteq> 0 then do { st \<leftarrow> upd_mbuf m (rte_pktmbuf_reset c) st; Some (m, st) }
     else Some (m, st) }"

text \<open>One round of the unrolled loop, the loop entered at its top, and the four entry points.\<close>

definition bulk_reset_step ::
    "mbuf_config \<Rightarrow> ptr list \<Rightarrow> u32 \<times> 'p mbuf_state \<Rightarrow> (u32 \<times> 'p mbuf_state) option" where
  "bulk_reset_step c mbufs s = (case s of (idx, st) \<Rightarrow> do {
     p \<leftarrow> arr_get mbufs (unat idx);
     mbuf_raw_alloc_check c (heap_of st) p;
     st \<leftarrow> upd_mbuf p (rte_pktmbuf_reset c) st;
     Some (idx + 1, st) })"

partial_function (option) bulk_reset_loop ::
    "mbuf_config \<Rightarrow> ptr list \<Rightarrow> u32 \<Rightarrow> u32 \<times> 'p mbuf_state \<Rightarrow> (u32 \<times> 'p mbuf_state) option" where
  "bulk_reset_loop c mbufs count s =
     (if fst s \<noteq> count then do {
        s \<leftarrow> bulk_reset_step c mbufs s;
        s \<leftarrow> bulk_reset_step c mbufs s;
        s \<leftarrow> bulk_reset_step c mbufs s;
        s \<leftarrow> bulk_reset_step c mbufs s;
        bulk_reset_loop c mbufs count s }
      else Some s)"

definition bulk_reset_from ::
    "mbuf_config \<Rightarrow> ptr list \<Rightarrow> u32 \<Rightarrow> 'p mbuf_state \<Rightarrow> (u32 \<times> 'p mbuf_state) option" where
  "bulk_reset_from c mbufs count st =
     (let case1 = (\<lambda>s. do { s \<leftarrow> bulk_reset_step c mbufs s; bulk_reset_loop c mbufs count s });
          case2 = (\<lambda>s. do { s \<leftarrow> bulk_reset_step c mbufs s; case1 s });
          case3 = (\<lambda>s. do { s \<leftarrow> bulk_reset_step c mbufs s; case2 s })
      in if count mod 4 = 0 then bulk_reset_loop c mbufs count (0, st)
         else if count mod 4 = 3 then case3 (0, st)
         else if count mod 4 = 2 then case2 (0, st)
         else case1 (0, st))"

definition rte_pktmbuf_alloc_bulk ::
    "mbuf_config \<Rightarrow> 'p mempool_ops \<Rightarrow> ptr \<Rightarrow> u32 \<Rightarrow> 'p mbuf_state \<Rightarrow>
     (int \<times> ptr list \<times> 'p mbuf_state) option" where
  "rte_pktmbuf_alloc_bulk c ops pool count st =
     (let (rc, mbufs, pl) = mempool_get_bulk ops pool count (pool_of st);
          st = st\<lparr>pool_of := pl\<rparr>
      in if rc \<noteq> 0 then Some (rc, mbufs, st)
         else do { (idx, st) \<leftarrow> bulk_reset_from c mbufs count st; Some (0, mbufs, st) })"

section \<open>Sharing a buffer\<close>

definition attach_fields :: "rte_mbuf \<Rightarrow> rte_mbuf \<Rightarrow> rte_mbuf" where
  "attach_fields mi m =
     (let mi = mi\<lparr>priv_size := priv_size m, buf_iova := buf_iova m, buf_addr := buf_addr m, buf_len := buf_len m\<rparr>;
          mi = mi\<lparr>data_off := data_off m, data_len := data_len m, mb_port := mb_port m,
                  vlan_tci := vlan_tci m, vlan_tci_outer := vlan_tci_outer m,
                  tx_offload := tx_offload m, mb_hash := mb_hash m\<rparr>;
          mi = mi\<lparr>mb_next := 0, pkt_len := ucast (data_len mi), nb_segs := 1\<rparr>
      in mi\<lparr>ol_flags := ol_flags m OR IND_ATTACHED_MBUF, packet_type := packet_type m,
            mb_timestamp := mb_timestamp m\<rparr>)"

definition rte_pktmbuf_attach ::
    "mbuf_config \<Rightarrow> ptr \<Rightarrow> ptr \<Rightarrow> 'p mbuf_state \<Rightarrow> 'p mbuf_state option" where
  "rte_pktmbuf_attach c pi pm st = do {
     mi \<leftarrow> heap_of st pi;
     rte_assert c (RTE_MBUF_DIRECT mi \<and> rte_mbuf_refcnt_read c mi = 1);
     m \<leftarrow> heap_of st pm;
     let md = (if RTE_MBUF_DIRECT m then pm else rte_mbuf_from_indirect c m);
     st \<leftarrow> upd_mbuf md (\<lambda>d. snd (rte_mbuf_refcnt_update c d 1)) st;
     m \<leftarrow> heap_of st pm;
     upd_mbuf pi (\<lambda>mi. attach_fields mi m) st }"

definition detach_fields :: "mbuf_config \<Rightarrow> ptr \<Rightarrow> rte_mbuf \<Rightarrow> rte_mbuf" where
  "detach_fields c p m =
     (let mp = mb_pool m;
          priv = rte_pktmbuf_priv_size c mp;
          mbuf_size = (of_nat (sizeof_mbuf c) + ucast priv :: u32);
          blen = rte_pktmbuf_data_room_size c mp;
          m = m\<lparr>priv_size := priv, buf_addr := p + ucast mbuf_size,
                buf_iova := mempool_virt2iova c p + ucast mbuf_size, buf_len := blen\<rparr>;
          m = rte_pktmbuf_reset_headroom c m
      in m\<lparr>data_len := 0, ol_flags := 0\<rparr>)"

definition rte_pktmbuf_detach ::
    "mbuf_config \<Rightarrow> 'p mempool_ops \<Rightarrow> ptr \<Rightarrow> 'p mbuf_state \<Rightarrow> 'p mbuf_state option" where
  "rte_pktmbuf_detach c ops p st = do {
     m \<leftarrow> heap_of st p;
     let md = rte_mbuf_from_indirect c m;
     st \<leftarrow> upd_mbuf p (detach_fields c p) st;
     d \<leftarrow> heap_of st md;
     let (count, d) = rte_mbuf_refcnt_update c d (- 1);
     st \<leftarrow> upd_mbuf md (\<lambda>_. d) st;
     if count = 0 then do {
       st \<leftarrow> upd_mbuf md (\<lambda>d. rte_mbuf_refcnt_set c (d\<lparr>mb_next := 0, nb_segs := 1\<rparr>) 1) st;
       rte_mbuf_raw_free c ops md st }
     else Some st }"

section \<open>Release\<close>

definition unlink_seg :: "ptr \<Rightarrow> 'p mbuf_state \<Rightarrow> 'p mbuf_state option" where
  "unlink_seg p = upd_mbuf p (\<lambda>m. if mb_next m \<noteq> 0 then m\<lparr>mb_next := 0, nb_segs := 1\<rparr> else m)"

definition rte_pktmbuf_prefree_seg ::
    "mbuf_config \<Rightarrow> 'p mempool_ops \<Rightarrow> ptr \<Rightarrow> 'p mbuf_state \<Rightarrow> (ptr \<times> 'p mbuf_state) option" where
  "rte_pktmbuf_prefree_seg c ops p st = do {
     m \<leftarrow> heap_of st p;
     if rte_mbuf_refcnt_read c m = 1 then do {
       st \<leftarrow> (if RTE_MBUF_INDIRECT m then rte_pktmbuf_detach c ops p st else Some st);
       st \<leftarrow> unlink_seg p st;
       Some (p, st) }
     else do {
       let (count, m) = mbuf_refcnt_update_internal c m (- 1);
       st \<leftarrow> upd_mbuf p (\<lambda>_. m) st;
       if count = 0 then do {
         st \<leftarrow> (if RTE_MBUF_INDIRECT m then rte_pktmbuf_detach c ops p st else Some st);
         st \<leftarrow> unlink_seg p st;
         st \<leftarrow> upd_mbuf p (\<lambda>m. rte_mbuf_refcnt_set c m 1) st;
         Some (p, st) }
       else Some (0, st) } }"

definition rte_pktmbuf_free_seg ::
    "mbuf_config \<Rightarrow> 'p mempool_ops \<Rightarrow> ptr \<Rightarrow> 'p mbuf_state \<Rightarrow> 'p mbuf_state option" where
  "rte_pktmbuf_free_seg c ops p st = do {
     (m, st) \<leftarrow> rte_pktmbuf_prefree_seg c ops p st;
     if m \<noteq> 0 then rte_mbuf_raw_free c ops m st else Some st }"

partial_function (option) rte_pktmbuf_free ::
    "mbuf_config \<Rightarrow> 'p mempool_ops \<Rightarrow> ptr \<Rightarrow> 'p mbuf_state \<Rightarrow> 'p mbuf_state option" where
  "rte_pktmbuf_free c ops p st =
     (if p \<noteq> 0 then do {
        m \<leftarrow> heap_of st p;
        st \<leftarrow> rte_pktmbuf_free_seg c ops p st;
        rte_pktmbuf_free c ops (mb_next m) st }
      else Some st)"

section \<open>Cloning, counting, linearizing\<close>

text \<open>
  The loop of \<open>rte_pktmbuf_clone\<close>.  \<open>*prev\<close> is the \<open>next\<close> field of the mbuf attached last (before
  the first round that of \<open>mc\<close> itself); the result is the last \<open>mi\<close>, the owner of \<open>*prev\<close> and the
  number of segments.
\<close>

partial_function (option) clone_loop ::
    "mbuf_config \<Rightarrow> 'p mempool_ops \<Rightarrow> ptr \<Rightarrow> ptr \<Rightarrow> ptr \<Rightarrow> ptr \<Rightarrow> u16 \<Rightarrow> 'p mbuf_state \<Rightarrow>
     (ptr \<times> ptr \<times> u16 \<times> 'p mbuf_state) option" where
  "clone_loop c ops mp mi prev md nseg st = do {
     let nseg = nseg + 1;
     st \<leftarrow> rte_pktmbuf_attach c mi md st;
     st \<leftarrow> upd_mbuf prev (\<lambda>m. m\<lparr>mb_next := mi\<rparr>) st;
     let prev = mi;
     d \<leftarrow> heap_of st md;
     let md = mb_next d;
     if md \<noteq> 0 then do {
       (mi, st) \<leftarrow> rte_pktmbuf_alloc c ops mp st;
       if mi \<noteq> 0 then clone_loop c ops mp mi prev md nseg st
       else Some (mi, prev, nseg, st) }
     else Some (mi, prev, nseg, st) }"

definition rte_pktmbuf_clone ::
    "mbuf_config \<Rightarrow> 'p mempool_ops \<Rightarrow> ptr \<Rightarrow> ptr \<Rightarrow> 'p mbuf_state \<Rightarrow> (ptr \<times> 'p mbuf_state) option" where
  "rte_pktmbuf_clone c ops md mp st = do {
     (mc, st) \<leftarrow> rte_pktmbuf_alloc c ops mp st;
     if mc = 0 then Some (0, st)
     else do {
       d \<leftarrow> heap_of st md;
       let pktlen = pkt_len d;
       (mi, prev, nseg, st) \<leftarrow> clone_loop c ops mp mc mc md 0 st;
       st \<leftarrow> upd_mbuf prev (\<lambda>m. m\<lparr>mb_next := 0\<rparr>) st;
       st \<leftarrow> upd_mbuf mc (\<lambda>m. m\<lparr>nb_segs := nseg, pkt_len := pktlen\<rparr>) st;
       if mi = 0 then do { st \<leftarrow> rte_pktmbuf_free c ops mc st; Some (0, st) }
       else Some (mc, st) } }"

partial_function (option) rte_pktmbuf_refcnt_update ::
    "mbuf_config \<Rightarrow> ptr \<Rightarrow> u16 \<Rightarrow> heap \<Rightarrow> heap option" where
  "rte_pktmbuf_refcnt_update c p v h = do {
     m \<leftarrow> h p;
     let h = h(p \<mapsto> snd (rte_mbuf_refcnt_update c m v));
     if mb_next m \<noteq> 0 then rte_pktmbuf_refcnt_update c (mb_next m) v h else Some h }"

section \<open>Control mbufs and deprecated names\<close>

definition rte_ctrlmbuf_alloc ::
    "mbuf_config \<Rightarrow> 'p mempool_ops \<Rightarrow> ptr \<Rightarrow> 'p mbuf_state \<Rightarrow> (ptr \<times> 'p mbuf_state) option" where
  "rte_ctrlmbuf_alloc c ops mp st = rte_pktmbuf_alloc c ops mp st"

definition rte_ctrlmbuf_free ::
    "mbuf_config \<Rightarrow> 'p mempool_ops \<Rightarrow> ptr \<Rightarrow> 'p mbuf_state \<Rightarrow> 'p mbuf_state option" where
  "rte_ctrlmbuf_free c ops p st = rte_pktmbuf_free c ops p st"

definition mbuf_raw_free_deprecated ::
    "mbuf_config \<Rightarrow> 'p mempool_ops \<Rightarrow> ptr \<Rightarrow> 'p mbuf_state \<Rightarrow> 'p mbuf_state option" where
  "mbuf_raw_free_deprecated c ops p st = rte_mbuf_raw_free c ops p st"

definition pktmbuf_prefree_seg_deprecated ::
    "mbuf_config \<Rightarrow> 'p mempool_ops \<Rightarrow> ptr \<Rightarrow> 'p mbuf_state \<Rightarrow> (ptr \<times> 'p mbuf_state) option" where
  "pktmbuf_prefree_seg_deprecated c ops p st = rte_pktmbuf_prefree_seg c ops p st"

end
