(* ===== verification/Mbuf_Alloc.thy ===== *)
theory Mbuf_Alloc
  imports Mbuf_Pool
begin

text \<open>
  Allocation of mbufs: the unrolled loop of \<open>rte_pktmbuf_alloc_bulk\<close> against the plain
  specification ``every mbuf handed out by the pool is reset'', and what a reset mbuf is.
\<close>

section \<open>A reset mbuf\<close>

text \<open>What the mempool promises of an mbuf it hands out, when the assertions are compiled in.\<close>

definition fresh_mbuf :: "mbuf_config \<Rightarrow> heap \<Rightarrow> ptr \<Rightarrow> bool" where
  "fresh_mbuf c h p \<longleftrightarrow>
     (case h p of None \<Rightarrow> False
      | Some m \<Rightarrow> assert_enabled c \<longrightarrow> refcnt m = 1 \<and> mb_next m = 0 \<and> nb_segs m = 1)"

lemma reset_fields [simp]:
  "refcnt (rte_pktmbuf_reset c m) = refcnt m" "mb_next (rte_pktmbuf_reset c m) = 0"
  "nb_segs (rte_pktmbuf_reset c m) = 1" "data_len (rte_pktmbuf_reset c m) = 0"
  "pkt_len (rte_pktmbuf_reset c m) = 0" "ol_flags (rte_pktmbuf_reset c m) = 0"
  "buf_len (rte_pktmbuf_reset c m) = buf_len m" "buf_addr (rte_pktmbuf_reset c m) = buf_addr m"
  "mb_pool (rte_pktmbuf_reset c m) = mb_pool m" "priv_size (rte_pktmbuf_reset c m) = priv_size m"
  "buf_iova (rte_pktmbuf_reset c m) = buf_iova m"
  by (simp_all add: rte_pktmbuf_reset_def rte_pktmbuf_reset_headroom_def Let_def)

lemma reset_data_off: "unat (data_off (rte_pktmbuf_reset c m)) = min (pktmbuf_headroom c) (unat (buf_len m))"
proof -
  have "min (pktmbuf_headroom c) (unat (buf_len m)) < 2 ^ 16"
    using unat_u16_less [of "buf_len m"] by linarith
  then show ?thesis
    by (simp add: rte_pktmbuf_reset_def rte_pktmbuf_reset_headroom_def Let_def unsigned_of_nat
        take_bit_nat_eq_self_iff)
qed

lemma reset_idem: "rte_pktmbuf_reset c (rte_pktmbuf_reset c m) = rte_pktmbuf_reset c m"
  by (simp add: rte_pktmbuf_reset_def rte_pktmbuf_reset_headroom_def Let_def)

lemma reset_packet:
  assumes "h p = Some (rte_pktmbuf_reset c m)" "p \<noteq> 0"
  shows "packet h p [p]" "pkt_addrs h [p] = []"
  using assms reset_data_off [of c m] by (simp_all add: packet_def seg_at_def seg_ok_def seg_addrs_def addr_range_def)

lemma fresh_check:
  "config_ok c \<Longrightarrow> fresh_mbuf c h p \<Longrightarrow> mbuf_raw_alloc_check c h p = Some ()"
  by (auto simp: fresh_mbuf_def mbuf_raw_alloc_check_def refcnt_simps split: option.splits)

section \<open>The unrolled loop\<close>

definition reset_all :: "mbuf_config \<Rightarrow> ptr list \<Rightarrow> heap \<Rightarrow> heap" where
  "reset_all c ps h = (\<lambda>q. if q \<in> set ps then map_option (rte_pktmbuf_reset c) (h q) else h q)"

definition reset_upto :: "mbuf_config \<Rightarrow> ptr list \<Rightarrow> 'p mbuf_state \<Rightarrow> nat \<Rightarrow> 'p mbuf_state" where
  "reset_upto c ps st k = st\<lparr>heap_of := reset_all c (take k ps) (heap_of st)\<rparr>"

lemma fresh_reset: "fresh_mbuf c h p \<Longrightarrow> fresh_mbuf c (reset_all c ps h) p"
  by (auto simp: fresh_mbuf_def reset_all_def split: option.splits)

lemma reset_upto_Suc:
  assumes "k < length ps" "heap_of st (ps ! k) \<noteq> None"
  shows "upd_mbuf (ps ! k) (rte_pktmbuf_reset c) (reset_upto c ps st k) = Some (reset_upto c ps st (Suc k))"
proof -
  obtain m where m: "heap_of st (ps ! k) = Some m" using assms(2) by auto
  have "reset_all c (take k ps) (heap_of st) (ps ! k) =
      Some (if ps ! k \<in> set (take k ps) then rte_pktmbuf_reset c m else m)"
    using m by (simp add: reset_all_def)
  moreover have "(reset_all c (take k ps) (heap_of st))
      (ps ! k \<mapsto> rte_pktmbuf_reset c (if ps ! k \<in> set (take k ps) then rte_pktmbuf_reset c m else m)) =
      reset_all c (take (Suc k) ps) (heap_of st)"
    using assms(1) m by (auto simp: fun_eq_iff reset_all_def take_Suc_conv_app_nth reset_idem)
  ultimately show ?thesis by (simp add: upd_mbuf_def reset_upto_def)
qed

lemma bulk_step:
  assumes "config_ok c" "\<forall>p\<in>set ps. fresh_mbuf c (heap_of st) p" "k < length ps" "length ps < 2 ^ 32"
  shows "bulk_reset_step c ps (of_nat k, reset_upto c ps st k) =
         Some (of_nat (Suc k), reset_upto c ps st (Suc k))"
proof -
  have k: "unat (of_nat k :: u32) = k" using assms(3,4) by (simp add: unsigned_of_nat take_bit_nat_eq_self_iff)
  have fresh: "fresh_mbuf c (heap_of st) (ps ! k)" using assms(2,3) by simp
  then have "heap_of st (ps ! k) \<noteq> None" by (auto simp: fresh_mbuf_def split: option.splits)
  moreover have "fresh_mbuf c (heap_of (reset_upto c ps st k)) (ps ! k)"
    using fresh_reset [OF fresh] by (simp add: reset_upto_def)
  ultimately show ?thesis
    using assms(1,3) by (simp add: bulk_reset_step_def k fresh_check reset_upto_Suc add.commute)
qed

lemma bulk_loop:
  assumes "config_ok c" "\<forall>p\<in>set ps. fresh_mbuf c (heap_of st) p" "length ps < 2 ^ 32"
  shows "k + 4 * j = length ps \<Longrightarrow>
    bulk_reset_loop c ps (of_nat (length ps)) (of_nat k, reset_upto c ps st k) =
      Some (of_nat (length ps), reset_upto c ps st (length ps))"
proof (induction j arbitrary: k)
  case 0
  then show ?case by (subst bulk_reset_loop.simps) simp
next
  case (Suc j)
  have "unat (of_nat k :: u32) \<noteq> unat (of_nat (length ps) :: u32)"
    using Suc.prems assms(3) by (simp add: unsigned_of_nat take_bit_nat_eq_self)
  then have "(of_nat k :: u32) \<noteq> of_nat (length ps)" by metis
  moreover note step = bulk_step [OF assms(1,2) _ assms(3)]
  ultimately show ?case
    using step [of k] step [of "Suc k"] step [of "Suc (Suc k)"] step [of "Suc (Suc (Suc k))"]
      Suc.IH [of "Suc (Suc (Suc (Suc k)))"] Suc.prems
    by (subst bulk_reset_loop.simps) simp
qed

lemma bulk_reset:
  assumes "config_ok c" "\<forall>p\<in>set ps. fresh_mbuf c (heap_of st) p" "length ps = unat count"
  shows "bulk_reset_from c ps count st = Some (count, reset_upto c ps st (length ps))"
proof -
  have len: "length ps < 2 ^ 32" using unsigned_less [of count] assms(3) by simp
  have count: "count = of_nat (length ps)" by (simp add: assms(3))
  have st0: "reset_upto c ps st 0 = st" by (simp add: reset_upto_def reset_all_def)
  define r where "r = length ps mod 4"
  have r: "length ps = r + 4 * (length ps div 4)" by (simp add: r_def)
  have loop: "bulk_reset_loop c ps count (of_nat r, reset_upto c ps st r) =
      Some (count, reset_upto c ps st (length ps))"
    using bulk_loop [OF assms(1,2) len] r unfolding count by metis
  have entry: "count mod 4 = of_nat i \<longleftrightarrow> r = i" if "i < 4" for i
  proof -
    have "unat (count mod 4) = r" by (simp add: r_def assms(3) unat_mod)
    moreover have "unat (of_nat i :: u32) = i" using that by (simp add: unsigned_of_nat take_bit_nat_eq_self)
    ultimately show ?thesis by (metis word_unat_eq_iff)
  qed
  have "r < 4" by (simp add: r_def)
  then consider "r = 0" | "r = 1" | "r = 2" | "r = 3" by linarith
  then show ?thesis
  proof cases
    case 1
    then show ?thesis using loop entry [of 0] st0 by (simp add: bulk_reset_from_def)
  next
    case 2
    with r have "ps \<noteq> []" by auto
    with 2 show ?thesis
      using loop entry [of 0] entry [of 3] entry [of 2] st0 r bulk_step [OF assms(1,2) _ len, of 0]
      by (simp add: bulk_reset_from_def)
  next
    case 3
    with r have "ps \<noteq> []" by auto
    with 3 show ?thesis
      using loop entry [of 0] entry [of 3] entry [of 2] st0 r bulk_step [OF assms(1,2) _ len, of 0]
        bulk_step [OF assms(1,2) _ len, of 1]
      by (simp add: bulk_reset_from_def numeral_2_eq_2)
  next
    case 4
    with r have "ps \<noteq> []" by auto
    with 4 show ?thesis
      using loop entry [of 0] entry [of 3] st0 r bulk_step [OF assms(1,2) _ len, of 0]
        bulk_step [OF assms(1,2) _ len, of 1] bulk_step [OF assms(1,2) _ len, of 2]
      by (simp add: bulk_reset_from_def numeral_2_eq_2 numeral_3_eq_3)
  qed
qed

section \<open>Properties\<close>

text \<open>
  C21: Bulk allocation resets every mbuf the pool hands out and no other, exactly once or as if once,
  and never reads outside the array: the four entry points into the unrolled loop together do what
  the plain loop over the array does, for every count.  Each mbuf is then an empty, well-formed
  packet with the configured headroom.
\<close>

theorem rte_pktmbuf_alloc_bulk_spec:
  assumes "config_ok c"
    and get: "mempool_get_bulk ops pool count (pool_of st) = (0, ps, pl)" "length ps = unat count"
    and fresh: "\<forall>p\<in>set ps. p \<noteq> 0 \<and> fresh_mbuf c (heap_of st) p"
  shows "\<exists>st'. rte_pktmbuf_alloc_bulk c ops pool count st = Some (0, ps, st') \<and> pool_of st' = pl \<and>
           heap_of st' = reset_all c ps (heap_of st) \<and>
           (\<forall>p\<in>set ps. packet (heap_of st') p [p] \<and> pkt_addrs (heap_of st') [p] = [] \<and>
              unat (data_off (seg_at (heap_of st') p)) =
                min (pktmbuf_headroom c) (unat (buf_len (seg_at (heap_of st) p))))"
proof -
  define st' where "st' = st\<lparr>pool_of := pl, heap_of := reset_all c ps (heap_of st)\<rparr>"
  have "bulk_reset_from c ps count (st\<lparr>pool_of := pl\<rparr>) = Some (count, st')"
    using bulk_reset [OF assms(1), of ps "st\<lparr>pool_of := pl\<rparr>"] fresh get(2)
    by (simp add: reset_upto_def st'_def)
  then have "rte_pktmbuf_alloc_bulk c ops pool count st = Some (0, ps, st')"
    using get(1) by (simp add: rte_pktmbuf_alloc_bulk_def)
  moreover have "packet (heap_of st') p [p] \<and> pkt_addrs (heap_of st') [p] = [] \<and>
      unat (data_off (seg_at (heap_of st') p)) =
        min (pktmbuf_headroom c) (unat (buf_len (seg_at (heap_of st) p)))" if p: "p \<in> set ps" for p
  proof -
    obtain m where m: "heap_of st p = Some m"
      using fresh p by (auto simp: fresh_mbuf_def split: option.splits)
    then have "heap_of st' p = Some (rte_pktmbuf_reset c m)" using p by (simp add: st'_def reset_all_def)
    with m fresh p show ?thesis
      using reset_packet [of "heap_of st'" p c m] by (simp add: seg_at_def reset_data_off)
  qed
  ultimately show ?thesis by (auto simp: st'_def)
qed

text \<open>
  When the pool cannot deliver, allocation reports it and changes no mbuf: the single allocation
  returns NULL, the bulk one the pool's error code.
\<close>

theorem mbuf_alloc_fails:
  assumes "mempool_get ops pool (pool_of st) = (rc, p, pl)" "rc < 0"
    and "mempool_get_bulk ops pool count (pool_of st) = (rc', ps, pl')" "rc' \<noteq> 0"
  shows "rte_pktmbuf_alloc c ops pool st = Some (0, st\<lparr>pool_of := pl\<rparr>) \<and>
         rte_pktmbuf_alloc_bulk c ops pool count st = Some (rc', ps, st\<lparr>pool_of := pl'\<rparr>)"
  using assms by (simp add: rte_pktmbuf_alloc_def rte_mbuf_raw_alloc_def rte_pktmbuf_alloc_bulk_def)

lemma alloc_reset:
  assumes "config_ok c" "mempool_get ops pool (pool_of st) = (rc, p, pl)" "0 \<le> rc" "p \<noteq> 0"
    "fresh_mbuf c (heap_of st) p" "heap_of st p = Some m"
  shows "rte_pktmbuf_alloc c ops pool st =
    Some (p, st\<lparr>pool_of := pl, heap_of := (heap_of st)(p \<mapsto> rte_pktmbuf_reset c m)\<rparr>)"
  using assms fresh_check [OF assms(1,5)]
  by (simp add: rte_pktmbuf_alloc_def rte_mbuf_raw_alloc_def upd_mbuf_def)

text \<open>
  A successful allocation returns an empty, well-formed packet of one segment, with the configured
  headroom as far as the buffer allows, and all the rest of the buffer as tailroom.
\<close>

theorem rte_pktmbuf_alloc_spec:
  assumes "config_ok c" "mempool_get ops pool (pool_of st) = (rc, p, pl)" "0 \<le> rc" "p \<noteq> 0"
    "fresh_mbuf c (heap_of st) p"
  shows "\<exists>st'. rte_pktmbuf_alloc c ops pool st = Some (p, st') \<and> pool_of st' = pl \<and>
           packet (heap_of st') p [p] \<and> pkt_addrs (heap_of st') [p] = [] \<and>
           (let m = seg_at (heap_of st') p
            in unat (rte_pktmbuf_headroom m) = min (pktmbuf_headroom c) (unat (buf_len m)) \<and>
               unat (rte_pktmbuf_tailroom m) = unat (buf_len m) - pktmbuf_headroom c) \<and>
           (\<forall>q. q \<noteq> p \<longrightarrow> heap_of st' q = heap_of st q)"
proof -
  obtain m where m: "heap_of st p = Some m"
    using assms(5) by (auto simp: fresh_mbuf_def split: option.splits)
  define st' where "st' = st\<lparr>pool_of := pl, heap_of := (heap_of st)(p \<mapsto> rte_pktmbuf_reset c m)\<rparr>"
  have at: "heap_of st' p = Some (rte_pktmbuf_reset c m)" by (simp add: st'_def)
  note pk = reset_packet [where h = "heap_of st'", OF at assms(4)]
  have "seg_ok (rte_pktmbuf_reset c m)" using packetD(5,10) [OF pk(1)] at by (simp add: seg_at_def)
  then have "unat (rte_pktmbuf_tailroom (rte_pktmbuf_reset c m)) = unat (buf_len m) - pktmbuf_headroom c"
    by (simp add: seg_ok_room reset_data_off)
  then have "let m = seg_at (heap_of st') p
     in unat (rte_pktmbuf_headroom m) = min (pktmbuf_headroom c) (unat (buf_len m)) \<and>
        unat (rte_pktmbuf_tailroom m) = unat (buf_len m) - pktmbuf_headroom c"
    using at by (simp add: seg_at_def rte_pktmbuf_headroom_def reset_data_off)
  moreover have "rte_pktmbuf_alloc c ops pool st = Some (p, st')"
    unfolding st'_def using alloc_reset [OF assms m] .
  ultimately show ?thesis using pk by (auto simp: st'_def)
qed

section \<open>Concrete pools\<close>

text \<open>
  A pool whose state is the list of its free mbufs, to apply the properties to: it hands out the
  first ones and takes them back at the front.
\<close>

definition list_pool :: "ptr list mempool_ops" where
  "list_pool = \<lparr>mempool_get = \<lambda>mp xs. (case xs of [] \<Rightarrow> (- ENOENT, 0, []) | x # xs \<Rightarrow> (0, x, xs)),
     mempool_get_bulk = \<lambda>mp n xs. (if length xs < unat n then (- ENOENT, [], xs)
                                   else (0, take (unat n) xs, drop (unat n) xs)),
     mempool_put = \<lambda>mp x xs. x # xs\<rparr>"

definition demo_config :: mbuf_config where
  "demo_config = \<lparr>pktmbuf_headroom = 128, sizeof_mbuf = 128, assert_enabled = True,
     refcnt_is_atomic = True, atomic16 = simple_atomic16,
     mempool_priv = \<lambda>_. \<lparr>mbuf_data_room_size = 2176, mbuf_priv_size = 0\<rparr>,
     mempool_virt2iova = \<lambda>p. p\<rparr>"

definition free_mbuf :: "ptr \<Rightarrow> rte_mbuf" where
  "free_mbuf a = zero_mbuf\<lparr>buf_addr := a + 128, buf_len := 2176, mb_pool := 0xF000\<rparr>"

definition demo_state :: "ptr list mbuf_state" where
  "demo_state = \<lparr>heap_of = [0x1000 \<mapsto> free_mbuf 0x1000, 0x2000 \<mapsto> free_mbuf 0x2000,
     0x3000 \<mapsto> free_mbuf 0x3000, 0x4000 \<mapsto> free_mbuf 0x4000, 0x5000 \<mapsto> free_mbuf 0x5000],
     pool_of = [0x1000, 0x2000, 0x3000, 0x4000, 0x5000]\<rparr>"

lemma demo_config_ok: "config_ok demo_config"
  by (simp add: config_ok_def demo_config_def simple_atomic16_ok)

theorem rte_pktmbuf_alloc_bulk_spec_witness:
  "\<exists>st'. rte_pktmbuf_alloc_bulk demo_config list_pool 0xF000 5 demo_state =
        Some (0, [0x1000, 0x2000, 0x3000, 0x4000, 0x5000], st') \<and> pool_of st' = [] \<and>
     packet (heap_of st') 0x4000 [0x4000]"
  using rte_pktmbuf_alloc_bulk_spec [OF demo_config_ok, of list_pool "0xF000" 5 demo_state
      "[0x1000, 0x2000, 0x3000, 0x4000, 0x5000]" "[]"]
  by (auto simp: list_pool_def demo_state_def fresh_mbuf_def free_mbuf_def zero_mbuf_def)

theorem mbuf_alloc_fails_witness:
  "let st = demo_state\<lparr>pool_of := []\<rparr>
   in rte_pktmbuf_alloc demo_config list_pool 0xF000 st = Some (0, st) \<and>
      rte_pktmbuf_alloc_bulk demo_config list_pool 0xF000 3 st = Some (- 2, [], st)"
  using mbuf_alloc_fails [of list_pool "0xF000" "demo_state\<lparr>pool_of := []\<rparr>" "- 2" 0 "[]" 3 "- 2" "[]" "[]"
      demo_config]
  by (simp add: list_pool_def ENOENT_def)

theorem rte_pktmbuf_alloc_spec_witness:
  "\<exists>st'. rte_pktmbuf_alloc demo_config list_pool 0xF000 demo_state = Some (0x1000, st') \<and>
     packet (heap_of st') 0x1000 [0x1000] \<and> unat (rte_pktmbuf_headroom (seg_at (heap_of st') 0x1000)) =
       min 128 (unat (buf_len (seg_at (heap_of st') 0x1000)))"
  using rte_pktmbuf_alloc_spec [OF demo_config_ok, of list_pool "0xF000" demo_state 0 "0x1000"
      "[0x2000, 0x3000, 0x4000, 0x5000]"]
  by (auto simp: list_pool_def demo_state_def fresh_mbuf_def free_mbuf_def zero_mbuf_def Let_def demo_config_def)

end
