(* ===== verification/Mbuf_Share.thy ===== *)
theory Mbuf_Share
  imports Mbuf_Alloc
begin

text \<open>
  Sharing and release: attaching an mbuf to another one's buffer, detaching it, freeing segments and
  packets, and the accounting of references that decides when a buffer returns to its pool.
\<close>

section \<open>Who owns a buffer\<close>

text \<open>A direct mbuf's buffer lies behind it and its private area.\<close>

definition owns_buffer :: "mbuf_config \<Rightarrow> ptr \<Rightarrow> rte_mbuf \<Rightarrow> bool" where
  "owns_buffer c p m \<longleftrightarrow> buf_addr m = p + of_nat (sizeof_mbuf c) + ucast (priv_size m)"

definition buffer_owner :: "mbuf_config \<Rightarrow> ptr \<Rightarrow> rte_mbuf \<Rightarrow> ptr" where
  "buffer_owner c p m = (if RTE_MBUF_DIRECT m then p else rte_mbuf_from_indirect c m)"

lemma owns_from_indirect: "owns_buffer c p m \<Longrightarrow> rte_mbuf_from_indirect c m = p"
  by (simp add: owns_buffer_def rte_mbuf_from_indirect_def)

lemma attach_fields_simps [simp]:
  "buf_addr (attach_fields mi m) = buf_addr m" "buf_len (attach_fields mi m) = buf_len m"
  "buf_iova (attach_fields mi m) = buf_iova m" "priv_size (attach_fields mi m) = priv_size m"
  "data_off (attach_fields mi m) = data_off m" "data_len (attach_fields mi m) = data_len m"
  "refcnt (attach_fields mi m) = refcnt mi" "mb_pool (attach_fields mi m) = mb_pool mi"
  "mb_next (attach_fields mi m) = 0" "nb_segs (attach_fields mi m) = 1"
  "pkt_len (attach_fields mi m) = ucast (data_len m)"
  "ol_flags (attach_fields mi m) = ol_flags m OR IND_ATTACHED_MBUF"
  by (simp_all add: attach_fields_def Let_def)

lemma attach_fields_frame:
  "attach_fields mi (m\<lparr>refcnt := r\<rparr>) = attach_fields mi m"
  by (simp add: attach_fields_def Let_def)

lemma attach_indirect: "RTE_MBUF_INDIRECT (attach_fields mi m)"
  unfolding indirect_bit by (simp add: IND_ATTACHED_MBUF_def bit_or_iff bit_push_bit_iff del: push_bit_numeral)

lemma attach_seg:
  "seg_addrs (attach_fields mi m) = seg_addrs m" "seg_ok (attach_fields mi m) = seg_ok m"
  "rte_mbuf_from_indirect c (attach_fields mi m) = rte_mbuf_from_indirect c m"
  by (simp_all add: seg_addrs_def rte_pktmbuf_mtod_def rte_pktmbuf_mtod_offset_def seg_ok_def
      rte_mbuf_from_indirect_def)

lemma detach_fields_simps [simp]:
  "refcnt (detach_fields c p m) = refcnt m" "mb_pool (detach_fields c p m) = mb_pool m"
  "mb_next (detach_fields c p m) = mb_next m" "nb_segs (detach_fields c p m) = nb_segs m"
  "data_len (detach_fields c p m) = 0" "ol_flags (detach_fields c p m) = 0"
  "priv_size (detach_fields c p m) = rte_pktmbuf_priv_size c (mb_pool m)"
  "buf_len (detach_fields c p m) = rte_pktmbuf_data_room_size c (mb_pool m)"
  by (simp_all add: detach_fields_def Let_def rte_pktmbuf_reset_headroom_def)

lemma detach_owns:
  assumes "sizeof_mbuf c < 2 ^ 31"
  shows "owns_buffer c p (detach_fields c p m)"
    "buf_iova (detach_fields c p m) =
       mempool_virt2iova c p + of_nat (sizeof_mbuf c) + ucast (rte_pktmbuf_priv_size c (mb_pool m))"
proof -
  define w where "w = rte_pktmbuf_priv_size c (mb_pool m)"
  have "unat (of_nat (sizeof_mbuf c) + ucast w :: u32) = sizeof_mbuf c + unat w"
    using assms unat_u16_less [of w] by (simp add: unat_word_ariths unsigned_of_nat take_bit_nat_eq_self)
  then have "(ucast (of_nat (sizeof_mbuf c) + ucast w :: u32) :: u64) = of_nat (sizeof_mbuf c + unat w)"
    by (metis of_nat_unat)
  then have "(ucast (of_nat (sizeof_mbuf c) + ucast w :: u32) :: u64) = of_nat (sizeof_mbuf c) + ucast w"
    by (simp add: of_nat_unat_u16)
  then show "owns_buffer c p (detach_fields c p m)"
    "buf_iova (detach_fields c p m) = mempool_virt2iova c p + of_nat (sizeof_mbuf c) + ucast w"
    by (simp_all add: owns_buffer_def detach_fields_def Let_def rte_pktmbuf_reset_headroom_def w_def)
qed

lemma detach_direct: "RTE_MBUF_DIRECT (detach_fields c p m)"
  by (simp add: RTE_MBUF_DIRECT_def indirect_bit)

section \<open>Attach\<close>

lemma attach_effect:
  assumes c: "config_ok c" and mi: "heap_of st pi = Some mi" "RTE_MBUF_DIRECT mi" "refcnt mi = 1"
    and m: "heap_of st pm = Some m" "pm \<noteq> pi"
    and d: "heap_of st (buffer_owner c pm m) = Some d" "buffer_owner c pm m \<noteq> pi"
  shows "rte_pktmbuf_attach c pi pm st = Some (st\<lparr>heap_of := (heap_of st)
           (buffer_owner c pm m \<mapsto> d\<lparr>refcnt := refcnt d + 1\<rparr>, pi \<mapsto> attach_fields mi m)\<rparr>)"
  using mi m d(1) d(2) [symmetric] unfolding rte_pktmbuf_attach_def buffer_owner_def [symmetric]
  by (cases "pm = buffer_owner c pm m")
    (auto simp: upd_mbuf_def refcnt_simps [OF c] attach_fields_frame Let_def)

text \<open>
  C34: Attaching makes the mbuf a one-segment packet whose data is exactly that of the segment attached
  to, in the same buffer; it increments the counter of the mbuf that owns the buffer, also when the
  segment attached to is itself indirect, and that mbuf is found again from the new one.
\<close>

theorem rte_pktmbuf_attach_spec:
  assumes "config_ok c" "heap_of st pi = Some mi" "RTE_MBUF_DIRECT mi" "refcnt mi = 1" "pi \<noteq> 0"
    "heap_of st pm = Some m" "pm \<noteq> pi" "seg_ok m" "RTE_MBUF_DIRECT m \<longrightarrow> owns_buffer c pm m"
    "heap_of st (buffer_owner c pm m) = Some d" "buffer_owner c pm m \<noteq> pi"
  shows "\<exists>st'. rte_pktmbuf_attach c pi pm st = Some st' \<and> pool_of st' = pool_of st \<and>
           packet (heap_of st') pi [pi] \<and> pkt_addrs (heap_of st') [pi] = seg_addrs m \<and>
           RTE_MBUF_INDIRECT (seg_at (heap_of st') pi) \<and>
           rte_mbuf_from_indirect c (seg_at (heap_of st') pi) = buffer_owner c pm m \<and>
           heap_of st' (buffer_owner c pm m) = Some (d\<lparr>refcnt := refcnt d + 1\<rparr>) \<and>
           (\<forall>q. q \<noteq> pi \<longrightarrow> q \<noteq> buffer_owner c pm m \<longrightarrow> heap_of st' q = heap_of st q)"
proof -
  have owner: "rte_mbuf_from_indirect c m = buffer_owner c pm m"
    using assms(9) by (auto simp: buffer_owner_def owns_from_indirect)
  show ?thesis
    using attach_effect [OF assms(1-4,6,7,10,11)] assms(5,8,11) owner
    by (simp add: packet_def seg_at_def attach_seg attach_indirect)
qed

section \<open>Detach\<close>

text \<open>The effect of a detach while the owner of the buffer keeps other references.\<close>

lemma detach_effect:
  assumes c: "config_ok c" and m: "heap_of st p = Some m" and owner: "rte_mbuf_from_indirect c m = o'"
    and d: "heap_of st o' = Some d" "o' \<noteq> p" "refcnt d \<noteq> 1"
  shows "rte_pktmbuf_detach c ops p st = Some (st\<lparr>heap_of := (heap_of st)
           (p \<mapsto> detach_fields c p m, o' \<mapsto> d\<lparr>refcnt := refcnt d - 1\<rparr>)\<rparr>)"
  using m d owner unfolding rte_pktmbuf_detach_def
  by (simp add: upd_mbuf_def refcnt_simps [OF c] Let_def)

text \<open>The effect of a detach that drops the last reference.\<close>

lemma detach_last_effect:
  assumes c: "config_ok c" and m: "heap_of st p = Some m" and owner: "rte_mbuf_from_indirect c m = o'"
    and d: "heap_of st o' = Some d" "o' \<noteq> p" "refcnt d = 1" "RTE_MBUF_DIRECT d"
  shows "rte_pktmbuf_detach c ops p st = Some \<lparr>heap_of = (heap_of st)
           (p \<mapsto> detach_fields c p m, o' \<mapsto> d\<lparr>mb_next := 0, nb_segs := 1, refcnt := 1\<rparr>),
           pool_of = mempool_put ops (mb_pool d) o' (pool_of st)\<rparr>"
proof -
  have "RTE_MBUF_DIRECT (d\<lparr>mb_next := 0, nb_segs := 1, refcnt := 1\<rparr>)"
    using d(4) by (simp add: RTE_MBUF_DIRECT_def RTE_MBUF_INDIRECT_def)
  then show ?thesis
    using m d owner unfolding rte_pktmbuf_detach_def
    by (simp add: upd_mbuf_def refcnt_simps [OF c] Let_def rte_mbuf_raw_free_def)
qed

text \<open>
  Detaching undoes attaching: the counter of the buffer's owner is what it was before, the other
  mbufs and the pool are untouched, and the detached mbuf is direct again, owns the buffer behind it
  with its pool's geometry, and carries no data.
\<close>

theorem detach_undoes_attach:
  assumes "config_ok c" "sizeof_mbuf c < 2 ^ 31"
    "heap_of st pi = Some mi" "RTE_MBUF_DIRECT mi" "refcnt mi = 1"
    "heap_of st pm = Some m" "pm \<noteq> pi" "RTE_MBUF_DIRECT m \<longrightarrow> owns_buffer c pm m"
    "heap_of st (buffer_owner c pm m) = Some d" "buffer_owner c pm m \<noteq> pi" "refcnt d \<noteq> 0"
  shows "\<exists>st1 st2. rte_pktmbuf_attach c pi pm st = Some st1 \<and>
           rte_pktmbuf_detach c ops pi st1 = Some st2 \<and> pool_of st2 = pool_of st \<and>
           (\<forall>q. q \<noteq> pi \<longrightarrow> heap_of st2 q = heap_of st q) \<and>
           (let mi' = seg_at (heap_of st2) pi
            in RTE_MBUF_DIRECT mi' \<and> owns_buffer c pi mi' \<and> refcnt mi' = 1 \<and> mb_pool mi' = mb_pool mi \<and>
               priv_size mi' = rte_pktmbuf_priv_size c (mb_pool mi) \<and>
               buf_len mi' = rte_pktmbuf_data_room_size c (mb_pool mi) \<and> seg_addrs mi' = [])"
proof -
  define st1 where "st1 = st\<lparr>heap_of := (heap_of st)
    (buffer_owner c pm m \<mapsto> d\<lparr>refcnt := refcnt d + 1\<rparr>, pi \<mapsto> attach_fields mi m)\<rparr>"
  have attach: "rte_pktmbuf_attach c pi pm st = Some st1"
    unfolding st1_def using assms(1,3-7,9,10) by (rule attach_effect)
  have owner: "rte_mbuf_from_indirect c (attach_fields mi m) = buffer_owner c pm m"
    using assms(8) by (auto simp: attach_seg buffer_owner_def owns_from_indirect)
  define st2 where "st2 = st1\<lparr>heap_of := (heap_of st1)
    (pi \<mapsto> detach_fields c pi (attach_fields mi m), buffer_owner c pm m \<mapsto> d)\<rparr>"
  have "rte_pktmbuf_detach c ops pi st1 = Some (st1\<lparr>heap_of := (heap_of st1)
    (pi \<mapsto> detach_fields c pi (attach_fields mi m),
     buffer_owner c pm m \<mapsto> (d\<lparr>refcnt := refcnt d + 1\<rparr>)\<lparr>refcnt := refcnt (d\<lparr>refcnt := refcnt d + 1\<rparr>) - 1\<rparr>)\<rparr>)"
    using assms(10,11) by (intro detach_effect [OF assms(1) _ owner]) (simp_all add: st1_def)
  then have "rte_pktmbuf_detach c ops pi st1 = Some st2" by (simp add: st2_def)
  moreover have "\<forall>q. q \<noteq> pi \<longrightarrow> heap_of st2 q = heap_of st q"
    using assms(9) by (simp add: st1_def st2_def)
  moreover have "seg_at (heap_of st2) pi = detach_fields c pi (attach_fields mi m)"
    using assms(10) by (simp add: seg_at_def st2_def)
  ultimately show ?thesis
    using attach assms(5) detach_direct detach_owns(1) [OF assms(2)]
    by (simp add: st1_def st2_def seg_addrs_def addr_range_def)
qed

section \<open>Freeing a segment\<close>

abbreviation unlinked :: "rte_mbuf \<Rightarrow> rte_mbuf" where
  "unlinked m \<equiv> m\<lparr>mb_next := 0, nb_segs := 1\<rparr>"

text \<open>The last segment of a chain says that it is alone.\<close>

definition tail_ok :: "rte_mbuf \<Rightarrow> bool" where
  "tail_ok m \<longleftrightarrow> mb_next m = 0 \<longrightarrow> nb_segs m = 1"

lemma record_same:
  "mb_next m = 0 \<Longrightarrow> nb_segs m = 1 \<Longrightarrow> unlinked m = m"
  "refcnt m = r \<Longrightarrow> m\<lparr>refcnt := r\<rparr> = m"
  by (rule rte_mbuf.equality; simp)+

lemma unlink_tail_ok:
  "heap_of st p = Some m \<Longrightarrow> tail_ok m \<Longrightarrow>
   unlink_seg p st = Some (st\<lparr>heap_of := (heap_of st)(p \<mapsto> unlinked m)\<rparr>)"
  by (auto simp: unlink_seg_def upd_mbuf_def tail_ok_def record_same)

lemma direct_frame [simp]:
  "RTE_MBUF_DIRECT (m\<lparr>mb_next := x, nb_segs := y\<rparr>) = RTE_MBUF_DIRECT m"
  "RTE_MBUF_DIRECT (m\<lparr>refcnt := z\<rparr>) = RTE_MBUF_DIRECT m"
  by (simp_all add: RTE_MBUF_DIRECT_def RTE_MBUF_INDIRECT_def)

text \<open>While others hold a reference, freeing only counts down.\<close>

lemma free_seg_shared:
  assumes "config_ok c" "heap_of st p = Some m" "refcnt m \<noteq> 1"
  shows "rte_pktmbuf_free_seg c ops p st =
         Some (st\<lparr>heap_of := (heap_of st)(p \<mapsto> m\<lparr>refcnt := refcnt m - 1\<rparr>)\<rparr>)"
  using assms
  by (simp add: rte_pktmbuf_free_seg_def rte_pktmbuf_prefree_seg_def refcnt_simps upd_mbuf_def)

lemma free_seg_direct:
  assumes "config_ok c" "heap_of st p = Some m" "refcnt m = 1" "RTE_MBUF_DIRECT m" "tail_ok m" "p \<noteq> 0"
  shows "rte_pktmbuf_free_seg c ops p st =
         Some \<lparr>heap_of = (heap_of st)(p \<mapsto> unlinked m), pool_of = mempool_put ops (mb_pool m) p (pool_of st)\<rparr>"
proof -
  have "\<not> RTE_MBUF_INDIRECT m" "RTE_MBUF_DIRECT (unlinked m)"
    using assms(4) direct_frame(1) [where m = m and x = 0 and y = 1] by (simp_all add: RTE_MBUF_DIRECT_def)
  with assms show ?thesis
    unfolding rte_pktmbuf_free_seg_def rte_pktmbuf_prefree_seg_def
    by (simp add: unlink_tail_ok refcnt_simps rte_mbuf_raw_free_def)
qed

text \<open>An indirect segment first gives up its reference on the owner of its buffer.\<close>

lemma free_seg_indirect:
  assumes "config_ok c" "heap_of st p = Some m" "refcnt m = 1" "RTE_MBUF_INDIRECT m" "tail_ok m" "p \<noteq> 0"
    and detach: "rte_pktmbuf_detach c ops p st = Some st1"
    and st1: "heap_of st1 p = Some (detach_fields c p m)"
  shows "rte_pktmbuf_free_seg c ops p st =
         Some \<lparr>heap_of = (heap_of st1)(p \<mapsto> unlinked (detach_fields c p m)),
               pool_of = mempool_put ops (mb_pool m) p (pool_of st1)\<rparr>"
proof -
  have "tail_ok (detach_fields c p m)" using assms(5) by (simp add: tail_ok_def)
  with assms detach_direct [of c p m] show ?thesis
    unfolding rte_pktmbuf_free_seg_def rte_pktmbuf_prefree_seg_def
    by (simp add: unlink_tail_ok refcnt_simps rte_mbuf_raw_free_def)
qed

text \<open>
  C17: A buffer shared by an mbuf and its clone is returned to the pool exactly once, by whoever is freed
  last: freeing the original first returns nothing, and freeing the clone then returns both; freeing
  the clone first returns only the clone.
\<close>

theorem shared_buffer_freed_once:
  assumes c: "config_ok c"
    and mi: "heap_of st pi = Some mi" "RTE_MBUF_DIRECT mi" "refcnt mi = 1" "pi \<noteq> 0"
    and m: "heap_of st pm = Some m" "RTE_MBUF_DIRECT m" "refcnt m = 1" "pm \<noteq> 0" "tail_ok m"
      "owns_buffer c pm m" "pm \<noteq> pi"
  shows "\<exists>st1 a b a' b'. rte_pktmbuf_attach c pi pm st = Some st1 \<and>
     rte_pktmbuf_free_seg c ops pm st1 = Some a \<and> pool_of a = pool_of st \<and>
     rte_pktmbuf_free_seg c ops pi a = Some b \<and>
       pool_of b = mempool_put ops (mb_pool mi) pi (mempool_put ops (mb_pool m) pm (pool_of st)) \<and>
     rte_pktmbuf_free_seg c ops pi st1 = Some a' \<and> pool_of a' = mempool_put ops (mb_pool mi) pi (pool_of st) \<and>
     rte_pktmbuf_free_seg c ops pm a' = Some b' \<and>
       pool_of b' = mempool_put ops (mb_pool m) pm (mempool_put ops (mb_pool mi) pi (pool_of st))"
proof -
  have owner: "buffer_owner c pm m = pm" using m(2) by (simp add: buffer_owner_def)
  let ?x = "attach_fields mi m"
  define st1 where "st1 = st\<lparr>heap_of := (heap_of st)(pm \<mapsto> m\<lparr>refcnt := 2\<rparr>, pi \<mapsto> ?x)\<rparr>"
  have attach: "rte_pktmbuf_attach c pi pm st = Some st1"
    using attach_effect [OF c mi(1-3) m(1,7), of m] m(1,3,7) by (simp add: st1_def owner)
  have from_x: "rte_mbuf_from_indirect c ?x = pm" using m(6) by (simp add: attach_seg owns_from_indirect)
  have x: "refcnt ?x = 1" "RTE_MBUF_INDIRECT ?x" "tail_ok ?x" "mb_pool ?x = mb_pool mi"
    using mi(3) attach_indirect by (simp_all add: tail_ok_def)
  define a where "a = st1\<lparr>heap_of := (heap_of st1)(pm \<mapsto> m)\<rparr>"
  have free_m: "rte_pktmbuf_free_seg c ops pm st1 = Some a"
    using free_seg_shared [OF c, of st1 pm "m\<lparr>refcnt := 2\<rparr>" ops] m(3,7)
    by (simp add: st1_def a_def record_same)
  have "rte_pktmbuf_detach c ops pi a = Some \<lparr>heap_of = (heap_of a)
     (pi \<mapsto> detach_fields c pi ?x, pm \<mapsto> m\<lparr>mb_next := 0, nb_segs := 1, refcnt := 1\<rparr>),
     pool_of = mempool_put ops (mb_pool m) pm (pool_of a)\<rparr>"
    using m by (intro detach_last_effect [OF c _ from_x]) (simp_all add: a_def st1_def)
  from free_seg_indirect [OF c _ x(1-3) mi(4) this]
  obtain b where b: "rte_pktmbuf_free_seg c ops pi a = Some b"
    "pool_of b = mempool_put ops (mb_pool mi) pi (mempool_put ops (mb_pool m) pm (pool_of st))"
    using m(7) x(4) by (simp add: a_def st1_def)
  have "rte_pktmbuf_detach c ops pi st1 = Some (st1\<lparr>heap_of := (heap_of st1)
     (pi \<mapsto> detach_fields c pi ?x, pm \<mapsto> (m\<lparr>refcnt := 2\<rparr>)\<lparr>refcnt := refcnt (m\<lparr>refcnt := 2\<rparr>) - 1\<rparr>)\<rparr>)"
    using m by (intro detach_effect [OF c _ from_x]) (simp_all add: st1_def)
  from free_seg_indirect [OF c _ x(1-3) mi(4) this]
  obtain a' where a': "rte_pktmbuf_free_seg c ops pi st1 = Some a'"
    "pool_of a' = mempool_put ops (mb_pool mi) pi (pool_of st)" "heap_of a' pm = Some m"
    using m(3,7) x(4) by (simp add: st1_def)
  have "rte_pktmbuf_free_seg c ops pm a' = Some \<lparr>heap_of = (heap_of a')(pm \<mapsto> unlinked m),
      pool_of = mempool_put ops (mb_pool m) pm (pool_of a')\<rparr>"
    by (rule free_seg_direct [OF c a'(3) m(3,2,5,4)])
  with attach free_m b a' show ?thesis by (simp add: a_def st1_def)
qed

section \<open>Freeing a packet\<close>

definition after_free :: "heap \<Rightarrow> ptr list \<Rightarrow> heap" where
  "after_free h ps = (\<lambda>q. if q \<in> set ps then
     Some (if refcnt (seg_at h q) = 1 then unlinked (seg_at h q)
           else (seg_at h q)\<lparr>refcnt := refcnt (seg_at h q) - 1\<rparr>) else h q)"

definition put_released :: "'p mempool_ops \<Rightarrow> heap \<Rightarrow> ptr list \<Rightarrow> 'p \<Rightarrow> 'p" where
  "put_released ops h ps =
     fold (\<lambda>q. mempool_put ops (mb_pool (seg_at h q)) q) (filter (\<lambda>q. refcnt (seg_at h q) = 1) ps)"

lemma put_released_cong:
  "(\<And>q. q \<in> set ps \<Longrightarrow> seg_at h q = seg_at h' q) \<Longrightarrow> put_released ops h ps = put_released ops h' ps"
  unfolding put_released_def by (intro ext fold_cong filter_cong) auto

text \<open>One round of the loops that walk a chain and free it.\<close>

lemma free_one:
  assumes c: "config_ok c" and m: "heap_of st q = Some m" "q \<noteq> 0"
    and dis: "q \<notin> set qs" and direct: "refcnt m = 1 \<longrightarrow> RTE_MBUF_DIRECT m \<and> tail_ok m"
  obtains st' where "rte_pktmbuf_free_seg c ops q st = Some st'"
    "\<And>r. r \<in> set qs \<Longrightarrow> heap_of st' r = heap_of st r"
    "after_free (heap_of st') qs = after_free (heap_of st) (q # qs)"
    "put_released ops (heap_of st') qs (pool_of st') = put_released ops (heap_of st) (q # qs) (pool_of st)"
proof
  have at: "seg_at (heap_of st) q = m" using m by (simp add: seg_at_def)
  define m' where "m' = (if refcnt m = 1 then unlinked m else m\<lparr>refcnt := refcnt m - 1\<rparr>)"
  define st' where "st' = \<lparr>heap_of = (heap_of st)(q \<mapsto> m'),
    pool_of = (if refcnt m = 1 then mempool_put ops (mb_pool m) q (pool_of st) else pool_of st)\<rparr>"
  show "rte_pktmbuf_free_seg c ops q st = Some st'"
  proof (cases "refcnt m = 1")
    case True
    with free_seg_direct [OF c m(1)] direct m(2) show ?thesis by (simp add: st'_def m'_def)
  next
    case False
    with free_seg_shared [OF c m(1)] show ?thesis by (simp add: st'_def m'_def)
  qed
  show same: "heap_of st' r = heap_of st r" if "r \<in> set qs" for r
    using that dis by (auto simp: st'_def)
  then have same': "seg_at (heap_of st') r = seg_at (heap_of st) r" if "r \<in> set qs" for r
    using that by (simp add: seg_at_def)
  show "after_free (heap_of st') qs = after_free (heap_of st) (q # qs)"
    using dis at by (auto simp: fun_eq_iff after_free_def same') (auto simp: st'_def m'_def)
  show "put_released ops (heap_of st') qs (pool_of st') = put_released ops (heap_of st) (q # qs) (pool_of st)"
    using put_released_cong [of qs "heap_of st'" "heap_of st" ops] same' at
    by (simp add: put_released_def st'_def)
qed

lemma free_chain:
  assumes c: "config_ok c"
  shows "seg_list (heap_of st) p ps \<Longrightarrow> distinct ps \<Longrightarrow>
    (\<forall>q\<in>set ps. refcnt (seg_at (heap_of st) q) = 1 \<longrightarrow>
       RTE_MBUF_DIRECT (seg_at (heap_of st) q) \<and> tail_ok (seg_at (heap_of st) q)) \<Longrightarrow>
    rte_pktmbuf_free c ops p st = Some \<lparr>heap_of = after_free (heap_of st) ps,
      pool_of = put_released ops (heap_of st) ps (pool_of st)\<rparr>"
proof (induction ps arbitrary: p st)
  case Nil
  then show ?case
    by (subst rte_pktmbuf_free.simps) (simp add: after_free_def put_released_def)
next
  case (Cons q qs)
  then obtain m where m: "p = q" "q \<noteq> 0" "heap_of st q = Some m" "seg_list (heap_of st) (mb_next m) qs"
    by (auto split: option.splits)
  have "q \<notin> set qs" "refcnt m = 1 \<longrightarrow> RTE_MBUF_DIRECT m \<and> tail_ok m"
    using Cons.prems(2,3) m(3) by (simp_all add: seg_at_def)
  from free_one [OF c m(3,2) this, of ops] obtain st' where st':
    "rte_pktmbuf_free_seg c ops q st = Some st'" "\<And>r. r \<in> set qs \<Longrightarrow> heap_of st' r = heap_of st r"
    "after_free (heap_of st') qs = after_free (heap_of st) (q # qs)"
    "put_released ops (heap_of st') qs (pool_of st') = put_released ops (heap_of st) (q # qs) (pool_of st)"
    by blast
  have "seg_list (heap_of st') (mb_next m) qs"
    using m(4) st'(2) by (metis (no_types, lifting) seg_list_cong)
  then have "rte_pktmbuf_free c ops (mb_next m) st' = Some \<lparr>heap_of = after_free (heap_of st') qs,
      pool_of = put_released ops (heap_of st') qs (pool_of st')\<rparr>"
    using Cons.prems(2,3) st'(2) by (intro Cons.IH) (auto simp: seg_at_def)
  then show ?case using m st'(1,3,4) by (subst rte_pktmbuf_free.simps) simp
qed

text \<open>
  C20: Freeing a packet of direct segments terminates, returns to its pool every segment nobody else
  refers to, once each and in order, unlinked and alone as the pool requires, only counts down the
  others, and touches no other mbuf.
\<close>

theorem rte_pktmbuf_free_spec:
  assumes "config_ok c" "packet (heap_of st) p ps"
    "\<forall>q\<in>set ps. RTE_MBUF_DIRECT (seg_at (heap_of st) q) \<and> tail_ok (seg_at (heap_of st) q)"
  shows "rte_pktmbuf_free c ops p st = Some \<lparr>heap_of = after_free (heap_of st) ps,
           pool_of = fold (\<lambda>q. mempool_put ops (mb_pool (seg_at (heap_of st) q)) q)
             (filter (\<lambda>q. refcnt (seg_at (heap_of st) q) = 1) ps) (pool_of st)\<rparr>"
  using free_chain [OF assms(1) packetD(1,3) [OF assms(2)]] assms(3) by (simp add: put_released_def)

section \<open>Counting over a packet\<close>

lemma refcnt_update_chain:
  assumes c: "config_ok c"
  shows "seg_list h p ps \<Longrightarrow> ps \<noteq> [] \<Longrightarrow> distinct ps \<Longrightarrow> rte_pktmbuf_refcnt_update c p v h =
    Some (\<lambda>q. if q \<in> set ps then Some ((seg_at h q)\<lparr>refcnt := refcnt (seg_at h q) + v\<rparr>) else h q)"
proof (induction ps arbitrary: p h)
  case (Cons q qs)
  then obtain m where m: "p = q" "q \<noteq> 0" "h q = Some m" "seg_list h (mb_next m) qs"
    by (auto split: option.splits)
  define h' where "h' = h(q \<mapsto> m\<lparr>refcnt := refcnt m + v\<rparr>)"
  have same: "h' r = h r" "seg_at h' r = seg_at h r" if "r \<in> set qs" for r
    using that Cons.prems(3) by (auto simp: h'_def)
  show ?case
  proof (cases qs)
    case Nil
    with m show ?thesis
      by (subst rte_pktmbuf_refcnt_update.simps) (auto simp: refcnt_simps [OF c] seg_at_def)
  next
    case (Cons r rs)
    with m have "mb_next m \<noteq> 0" by auto
    moreover have "seg_list h' (mb_next m) qs" using m(4) same by (metis (no_types, lifting) seg_list_cong)
    then have "rte_pktmbuf_refcnt_update c (mb_next m) v h' =
      Some (\<lambda>q. if q \<in> set qs then Some ((seg_at h' q)\<lparr>refcnt := refcnt (seg_at h' q) + v\<rparr>) else h' q)"
      using Cons.prems(3) Cons by (intro Cons.IH) auto
    moreover have "(\<lambda>x. if x \<in> set qs then Some ((seg_at h' x)\<lparr>refcnt := refcnt (seg_at h' x) + v\<rparr>) else h' x) =
      (\<lambda>x. if x \<in> set (q # qs) then Some ((seg_at h x)\<lparr>refcnt := refcnt (seg_at h x) + v\<rparr>) else h x)"
      using Cons.prems(3) m(3) by (auto simp: fun_eq_iff same) (auto simp: h'_def seg_at_def)
    ultimately show ?thesis
      using m by (subst rte_pktmbuf_refcnt_update.simps) (simp add: refcnt_simps [OF c] h'_def)
  qed
qed simp

text \<open>
  Taking one more reference on every segment of a packet protects it from one free: the free then
  returns nothing to any pool and leaves every mbuf as it was before the reference was taken,
  whether its segments are direct or not.
\<close>

theorem extra_reference_protects:
  assumes c: "config_ok c" and pk: "packet (heap_of st) p ps"
    and live: "\<forall>q\<in>set ps. refcnt (seg_at (heap_of st) q) \<noteq> 0"
  shows "\<exists>h. rte_pktmbuf_refcnt_update c p 1 (heap_of st) = Some h \<and>
             rte_pktmbuf_free c ops p (st\<lparr>heap_of := h\<rparr>) = Some st"
proof -
  note pkD = packetD(1,2,3) [OF pk]
  define h where "h = (\<lambda>q. if q \<in> set ps
    then Some ((seg_at (heap_of st) q)\<lparr>refcnt := refcnt (seg_at (heap_of st) q) + 1\<rparr>) else heap_of st q)"
  have upd: "rte_pktmbuf_refcnt_update c p 1 (heap_of st) = Some h"
    using refcnt_update_chain [OF c pkD] by (simp add: h_def)
  have at: "seg_at h q = (seg_at (heap_of st) q)\<lparr>refcnt := refcnt (seg_at (heap_of st) q) + 1\<rparr>"
    if "q \<in> set ps" for q using that by (simp add: h_def seg_at_def)
  have many: "refcnt (seg_at h q) \<noteq> 1" if "q \<in> set ps" for q using that live at by simp
  have "map_option mb_next (h q) = map_option mb_next (heap_of st q)" if "q \<in> set ps" for q
    using that seg_list_in_heap [OF pkD(1) that] by (simp add: h_def)
  then have "seg_list h p ps" using pkD(1) by (metis (no_types, lifting) seg_list_cong)
  then have "rte_pktmbuf_free c ops p (st\<lparr>heap_of := h\<rparr>) =
      Some \<lparr>heap_of = after_free h ps, pool_of = put_released ops h ps (pool_of st)\<rparr>"
    using free_chain [OF c, of "st\<lparr>heap_of := h\<rparr>" p ps ops] pkD(3) many by simp
  moreover have "after_free h ps = heap_of st"
  proof
    fix q
    show "after_free h ps q = heap_of st q"
      using many [of q] at [of q] seg_list_in_heap [OF pkD(1), of q] by (simp add: after_free_def) (simp add: h_def)
  qed
  moreover have "put_released ops h ps (pool_of st) = pool_of st"
    using many by (simp add: put_released_def filter_False)
  ultimately show ?thesis using upd by simp
qed

section \<open>A concrete state\<close>

text \<open>An mbuf with 60 bytes of data, a free one, and a packet of two segments, the second shared.\<close>

definition share_state :: "ptr list mbuf_state" where
  "share_state = \<lparr>heap_of = [0x1000 \<mapsto> (free_mbuf 0x1000)\<lparr>data_off := 128, data_len := 60, pkt_len := 60\<rparr>,
     0x2000 \<mapsto> free_mbuf 0x2000,
     0x3000 \<mapsto> (free_mbuf 0x3000)\<lparr>nb_segs := 2, pkt_len := 12, data_len := 5, mb_next := 0x4000\<rparr>,
     0x4000 \<mapsto> (free_mbuf 0x4000)\<lparr>data_len := 7, refcnt := 3\<rparr>], pool_of = []\<rparr>"

lemma free_mbuf_fields [simp]:
  "buf_addr (free_mbuf a) = a + 128" "buf_len (free_mbuf a) = 2176" "data_off (free_mbuf a) = 0"
  "data_len (free_mbuf a) = 0" "refcnt (free_mbuf a) = 1" "nb_segs (free_mbuf a) = 1"
  "mb_next (free_mbuf a) = 0" "mb_pool (free_mbuf a) = 0xF000" "ol_flags (free_mbuf a) = 0"
  "priv_size (free_mbuf a) = 0"
  by (simp_all add: free_mbuf_def zero_mbuf_def)

lemma direct_no_flags: "ol_flags m = 0 \<Longrightarrow> RTE_MBUF_DIRECT m"
  by (simp add: RTE_MBUF_DIRECT_def indirect_bit)

lemmas share_simps = share_state_def seg_at_def direct_no_flags buffer_owner_def owns_buffer_def
  demo_config_def seg_ok_def tail_ok_def

lemma share_packet: "packet (heap_of share_state) 0x3000 [0x3000, 0x4000]"
  by (simp add: packet_def share_simps)

theorem rte_pktmbuf_attach_spec_witness:
  "\<exists>st'. rte_pktmbuf_attach demo_config 0x2000 0x1000 share_state = Some st' \<and>
     packet (heap_of st') 0x2000 [0x2000] \<and>
     pkt_addrs (heap_of st') [0x2000] = seg_addrs (seg_at (heap_of share_state) 0x1000) \<and>
     refcnt (seg_at (heap_of st') 0x1000) = 2"
proof -
  let ?m = "seg_at (heap_of share_state) 0x1000"
  have at: "heap_of share_state 0x1000 = Some ?m" "heap_of share_state 0x2000 = Some (free_mbuf 0x2000)"
    by (simp_all add: share_simps)
  have owner: "buffer_owner demo_config 0x1000 ?m = 0x1000" by (simp add: share_simps)
  show ?thesis
    using rte_pktmbuf_attach_spec [OF demo_config_ok at(2) _ _ _ at(1), where d = ?m] owner
    by (auto simp: share_simps)
qed

theorem detach_undoes_attach_witness:
  "\<exists>st1 st2. rte_pktmbuf_attach demo_config 0x2000 0x1000 share_state = Some st1 \<and>
     rte_pktmbuf_detach demo_config list_pool 0x2000 st1 = Some st2 \<and>
     heap_of st2 0x1000 = heap_of share_state 0x1000 \<and> seg_addrs (seg_at (heap_of st2) 0x2000) = []"
proof -
  let ?m = "seg_at (heap_of share_state) 0x1000"
  have at: "heap_of share_state 0x1000 = Some ?m" "heap_of share_state 0x2000 = Some (free_mbuf 0x2000)"
    by (simp_all add: share_simps)
  have owner: "buffer_owner demo_config 0x1000 ?m = 0x1000" by (simp add: share_simps)
  have size: "sizeof_mbuf demo_config < 2 ^ 31" by (simp add: demo_config_def)
  have conds: "RTE_MBUF_DIRECT (free_mbuf 0x2000)" "refcnt (free_mbuf 0x2000) = 1" "(0x1000 :: ptr) \<noteq> 0x2000"
    "RTE_MBUF_DIRECT ?m \<longrightarrow> owns_buffer demo_config 0x1000 ?m"
    "heap_of share_state (buffer_owner demo_config 0x1000 ?m) = Some ?m"
    "buffer_owner demo_config 0x1000 ?m \<noteq> 0x2000" "refcnt ?m \<noteq> 0"
    unfolding owner by (simp_all add: share_simps)
  show ?thesis
    using detach_undoes_attach [OF demo_config_ok size at(2) conds(1,2) at(1) conds(3-7), where ops = list_pool]
    by (auto simp: Let_def)
qed

theorem shared_buffer_freed_once_witness:
  "\<exists>st1 a b. rte_pktmbuf_attach demo_config 0x2000 0x1000 share_state = Some st1 \<and>
     rte_pktmbuf_free_seg demo_config list_pool 0x1000 st1 = Some a \<and> pool_of a = [] \<and>
     rte_pktmbuf_free_seg demo_config list_pool 0x2000 a = Some b \<and> pool_of b = [0x2000, 0x1000]"
proof -
  let ?m = "seg_at (heap_of share_state) 0x1000"
  have at: "heap_of share_state 0x1000 = Some ?m" "heap_of share_state 0x2000 = Some (free_mbuf 0x2000)"
    by (simp_all add: share_simps)
  have conds: "RTE_MBUF_DIRECT (free_mbuf 0x2000)" "refcnt (free_mbuf 0x2000) = 1" "(0x2000 :: ptr) \<noteq> 0"
    "RTE_MBUF_DIRECT ?m" "refcnt ?m = 1" "(0x1000 :: ptr) \<noteq> 0" "tail_ok ?m"
    "owns_buffer demo_config 0x1000 ?m" "(0x1000 :: ptr) \<noteq> 0x2000"
    by (simp_all add: share_simps)
  have put: "mempool_put list_pool mp x xs = x # xs" for mp x xs by (simp add: list_pool_def)
  have empty: "pool_of share_state = []" by (simp add: share_state_def)
  show ?thesis
    using shared_buffer_freed_once [OF demo_config_ok at(2) conds(1-3) at(1) conds(4-9), where ops = list_pool]
    unfolding put empty by blast
qed

theorem rte_pktmbuf_free_spec_witness:
  "\<exists>h. rte_pktmbuf_free demo_config list_pool 0x3000 share_state = Some \<lparr>heap_of = h, pool_of = [0x3000]\<rparr> \<and>
     refcnt (seg_at h 0x4000) = 2"
proof -
  have "\<forall>q\<in>set [0x3000, 0x4000]. RTE_MBUF_DIRECT (seg_at (heap_of share_state) q) \<and>
      tail_ok (seg_at (heap_of share_state) q)"
    by (simp add: share_simps)
  from rte_pktmbuf_free_spec [OF demo_config_ok share_packet this, where ops = list_pool]
  show ?thesis by (simp add: after_free_def share_state_def seg_at_def list_pool_def)
qed

theorem extra_reference_protects_witness:
  "\<exists>h. rte_pktmbuf_refcnt_update demo_config 0x3000 1 (heap_of share_state) = Some h \<and>
       rte_pktmbuf_free demo_config list_pool 0x3000 (share_state\<lparr>heap_of := h\<rparr>) = Some share_state"
  by (rule extra_reference_protects [OF demo_config_ok share_packet]) (simp add: share_simps)

end
