(* ===== verification/Mbuf_Linearize.thy ===== *)
theory Mbuf_Linearize
  imports Mbuf_Share Memcpy
begin

text \<open>
  \<open>rte_pktmbuf_linearize\<close> of \<open>src/src/ext/rte_mbuf.c\<close>, where three parts of the program meet: the
  chain of segments, the release of mbufs and the copy routine \<open>rte_memcpy\<close>.  The specification of
  the copying loop is \<open>gather\<close>, which writes the bytes found at a list of addresses to consecutive
  addresses.
\<close>

section \<open>The model\<close>

partial_function (option) linearize_loop ::
    "cpu \<Rightarrow> mbuf_config \<Rightarrow> 'p mempool_ops \<Rightarrow> ptr \<Rightarrow> ptr \<Rightarrow> memory \<Rightarrow> 'p mbuf_state \<Rightarrow>
     (memory \<times> 'p mbuf_state) option" where
  "linearize_loop cpu c ops buffer m mem st =
     (if m \<noteq> 0 then do {
        x \<leftarrow> heap_of st m;
        (mem, _) \<leftarrow> rte_memcpy cpu mem buffer (rte_pktmbuf_mtod x) (unat (data_len x));
        st \<leftarrow> rte_pktmbuf_free_seg c ops m st;
        linearize_loop cpu c ops (buffer + ucast (data_len x)) (mb_next x) mem st }
      else Some (mem, st))"

definition rte_pktmbuf_linearize ::
    "cpu \<Rightarrow> mbuf_config \<Rightarrow> 'p mempool_ops \<Rightarrow> ptr \<Rightarrow> memory \<Rightarrow> 'p mbuf_state \<Rightarrow>
     (int \<times> memory \<times> 'p mbuf_state) option" where
  "rte_pktmbuf_linearize cpu c ops p mem st = do {
     x \<leftarrow> heap_of st p;
     if rte_pktmbuf_is_contiguous x then Some (0, mem, st)
     else
       let copy_len = sint (pkt_len x - ucast (data_len x))
       in if int (unat (rte_pktmbuf_tailroom x)) < copy_len then Some (- 1, mem, st)
          else do {
            let buffer = rte_pktmbuf_mtod_offset x (ucast (data_len x));
            st \<leftarrow> upd_mbuf p (\<lambda>x. x\<lparr>data_len := ucast (pkt_len x)\<rparr>) st;
            (mem, st) \<leftarrow> linearize_loop cpu c ops buffer (mb_next x) mem st;
            st \<leftarrow> upd_mbuf p (\<lambda>x. x\<lparr>mb_next := 0, nb_segs := 1\<rparr>) st;
            Some (0, mem, st) } }"

section \<open>Gathering bytes\<close>

definition gather :: "memory \<Rightarrow> ptr \<Rightarrow> ptr list \<Rightarrow> memory" where
  "gather m d as = (\<lambda>a. if unat (a - d) < length as then m (as ! unat (a - d)) else m a)"

lemma gather_Nil [simp]: "gather m d [] = m"
  by (simp add: gather_def)

lemma copy_region_gather: "copy_region m d s n = gather m d (addr_range s n)"
  by (rule ext) (simp add: copy_region_def gather_def addr_range_def)

lemma unat_less_64: "unat (a :: ptr) < 2 ^ 64"
  using unsigned_less [of a] by simp

lemma in_addr_range: "a \<in> set (addr_range d n) \<longleftrightarrow> unat (a - d) < n" if "n \<le> 2 ^ 64"
proof
  assume "a \<in> set (addr_range d n)"
  then obtain i where "i < n" "a = d + of_nat i" by (auto simp: addr_range_def)
  with that show "unat (a - d) < n" by (simp add: unsigned_of_nat take_bit_nat_eq_self)
next
  assume "unat (a - d) < n"
  then show "a \<in> set (addr_range d n)"
    unfolding addr_range_def set_map by (intro image_eqI [of _ _ "unat (a - d)"]) simp_all
qed

lemma disjoint_ranges:
  "set as \<inter> set (addr_range s n) = {} \<longleftrightarrow> list_all (\<lambda>a. n \<le> unat (a - s)) as" if "n \<le> 2 ^ 64"
  using in_addr_range [OF that] by (auto simp: list_all_iff not_less)

lemma unat_diff_offset:
  assumes "n < 2 ^ 64"
  shows "unat (a - (d + of_nat n) :: ptr) =
    (if n \<le> unat (a - d) then unat (a - d) - n else 2 ^ 64 - (n - unat (a - d)))"
proof -
  have eq: "a - (d + of_nat n) = (a - d) - of_nat n" by simp
  have n: "unat (of_nat n :: ptr) = n" using assms by (simp add: unsigned_of_nat take_bit_nat_eq_self)
  show ?thesis
    unfolding eq unat_sub_if_size word_size using n unat_less_64 [of "a - d"] assms by auto
qed

lemma gather_append:
  assumes "length as + length bs < 2 ^ 64" "set bs \<inter> set (addr_range d (length as)) = {}"
  shows "gather (gather m d as) (d + of_nat (length as)) bs = gather m d (as @ bs)"
proof
  fix a
  define x where "x = unat (a - d)"
  have off: "unat (a - (d + of_nat (length as))) =
      (if length as \<le> x then x - length as else 2 ^ 64 - (length as - x))"
    using assms(1) unfolding x_def by (intro unat_diff_offset) simp
  have inner: "gather m d as (bs ! j) = m (bs ! j)" if "j < length bs" for j
  proof -
    have "bs ! j \<notin> set (addr_range d (length as))" using assms(2) nth_mem [OF that] by blast
    then show ?thesis using assms(1) by (simp add: in_addr_range gather_def)
  qed
  show "gather (gather m d as) (d + of_nat (length as)) bs a = gather m d (as @ bs) a"
  proof (cases "length as \<le> x")
    case True
    then have off: "unat (a - (d + of_nat (length as))) = x - length as" using off by simp
    show ?thesis
    proof (cases "x - length as < length bs")
      case inb: True
      then have "gather (gather m d as) (d + of_nat (length as)) bs a = m (bs ! (x - length as))"
        using inner by (simp add: gather_def [of "gather m d as"] off)
      moreover have "x < length as + length bs" using True inb by linarith
      ultimately show ?thesis using True by (simp add: gather_def x_def [symmetric] nth_append)
    next
      case False
      then have "\<not> x < length as + length bs" using True by linarith
      with True False show ?thesis by (simp add: gather_def off x_def [symmetric])
    qed
  next
    case False
    with off assms(1) have "\<not> unat (a - (d + of_nat (length as))) < length bs" by simp
    then have "gather (gather m d as) (d + of_nat (length as)) bs a = gather m d as a"
      by (simp add: gather_def [of "gather m d as"])
    with False show ?thesis by (simp add: gather_def x_def nth_append)
  qed
qed

lemma gather_mapped:
  assumes "mapped m a k" "\<And>b. b \<in> set as \<Longrightarrow> m b \<noteq> None"
  shows "mapped (gather m d as) a k"
  using assms by (auto simp: mapped_def gather_def)

lemma gather_outside: "length as \<le> 2 ^ 64 \<Longrightarrow> a \<notin> set (addr_range d (length as)) \<Longrightarrow> gather m d as a = m a"
  by (simp add: in_addr_range gather_def)

lemma gather_inside:
  assumes "length as < 2 ^ 64"
  shows "map (gather m d as) (addr_range d (length as)) = map m as"
proof (rule nth_equalityI)
  fix i assume "i < length (map (gather m d as) (addr_range d (length as)))"
  then have i: "i < length as" by simp
  then have "unat (of_nat i :: ptr) = i" using assms by (simp add: unsigned_of_nat take_bit_nat_eq_self)
  with i show "map (gather m d as) (addr_range d (length as)) ! i = map m as ! i"
    by (simp add: addr_range_def gather_def)
qed simp

lemma disjoint_no_overlap:
  assumes "set (addr_range d n) \<inter> set (addr_range s n) = {}" "n \<le> 2 ^ 64"
  shows "no_overlap d s n"
proof (cases "n = 0")
  case False
  then have "d \<in> set (addr_range d n)" "s \<in> set (addr_range s n)" using assms(2) by (simp_all add: in_addr_range)
  with assms have "d \<notin> set (addr_range s n)" "s \<notin> set (addr_range d n)" by auto
  with assms(2) show ?thesis by (simp add: in_addr_range no_overlap_def not_less)
qed (simp add: no_overlap_def)

section \<open>The copying loop\<close>

text \<open>
  What the loop needs of memory: the area it fills and the data of the segments are mapped, and do
  not overlap.  For SSE, the start of the 16-byte line of each segment has to be readable.
\<close>

definition gatherable :: "cpu \<Rightarrow> memory \<Rightarrow> heap \<Rightarrow> ptr list \<Rightarrow> ptr \<Rightarrow> bool" where
  "gatherable cpu m h qs d \<longleftrightarrow>
     mapped m d (length (pkt_addrs h qs)) \<and>
     set (addr_range d (length (pkt_addrs h qs))) \<inter> set (pkt_addrs h qs) = {} \<and>
     (\<forall>q\<in>set qs. mapped m (rte_pktmbuf_mtod (seg_at h q)) (unat (data_len (seg_at h q))) \<and>
        (cpu = SSE \<longrightarrow> line_mapped m (rte_pktmbuf_mtod (seg_at h q))))"

lemma mapped_addrs: "mapped m a n \<Longrightarrow> b \<in> set (addr_range a n) \<Longrightarrow> m b \<noteq> None"
  by (auto simp: mapped_def addr_range_def)

lemma addr_range_suffix: "set (addr_range (a + of_nat m) n) \<subseteq> set (addr_range a (m + n))"
  by (simp add: addr_range_add)

lemma gatherable_next:
  assumes g: "gatherable cpu m h (q # qs) d" and small: "length (pkt_addrs h (q # qs)) < 2 ^ 64"
  shows "gatherable cpu (gather m d (seg_addrs (seg_at h q))) h qs (d + of_nat (unat (data_len (seg_at h q))))"
proof -
  define n where "n = unat (data_len (seg_at h q))"
  define as where "as = seg_addrs (seg_at h q)"
  have as: "\<And>b. b \<in> set as \<Longrightarrow> m b \<noteq> None"
    using g mapped_addrs by (auto simp: gatherable_def as_def seg_addrs_def)
  note mp = gather_mapped [where d = d, OF _ as]
  have len: "length (pkt_addrs h (q # qs)) = n + length (pkt_addrs h qs)" by (simp add: n_def)
  from g have "mapped m d (n + length (pkt_addrs h qs))" by (simp add: gatherable_def n_def)
  then have "mapped m (d + of_nat n) (length (pkt_addrs h qs))" by (rule mapped_sub) simp
  moreover have "set (addr_range (d + of_nat n) (length (pkt_addrs h qs))) \<inter> set (pkt_addrs h qs) = {}"
    using g addr_range_suffix [of d n "length (pkt_addrs h qs)"] by (auto simp: gatherable_def n_def)
  ultimately show ?thesis
    using g mp unfolding gatherable_def as_def [symmetric] n_def [symmetric] line_mapped_def by auto
qed

lemma segment_copyable:
  assumes g: "gatherable cpu m h (q # qs) d" and small: "length (pkt_addrs h (q # qs)) < 2 ^ 64"
  defines "s \<equiv> rte_pktmbuf_mtod (seg_at h q)" and "n \<equiv> unat (data_len (seg_at h q))"
  shows "rte_memcpy cpu m d s n = Some (gather m d (seg_addrs (seg_at h q)), d)"
proof -
  have "mapped m d (n + length (pkt_addrs h qs))" using g by (simp add: gatherable_def n_def)
  then have "mapped m (d + of_nat 0) n" by (rule mapped_sub) simp
  moreover have "mapped m s n" using g by (simp add: gatherable_def s_def n_def)
  moreover have "set (addr_range d n) \<inter> set (addr_range s n) = {}"
    using g by (auto simp: gatherable_def addr_range_add n_def s_def seg_addrs_def)
  then have "no_overlap d s n" using small by (intro disjoint_no_overlap) (simp_all add: n_def)
  ultimately have "copyable m d s n" by (simp add: copyable_def)
  moreover have "sse_readable cpu m d s n" using g by (simp add: sse_readable_def gatherable_def s_def)
  ultimately have "rte_memcpy cpu m d s n = Some (copy_region m d s n, d)" by (rule rte_memcpy_copy)
  then show ?thesis by (simp add: copy_region_gather seg_addrs_def s_def n_def)
qed

lemma linearize_chain:
  assumes c: "config_ok c"
  shows "seg_list (heap_of st) p qs \<Longrightarrow> distinct qs \<Longrightarrow>
    (\<forall>q\<in>set qs. refcnt (seg_at (heap_of st) q) = 1 \<longrightarrow>
       RTE_MBUF_DIRECT (seg_at (heap_of st) q) \<and> tail_ok (seg_at (heap_of st) q)) \<Longrightarrow>
    gatherable cpu m (heap_of st) qs d \<Longrightarrow> length (pkt_addrs (heap_of st) qs) < 2 ^ 64 \<Longrightarrow>
    linearize_loop cpu c ops d p m st = Some (gather m d (pkt_addrs (heap_of st) qs),
      \<lparr>heap_of = after_free (heap_of st) qs, pool_of = put_released ops (heap_of st) qs (pool_of st)\<rparr>)"
proof (induction qs arbitrary: p st m d)
  case Nil
  then show ?case by (subst linearize_loop.simps) (simp add: after_free_def put_released_def)
next
  case (Cons q qs)
  then obtain x where x: "p = q" "q \<noteq> 0" "heap_of st q = Some x" "seg_list (heap_of st) (mb_next x) qs"
    by (auto split: option.splits)
  have at: "seg_at (heap_of st) q = x" using x by (simp add: seg_at_def)
  have dis: "q \<notin> set qs" "distinct qs" using Cons.prems(2) by simp_all
  have release: "refcnt x = 1 \<longrightarrow> RTE_MBUF_DIRECT x \<and> tail_ok x" using Cons.prems(3) at by simp
  obtain st' where st': "rte_pktmbuf_free_seg c ops q st = Some st'"
    "\<And>r. r \<in> set qs \<Longrightarrow> heap_of st' r = heap_of st r"
    "after_free (heap_of st') qs = after_free (heap_of st) (q # qs)"
    "put_released ops (heap_of st') qs (pool_of st') = put_released ops (heap_of st) (q # qs) (pool_of st)"
    using free_one [OF c x(3,2) _ release, of qs ops] dis by blast
  then have same: "seg_at (heap_of st') r = seg_at (heap_of st) r" if "r \<in> set qs" for r
    using that by (simp add: seg_at_def)
  have addrs: "pkt_addrs (heap_of st') qs = pkt_addrs (heap_of st) qs"
    by (rule pkt_addrs_cong) (simp add: same)
  let ?as = "seg_addrs x"
  let ?d = "d + of_nat (unat (data_len x))"
  have "gatherable cpu (gather m d ?as) (heap_of st) qs ?d"
    using gatherable_next [OF Cons.prems(4,5)] by (simp add: at)
  then have "gatherable cpu (gather m d ?as) (heap_of st') qs ?d"
    using same by (simp add: gatherable_def addrs)
  moreover have "seg_list (heap_of st') (mb_next x) qs"
    using x(4) st'(2) by (metis (no_types, lifting) seg_list_cong)
  moreover have "\<forall>q\<in>set qs. refcnt (seg_at (heap_of st') q) = 1 \<longrightarrow>
       RTE_MBUF_DIRECT (seg_at (heap_of st') q) \<and> tail_ok (seg_at (heap_of st') q)"
    using Cons.prems(3) same by simp
  moreover have "length (pkt_addrs (heap_of st') qs) < 2 ^ 64"
    using Cons.prems(5) unfolding addrs by simp
  ultimately have rest: "linearize_loop cpu c ops ?d (mb_next x) (gather m d ?as) st' =
    Some (gather (gather m d ?as) ?d (pkt_addrs (heap_of st) qs),
      \<lparr>heap_of = after_free (heap_of st) (q # qs), pool_of = put_released ops (heap_of st) (q # qs) (pool_of st)\<rparr>)"
    using Cons.IH dis(2) unfolding addrs [symmetric] st'(3,4) [symmetric] by blast
  moreover have "gather (gather m d ?as) ?d (pkt_addrs (heap_of st) qs) =
      gather m d (pkt_addrs (heap_of st) (q # qs))"
  proof -
    have "set (pkt_addrs (heap_of st) qs) \<inter> set (addr_range d (length ?as)) = {}"
      using Cons.prems(4) by (auto simp: gatherable_def addr_range_add at)
    then show ?thesis
      using Cons.prems(5) gather_append [of ?as "pkt_addrs (heap_of st) qs" d m] by (simp add: at)
  qed
  moreover have "rte_memcpy cpu m d (rte_pktmbuf_mtod x) (unat (data_len x)) = Some (gather m d ?as, d)"
    using segment_copyable [OF Cons.prems(4,5)] by (simp add: at)
  moreover have "ucast (data_len x) = (of_nat (unat (data_len x)) :: u64)" by (simp add: of_nat_unat_u16)
  ultimately show ?case
    using x(1-3) st'(1) rest by (subst linearize_loop.simps) (simp only: simp_thms if_True bind.bind_lunit prod.case)
qed

section \<open>Properties\<close>

text \<open>What the caller has to guarantee of the packet and of memory.\<close>

definition linearizable :: "cpu \<Rightarrow> memory \<Rightarrow> heap \<Rightarrow> ptr list \<Rightarrow> bool" where
  "linearizable cpu m h ps \<longleftrightarrow>
     (let x = seg_at h (hd ps); d = rte_pktmbuf_mtod_offset x (ucast (data_len x))
      in gatherable cpu m h (tl ps) d \<and>
         set (addr_range d (length (pkt_addrs h (tl ps)))) \<inter> set (seg_addrs x) = {} \<and>
         (\<forall>q\<in>set (tl ps). refcnt (seg_at h q) = 1 \<longrightarrow> RTE_MBUF_DIRECT (seg_at h q) \<and> tail_ok (seg_at h q)))"

text \<open>
  C7: Linearizing a packet of less than 2 GB either fails with -1 because the first segment has not
  enough tailroom, changing nothing, or makes it a well-formed packet of a single segment with
  exactly the bytes the packet had, in order; the other segments are released as by
  \<open>rte_pktmbuf_free\<close>.  All bytes are moved by \<open>rte_memcpy\<close>, on any instruction set.  The packet has to be
  well formed and \<open>linearizable\<close>: the memory of the segments and of the tailroom can be accessed as
  \<open>rte_memcpy\<close> needs it, the tailroom that is written overlaps no segment's data, and the
  segments that only this packet references are direct and end well (\<open>tail_ok\<close>).
\<close>

theorem rte_pktmbuf_linearize_spec:
  assumes c: "config_ok c" and pk: "packet (heap_of st) p ps" and lin: "linearizable cpu m (heap_of st) ps"
    and small: "length (pkt_addrs (heap_of st) (tl ps)) < 2 ^ 31"
  shows "if length ps = 1 then rte_pktmbuf_linearize cpu c ops p m st = Some (0, m, st)
         else if unat (rte_pktmbuf_tailroom (seg_at (heap_of st) p)) < length (pkt_addrs (heap_of st) (tl ps))
         then rte_pktmbuf_linearize cpu c ops p m st = Some (- 1, m, st)
         else \<exists>m' st'. rte_pktmbuf_linearize cpu c ops p m st = Some (0, m', st') \<and>
                packet (heap_of st') p [p] \<and>
                map m' (pkt_addrs (heap_of st') [p]) = map m (pkt_addrs (heap_of st) ps) \<and>
                (\<forall>q\<in>set (tl ps). heap_of st' q = after_free (heap_of st) (tl ps) q) \<and>
                pool_of st' = put_released ops (heap_of st) (tl ps) (pool_of st)"
proof -
  from pk obtain qs where ps: "ps = p # qs" "p \<notin> set qs" by (rule packet_split_head)
  define h where "h = heap_of st"
  define x where "x = seg_at h p"
  define n where "n = length (pkt_addrs h qs)"
  have hp: "h p = Some x" using packetD(7) [OF pk] by (simp add: h_def x_def)
  have segs: "unat (nb_segs x) = length ps" and plen: "unat (pkt_len x) = unat (data_len x) + n"
    using packetD(11,12) [OF pk] ps by (simp_all add: h_def x_def n_def)
  have ok: "seg_ok x" using packetD(5,10) [OF pk] by (simp add: h_def x_def)
  have p0: "p \<noteq> 0" and chain: "seg_list h (mb_next x) qs"
    using packetD(1) [OF pk] hp unfolding ps(1) h_def by auto
  have one: "rte_pktmbuf_is_contiguous x \<longleftrightarrow> length ps = 1"
    using segs by (simp add: rte_pktmbuf_is_contiguous_def word_unat_eq_iff)
  have "unat (pkt_len x - ucast (data_len x)) = n" using plen by (subst unat_sub_pkt_len) simp_all
  moreover have "n < 2 ^ 31" using small ps by (simp add: n_def h_def)
  ultimately have copy_len: "sint (pkt_len x - ucast (data_len x)) = int n" by (simp add: sint_small)
  have fits: "uint (rte_pktmbuf_tailroom x) < int n \<longleftrightarrow> unat (rte_pktmbuf_tailroom x) < n"
    using of_nat_less_iff [of "unat (rte_pktmbuf_tailroom x)" n, where 'a = int] by simp
  show ?thesis
  proof (cases "length ps = 1 \<or> unat (rte_pktmbuf_tailroom x) < n")
    case True
    then show ?thesis using hp one copy_len fits ps
      unfolding rte_pktmbuf_linearize_def h_def [symmetric] n_def [symmetric] x_def [symmetric]
      by (auto simp: n_def)
  next
    case False
    define d where "d = rte_pktmbuf_mtod_offset x (ucast (data_len x))"
    define x1 where "x1 = x\<lparr>data_len := ucast (pkt_len x)\<rparr>"
    define st1 where "st1 = st\<lparr>heap_of := h(p \<mapsto> x1)\<rparr>"
    have same: "seg_at (heap_of st1) q = seg_at h q" "heap_of st1 q = h q" if "q \<in> set qs" for q
      using that ps(2) by (auto simp: st1_def)
    have addrs: "pkt_addrs (heap_of st1) qs = pkt_addrs h qs" by (rule pkt_addrs_cong) (simp add: same)
    from lin ps have lin': "gatherable cpu m h qs d" "set (addr_range d n) \<inter> set (seg_addrs x) = {}"
      "\<forall>q\<in>set qs. refcnt (seg_at h q) = 1 \<longrightarrow> RTE_MBUF_DIRECT (seg_at h q) \<and> tail_ok (seg_at h q)"
      by (simp_all add: linearizable_def Let_def h_def d_def x_def n_def)
    have small': "n < 2 ^ 64" using small ps by (simp add: n_def h_def)
    have "seg_list (heap_of st1) (mb_next x) qs"
      using chain same by (metis (no_types, lifting) seg_list_cong)
    moreover have "gatherable cpu m (heap_of st1) qs d"
      using lin'(1) same by (simp add: gatherable_def addrs)
    ultimately have loop: "linearize_loop cpu c ops d (mb_next x) m st1 = Some (gather m d (pkt_addrs h qs),
        \<lparr>heap_of = after_free (heap_of st1) qs, pool_of = put_released ops (heap_of st1) qs (pool_of st1)\<rparr>)"
      using packetD(3) [OF pk] ps lin'(3) same small'
      by (subst linearize_chain [OF c, where qs = qs]) (simp_all add: addrs n_def)
    define x2 where "x2 = x1\<lparr>mb_next := 0, nb_segs := 1\<rparr>"
    define m' where "m' = gather m d (pkt_addrs h qs)"
    define st2 where "st2 = \<lparr>heap_of = (after_free (heap_of st1) qs)(p \<mapsto> x2),
      pool_of = put_released ops (heap_of st1) qs (pool_of st1)\<rparr>"
    have res: "rte_pktmbuf_linearize cpu c ops p m st = Some (0, m', st2)"
      using False hp one copy_len fits loop ps(2)
      by (simp add: rte_pktmbuf_linearize_def h_def [symmetric] upd_mbuf_def d_def x1_def [symmetric]
          st1_def [symmetric])
        (simp add: m'_def st2_def x2_def after_free_def st1_def d_def)
    have room: "unat (data_off x) + unat (data_len x) + n \<le> unat (buf_len x)"
      using False ok seg_ok_room [OF ok] unfolding seg_ok_def by arith
    then have "unat (pkt_len x) < 2 ^ 16" using plen unat_u16_less [of "buf_len x"] by linarith
    then have dl: "unat (data_len x2) = unat (data_len x) + n"
      by (simp add: x2_def x1_def unsigned_ucast_eq take_bit_nat_eq_self plen)
    have at2: "seg_at (heap_of st2) p = x2" by (simp add: st2_def)
    have "seg_addrs x2 = seg_addrs x @ addr_range d n"
      by (simp add: seg_addrs_def dl addr_range_add)
        (simp add: x2_def x1_def rte_pktmbuf_mtod_def rte_pktmbuf_mtod_offset_def d_def of_nat_unat_u16)
    moreover have "map m' (seg_addrs x) = map m (seg_addrs x)"
      using lin'(2) small' by (auto simp: m'_def n_def intro!: gather_outside)
    moreover have "map m' (addr_range d n) = map m (pkt_addrs h qs)"
      using small' gather_inside [of "pkt_addrs h qs" m d] by (simp add: m'_def n_def)
    ultimately have bytes: "map m' (pkt_addrs (heap_of st2) [p]) = map m (pkt_addrs h ps)"
      using ps by (simp add: at2 x_def)
    have "packet (heap_of st2) p [p]"
      using p0 room dl by (simp add: packet_def at2 st2_def)
        (simp add: seg_ok_def x2_def x1_def plen)
    moreover have "\<forall>q\<in>set qs. heap_of st2 q = after_free h qs q"
      using ps(2) same by (auto simp: st2_def after_free_def)
    moreover have "pool_of st2 = put_released ops h qs (pool_of st)"
      using put_released_cong [of qs "heap_of st1" h ops] same by (simp add: st2_def st1_def)
    ultimately show ?thesis using False res bytes ps by (auto simp: h_def n_def x_def)
  qed
qed

text \<open>
  The check for tailroom is made on a signed 32-bit number: for a packet whose other segments hold
  2 GB or more, which 65535 segments can, it never fails, however little tailroom there is.
\<close>

theorem linearize_check_overflows:
  assumes "heap_of st p = Some x" "nb_segs x \<noteq> 1" "2 ^ 31 \<le> unat (pkt_len x - ucast (data_len x))"
  shows "rte_pktmbuf_linearize cpu c ops p m st \<noteq> Some (- 1, m', st') \<and>
         unat (rte_pktmbuf_tailroom x) < unat (pkt_len x - ucast (data_len x))"
proof -
  have "sint (pkt_len x - ucast (data_len x)) < 0" using assms(3) by (rule sint_large)
  moreover have "0 \<le> uint (rte_pktmbuf_tailroom x)" by simp
  ultimately have "\<not> uint (rte_pktmbuf_tailroom x) < sint (pkt_len x - ucast (data_len x))" by linarith
  moreover have "unat (rte_pktmbuf_tailroom x) < 2 ^ 31"
    using unat_u16_less [of "rte_pktmbuf_tailroom x"] by simp
  ultimately show ?thesis using assms
    by (auto simp: rte_pktmbuf_linearize_def rte_pktmbuf_is_contiguous_def bind_eq_Some_conv)
qed

lemma share_linearizable:
  "linearizable AVX2 (\<lambda>a. Some (ucast a)) (heap_of share_state) [0x3000, 0x4000]"
proof -
  have "set (addr_range (0x3085 :: ptr) 7) \<inter> set (addr_range 0x3080 5) = {}"
    "set (addr_range (0x3085 :: ptr) 7) \<inter> set (addr_range 0x4080 7) = {}"
    by (simp_all add: disjoint_ranges) (simp_all add: addr_range_def upt_conv_Cons)
  then show ?thesis
    unfolding linearizable_def gatherable_def
    by (simp add: share_simps Let_def mapped_total rte_pktmbuf_mtod_offset_def rte_pktmbuf_mtod_def
        seg_addrs_def)
qed

theorem rte_pktmbuf_linearize_spec_witness:
  "\<exists>m' st'. rte_pktmbuf_linearize AVX2 demo_config list_pool 0x3000 (\<lambda>a. Some (ucast a)) share_state =
       Some (0, m', st') \<and> packet (heap_of st') 0x3000 [0x3000] \<and>
     map m' (pkt_addrs (heap_of st') [0x3000]) =
       map (\<lambda>a. Some (ucast a)) (pkt_addrs (heap_of share_state) [0x3000, 0x4000])"
proof -
  have len: "length (pkt_addrs (heap_of share_state) (tl [0x3000, 0x4000])) = 7"
    by (simp add: share_simps)
  then have small: "length (pkt_addrs (heap_of share_state) (tl [0x3000, 0x4000])) < 2 ^ 31" by simp
  have room: "unat (rte_pktmbuf_tailroom (seg_at (heap_of share_state) 0x3000)) = 2171"
    by (simp add: rte_pktmbuf_tailroom_def rte_pktmbuf_headroom_def share_simps)
  from rte_pktmbuf_linearize_spec [OF demo_config_ok share_packet share_linearizable small, where ops = list_pool]
  show ?thesis unfolding len room by auto
qed

theorem linearize_check_overflows_witness:
  "let x = zero_mbuf\<lparr>nb_segs := 40000, pkt_len := 0x80000000, data_len := 0\<rparr>
   in \<forall>m'. rte_pktmbuf_linearize AVX2 demo_config list_pool 0x1000 (\<lambda>a. None)
        \<lparr>heap_of = [0x1000 \<mapsto> x], pool_of = []\<rparr> \<noteq> Some (- 1, m', share_state) \<and>
        unat (rte_pktmbuf_tailroom x) = 0"
  using linearize_check_overflows [of "\<lparr>heap_of =
      [0x1000 \<mapsto> zero_mbuf\<lparr>nb_segs := 40000, pkt_len := 0x80000000, data_len := 0\<rparr>], pool_of = []\<rparr>" "0x1000"
      "zero_mbuf\<lparr>nb_segs := 40000, pkt_len := 0x80000000, data_len := 0\<rparr>" AVX2 demo_config list_pool
      "\<lambda>a. None" _ share_state]
  by (simp add: rte_pktmbuf_tailroom_def rte_pktmbuf_headroom_def zero_mbuf_def)

end
