(* ===== verification/Mbuf_Clone.thy ===== *)
theory Mbuf_Clone
  imports Mbuf_Share
begin

text \<open>
  \<open>rte_pktmbuf_clone\<close> of \<open>src/src/ext/rte_mbuf.c\<close>: the loop that allocates one indirect mbuf per
  segment and links them through a pointer to the last \<open>next\<close> field.  What the mempool hands out is
  described by \<open>supplies\<close>; the result is a packet over the same bytes, and every owner of a buffer
  counts one more reference for each of its segments.
\<close>

section \<open>What the pool hands out\<close>

primrec supplies :: "'p mempool_ops \<Rightarrow> ptr \<Rightarrow> 'p \<Rightarrow> ptr list \<Rightarrow> 'p \<Rightarrow> bool" where
  "supplies ops mp pl [] pl' \<longleftrightarrow> pl' = pl"
| "supplies ops mp pl (f # fs) pl' \<longleftrightarrow>
     (case mempool_get ops mp pl of (rc, p, pl1) \<Rightarrow> 0 \<le> rc \<and> p = f \<and> supplies ops mp pl1 fs pl')"

definition spare :: "heap \<Rightarrow> ptr \<Rightarrow> bool" where
  "spare h f \<longleftrightarrow> f \<noteq> 0 \<and>
     (case h f of None \<Rightarrow> False | Some m \<Rightarrow> refcnt m = 1 \<and> mb_next m = 0 \<and> nb_segs m = 1)"

lemma spare_fresh: "spare h f \<Longrightarrow> fresh_mbuf c h f"
  by (auto simp: spare_def fresh_mbuf_def split: option.splits)

lemma reset_direct: "RTE_MBUF_DIRECT (rte_pktmbuf_reset c m)"
  by (simp add: RTE_MBUF_DIRECT_def indirect_bit)

section \<open>The rest of the loop after an attachment\<close>

definition clone_rest ::
    "mbuf_config \<Rightarrow> 'p mempool_ops \<Rightarrow> ptr \<Rightarrow> ptr \<Rightarrow> ptr \<Rightarrow> u16 \<Rightarrow> 'p mbuf_state \<Rightarrow>
     (ptr \<times> ptr \<times> u16 \<times> 'p mbuf_state) option" where
  "clone_rest c ops mp mi md nseg st = do {
     d \<leftarrow> heap_of st md;
     let md = mb_next d;
     if md \<noteq> 0 then do {
       (mi', st) \<leftarrow> rte_pktmbuf_alloc c ops mp st;
       if mi' \<noteq> 0 then clone_loop c ops mp mi' mi md nseg st
       else Some (mi', mi, nseg, st) }
     else Some (mi, mi, nseg, st) }"

lemma clone_loop_unfold:
  "clone_loop c ops mp mi prev md nseg st = do {
     st \<leftarrow> rte_pktmbuf_attach c mi md st;
     st \<leftarrow> upd_mbuf prev (\<lambda>m. m\<lparr>mb_next := mi\<rparr>) st;
     clone_rest c ops mp mi md (nseg + 1) st }"
  by (subst clone_loop.simps) (simp add: clone_rest_def [abs_def] Let_def)

text \<open>
  The segments still to be cloned, with the owners of their buffers, as the loop finds them; \<open>own\<close>
  does not change while the loop runs, because only counters do.
\<close>

definition clonable :: "mbuf_config \<Rightarrow> heap \<Rightarrow> (ptr \<Rightarrow> ptr) \<Rightarrow> ptr list \<Rightarrow> ptr list \<Rightarrow> bool" where
  "clonable c h own qs fs \<longleftrightarrow>
     (\<forall>q\<in>set qs. q \<notin> set fs \<and> own q \<notin> set fs \<and> h (own q) \<noteq> None \<and>
        buffer_owner c q (seg_at h q) = own q)"

definition count_owned :: "(ptr \<Rightarrow> ptr) \<Rightarrow> ptr list \<Rightarrow> ptr \<Rightarrow> nat" where
  "count_owned own qs a = length (filter (\<lambda>q. own q = a) qs)"

definition add_refs :: "nat \<Rightarrow> rte_mbuf \<Rightarrow> rte_mbuf" where
  "add_refs n m = m\<lparr>refcnt := refcnt m + of_nat n\<rparr>"

lemma add_refs_frame [simp]:
  "mb_next (add_refs n m) = mb_next m" "seg_addrs (add_refs n m) = seg_addrs m"
  "seg_ok (add_refs n m) = seg_ok m" "buffer_owner c q (add_refs n m) = buffer_owner c q m"
  "add_refs 0 m = m" "add_refs i (add_refs j m) = add_refs (i + j) m"
  by (simp_all add: add_refs_def seg_addrs_def seg_ok_def rte_pktmbuf_mtod_def
      rte_pktmbuf_mtod_offset_def buffer_owner_def rte_mbuf_from_indirect_def)

lemma add_no_refs [simp]: "map_option (add_refs 0) x = x"
  by (cases x) simp_all

section \<open>One round\<close>

text \<open>
  A round allocates \<open>f\<close>, attaches it to the segment \<open>q\<close> and links it behind \<open>mi\<close>: the heap after it.
\<close>

definition round_heap :: "mbuf_config \<Rightarrow> (ptr \<Rightarrow> ptr) \<Rightarrow> heap \<Rightarrow> ptr \<Rightarrow> ptr \<Rightarrow> ptr \<Rightarrow> heap" where
  "round_heap c own h mi q f =
     (let h1 = h(own q \<mapsto> add_refs 1 (seg_at h (own q)),
                 f \<mapsto> attach_fields (rte_pktmbuf_reset c (seg_at h f)) (seg_at h q))
      in h1(mi \<mapsto> (seg_at h1 mi)\<lparr>mb_next := f\<rparr>))"

lemma alloc_attach:
  assumes c: "config_ok c" and get: "mempool_get ops mp (pool_of st) = (rc, f, pl)" "0 \<le> rc"
    and f: "spare (heap_of st) f" and q: "heap_of st q = Some m" "q \<noteq> f"
    and own: "buffer_owner c q m = o'" "heap_of st o' = Some d" "o' \<noteq> f"
  shows "\<exists>st1. rte_pktmbuf_alloc c ops mp st = Some (f, st1) \<and>
    rte_pktmbuf_attach c f q st1 = Some \<lparr>heap_of = (heap_of st)(o' \<mapsto> add_refs 1 d,
      f \<mapsto> attach_fields (rte_pktmbuf_reset c (seg_at (heap_of st) f)) m), pool_of = pl\<rparr>"
proof -
  obtain mf where mf: "heap_of st f = Some mf" "refcnt mf = 1" "f \<noteq> 0"
    using f by (auto simp: spare_def split: option.splits)
  define st1 where "st1 = st\<lparr>pool_of := pl, heap_of := (heap_of st)(f \<mapsto> rte_pktmbuf_reset c mf)\<rparr>"
  have "rte_pktmbuf_alloc c ops mp st = Some (f, st1)"
    unfolding st1_def by (rule alloc_reset [OF c get mf(3) spare_fresh [OF f] mf(1)])
  moreover have "rte_pktmbuf_attach c f q st1 = Some (st1\<lparr>heap_of := (heap_of st1)
      (buffer_owner c q m \<mapsto> d\<lparr>refcnt := refcnt d + 1\<rparr>, f \<mapsto> attach_fields (rte_pktmbuf_reset c mf) m)\<rparr>)"
    using q own mf by (intro attach_effect [OF c]) (simp_all add: st1_def reset_direct)
  ultimately show ?thesis
    using own mf by (auto simp: st1_def add_refs_def seg_at_def)
qed

lemma clone_round:
  assumes c: "config_ok c" and get: "mempool_get ops mp (pool_of st) = (rc, f, pl)" "0 \<le> rc"
    and f: "spare (heap_of st) f" and q: "heap_of st q \<noteq> None" "q \<noteq> 0"
    and own: "clonable c (heap_of st) own (q # qs) (mi # f # fs)"
    and mi: "heap_of st mi \<noteq> None" "mi \<noteq> f"
    and md: "heap_of st md = Some d" "mb_next d = q"
  shows "clone_rest c ops mp mi md nseg st = clone_rest c ops mp f q (nseg + 1)
           \<lparr>heap_of = round_heap c own (heap_of st) mi q f, pool_of = pl\<rparr>"
proof -
  let ?h = "heap_of st"
  have own': "q \<noteq> f" "own q \<noteq> f" "own q \<noteq> mi" "?h (own q) = Some (seg_at ?h (own q))"
    "buffer_owner c q (seg_at ?h q) = own q"
    using own by (auto simp: clonable_def seg_at_def)
  have hq: "?h q = Some (seg_at ?h q)" using q by (auto simp: seg_at_def)
  from alloc_attach [OF c get f hq own'(1,5,4,2)] obtain st1 where st1:
    "rte_pktmbuf_alloc c ops mp st = Some (f, st1)"
    "rte_pktmbuf_attach c f q st1 = Some \<lparr>heap_of = ?h(own q \<mapsto> add_refs 1 (seg_at ?h (own q)),
      f \<mapsto> attach_fields (rte_pktmbuf_reset c (seg_at ?h f)) (seg_at ?h q)), pool_of = pl\<rparr>"
    by blast
  have "f \<noteq> 0" using f by (simp add: spare_def)
  then have "clone_rest c ops mp mi md nseg st = clone_loop c ops mp f mi q nseg st1"
    using md q(2) st1(1) by (simp add: clone_rest_def)
  also have "\<dots> = clone_rest c ops mp f q (nseg + 1)
      \<lparr>heap_of = round_heap c own ?h mi q f, pool_of = pl\<rparr>"
    using st1(2) mi own'(3) unfolding clone_loop_unfold
    by (auto simp: upd_mbuf_def round_heap_def seg_at_def Let_def)
  finally show ?thesis .
qed

lemma round_heap_at:
  assumes "clonable c h own (q # qs) (mi # f # fs)" "mi \<noteq> f"
  shows "round_heap c own h mi q f mi = Some ((seg_at h mi)\<lparr>mb_next := f\<rparr>)"
    "round_heap c own h mi q f f = Some (attach_fields (rte_pktmbuf_reset c (seg_at h f)) (seg_at h q))"
    "a \<notin> {mi, f} \<Longrightarrow> round_heap c own h mi q f a = map_option (add_refs (if own q = a then 1 else 0)) (h a)"
  using assms by (auto simp: round_heap_def Let_def clonable_def seg_at_def)

section \<open>The whole loop\<close>

text \<open>
  \<open>copy_of m b x\<close>: \<open>x\<close>, taken from the pool as \<open>b\<close>, is a segment over the buffer of \<open>m\<close>.  The loop keeps
  everything of the mbuf it starts with but the link, and leaves one copy for each segment.
\<close>

definition copy_of :: "rte_mbuf \<Rightarrow> rte_mbuf \<Rightarrow> rte_mbuf \<Rightarrow> bool" where
  "copy_of m b x \<longleftrightarrow> RTE_MBUF_INDIRECT x \<and> refcnt x = refcnt b \<and> nb_segs x = 1 \<and> mb_pool x = mb_pool b \<and>
     buf_addr x = buf_addr m \<and> priv_size x = priv_size m"

lemma copy_of_attach: "copy_of m b (attach_fields (rte_pktmbuf_reset c b) m)"
  by (simp add: copy_of_def attach_indirect rte_pktmbuf_reset_def rte_pktmbuf_reset_headroom_def Let_def)

lemma copy_of_frame [simp]:
  "copy_of (add_refs n m) b x = copy_of m b x" "copy_of m b (x\<lparr>mb_next := y\<rparr>) = copy_of m b x"
  by (simp_all add: copy_of_def add_refs_def RTE_MBUF_INDIRECT_def)

definition cloned :: "(ptr \<Rightarrow> ptr) \<Rightarrow> heap \<Rightarrow> heap \<Rightarrow> ptr \<Rightarrow> ptr list \<Rightarrow> ptr list \<Rightarrow> bool" where
  "cloned own h h' mi qs fs \<longleftrightarrow>
     seg_list (h'(last (mi # fs) \<mapsto> (seg_at h' (last (mi # fs)))\<lparr>mb_next := 0\<rparr>)) mi (mi # fs) \<and>
     h' (last (mi # fs)) \<noteq> None \<and> (\<exists>n. h' mi = Some ((seg_at h mi)\<lparr>mb_next := n\<rparr>)) \<and>
     list_all2 (\<lambda>q f. copy_of (seg_at h q) (seg_at h f) (seg_at h' f)) qs fs \<and>
     pkt_addrs h' fs = pkt_addrs h qs \<and>
     ((\<forall>q\<in>set qs. seg_ok (seg_at h q)) \<longrightarrow> (\<forall>f\<in>set fs. seg_ok (seg_at h' f))) \<and>
     (\<forall>a. a \<notin> set (mi # fs) \<longrightarrow> h' a = map_option (add_refs (count_owned own qs a)) (h a))"

lemma cloned_head:
  assumes "cloned own h h' mi qs fs"
  shows "seg_addrs (seg_at h' mi) = seg_addrs (seg_at h mi)" "seg_ok (seg_at h' mi) = seg_ok (seg_at h mi)"
  using assms by (auto simp: cloned_def seg_at_def [of h'] seg_ok_def)

lemma cloned_round:
  assumes own: "clonable c h own (q # qs) (mi # f # fs)" and dis: "distinct (mi # f # fs)"
    and mi: "mi \<noteq> 0" and hq: "h q \<noteq> None" "\<forall>r\<in>set qs. h r \<noteq> None"
    and IH: "cloned own (round_heap c own h mi q f) h' f qs fs"
  shows "cloned own h h' mi (q # qs) (f # fs)"
proof -
  let ?h = "round_heap c own h mi q f"
  note at = round_heap_at [OF own, of]
  have ne: "mi \<noteq> f" using dis by simp
  have out: "\<And>r. r \<in> set (q # qs) \<Longrightarrow> r \<notin> {mi, f} \<and> own r \<noteq> mi"
    using own by (auto simp: clonable_def)
  have same: "seg_addrs (seg_at ?h r) = seg_addrs (seg_at h r)" "seg_ok (seg_at ?h r) = seg_ok (seg_at h r)"
    if "r \<in> set (q # qs)" for r
    using at(3) [OF ne, of r] out [OF that] that hq by (auto simp: seg_at_def split: if_splits)
  have f: "seg_addrs (seg_at ?h f) = seg_addrs (seg_at h q)" "seg_ok (seg_at ?h f) = seg_ok (seg_at h q)"
    using at(2) [OF ne] by (simp_all add: seg_at_def attach_seg)
  have "count_owned own qs mi = 0" using out by (auto simp: count_owned_def filter_empty_conv)
  then have h'mi: "h' mi = Some ((seg_at h mi)\<lparr>mb_next := f\<rparr>)"
    using IH dis at(1) [OF ne] by (simp add: cloned_def)
  have "last (f # fs) \<noteq> mi" using dis by (metis distinct.simps(2) last_in_set list.distinct(1))
  then have "seg_list (h'(last (mi # f # fs) \<mapsto> (seg_at h' (last (mi # f # fs)))\<lparr>mb_next := 0\<rparr>)) mi (mi # f # fs)"
    using IH mi h'mi by (simp add: cloned_def)
  moreover have "h' (last (mi # f # fs)) \<noteq> None" using IH by (simp add: cloned_def)
  moreover have "\<exists>n. h' mi = Some ((seg_at h mi)\<lparr>mb_next := n\<rparr>)" using h'mi by blast
  moreover have "list_all2 (\<lambda>q f. copy_of (seg_at h q) (seg_at h f) (seg_at h' f)) (q # qs) (f # fs)"
  proof (simp only: list.rel_inject, intro conjI)
    have "\<exists>n. h' f = Some ((seg_at ?h f)\<lparr>mb_next := n\<rparr>)" using IH unfolding cloned_def by blast
    then obtain n where "seg_at h' f = (seg_at ?h f)\<lparr>mb_next := n\<rparr>" by (auto simp: seg_at_def [of h'])
    then show "copy_of (seg_at h q) (seg_at h f) (seg_at h' f)"
      using at(2) [OF ne] by (simp add: seg_at_def [of ?h] copy_of_attach)
    have q': "copy_of (seg_at ?h r) b x = copy_of (seg_at h r) b x" if "r \<in> set qs" for r b x
      using at(3) [OF ne, of r] out [of r] that hq(2) by (auto simp: seg_at_def)
    have "seg_at ?h g = seg_at h g" if "g \<in> set fs" for g
    proof -
      have "g \<notin> {mi, f}" "own q \<noteq> g" using that own dis by (auto simp: clonable_def)
      then have "?h g = map_option (add_refs 0) (h g)" using at(3) [OF ne, of g] by simp
      then show ?thesis by (simp add: seg_at_def)
    qed
    then show "list_all2 (\<lambda>q f. copy_of (seg_at h q) (seg_at h f) (seg_at h' f)) qs fs"
      using IH q' unfolding cloned_def by (auto elim!: list.rel_mono_strong)
  qed
  moreover have "pkt_addrs h' (f # fs) = pkt_addrs h (q # qs)"
    using IH f(1) cloned_head(1) [OF IH] pkt_addrs_cong [of qs ?h h] same by (simp add: cloned_def)
  moreover have "\<forall>f\<in>set (f # fs). seg_ok (seg_at h' f)" if "\<forall>q\<in>set (q # qs). seg_ok (seg_at h q)"
    using IH that f(2) cloned_head(2) [OF IH] same by (simp add: cloned_def)
  moreover have "h' a = map_option (add_refs (count_owned own (q # qs) a)) (h a)"
    if "a \<notin> set (mi # f # fs)" for a
    using IH that at(3) [OF ne, of a]
    by (cases "h a") (auto simp: cloned_def count_owned_def)
  ultimately show ?thesis unfolding cloned_def by blast
qed

text \<open>
  The pool hands out one mbuf for each segment of \<open>qs\<close>; if segments \<open>rest\<close> are left, the next request fails
  and the loop ends with a null pointer.
\<close>

definition ran_out :: "'p mempool_ops \<Rightarrow> ptr \<Rightarrow> ptr list \<Rightarrow> 'p \<Rightarrow> 'p \<Rightarrow> bool" where
  "ran_out ops mp rest pl pl' \<longleftrightarrow>
     (if rest = [] then pl' = pl else case mempool_get ops mp pl of (rc, x, pl1) \<Rightarrow> rc < 0 \<and> pl' = pl1)"

lemma failed_alloc:
  assumes "ran_out ops mp rest (pool_of st) pl'" "rest \<noteq> []"
  shows "rte_pktmbuf_alloc c ops mp st = Some (0, st\<lparr>pool_of := pl'\<rparr>)"
  using assms by (auto simp: ran_out_def rte_pktmbuf_alloc_def rte_mbuf_raw_alloc_def)

lemma clone_rest_result:
  assumes c: "config_ok c"
  shows "heap_of st md = Some d \<Longrightarrow> seg_list (heap_of st) (mb_next d) (qs @ rest) \<Longrightarrow>
    supplies ops mp (pool_of st) fs pl \<Longrightarrow> length fs = length qs \<Longrightarrow> distinct (mi # fs) \<Longrightarrow>
    (\<forall>f\<in>set fs. spare (heap_of st) f) \<Longrightarrow> clonable c (heap_of st) own (qs @ rest) (mi # fs) \<Longrightarrow>
    heap_of st mi \<noteq> None \<Longrightarrow> mi \<noteq> 0 \<Longrightarrow> ran_out ops mp rest pl pl' \<Longrightarrow>
    \<exists>h'. clone_rest c ops mp mi md nseg st =
        Some (if rest = [] then last (mi # fs) else 0, last (mi # fs), nseg + of_nat (length qs),
              \<lparr>heap_of = h', pool_of = pl'\<rparr>) \<and>
      cloned own (heap_of st) h' mi qs fs"
proof (induction qs arbitrary: st md d fs mi nseg)
  case Nil
  then have pl: "pool_of st = pl" "fs = []" by simp_all
  have "clone_rest c ops mp mi md nseg st =
      Some (if rest = [] then mi else 0, mi, nseg, \<lparr>heap_of = heap_of st, pool_of = pl'\<rparr>)"
  proof (cases rest)
    case Nil
    with Nil.prems pl show ?thesis by (simp add: clone_rest_def ran_out_def)
  next
    case (Cons r rs)
    with Nil.prems(2) have "mb_next d \<noteq> 0" by auto
    then show ?thesis
      using Nil.prems pl(1) Cons failed_alloc [of ops mp rest st pl' c] by (simp add: clone_rest_def)
  qed
  moreover have "\<exists>n. heap_of st mi = Some ((seg_at (heap_of st) mi)\<lparr>mb_next := n\<rparr>)"
    using Nil.prems(8) by (auto simp: seg_at_def intro!: exI [of _ "mb_next (seg_at (heap_of st) mi)"])
  ultimately show ?case
    using Nil.prems pl by (auto simp: cloned_def count_owned_def intro!: exI [of _ "heap_of st"])
next
  case (Cons q qs)
  from Cons.prems(4) obtain f fs' where fs: "fs = f # fs'" "length fs' = length qs" by (cases fs) auto
  let ?h = "heap_of st"
  obtain m where q: "mb_next d = q" "q \<noteq> 0" "?h q = Some m" "seg_list ?h (mb_next m) (qs @ rest)"
    using Cons.prems(2) by (auto split: option.splits)
  obtain rc pl1 where get: "mempool_get ops mp (pool_of st) = (rc, f, pl1)" "0 \<le> rc"
    "supplies ops mp pl1 fs' pl"
    using Cons.prems(3) fs by auto
  have own: "clonable c ?h own (q # qs @ rest) (mi # f # fs')" and dis: "distinct (mi # f # fs')" "mi \<noteq> f"
    using Cons.prems(5,7) fs by simp_all
  define st2 where "st2 = \<lparr>heap_of = round_heap c own ?h mi q f, pool_of = pl1\<rparr>"
  have step: "clone_rest c ops mp mi md nseg st = clone_rest c ops mp f q (nseg + 1) st2"
    unfolding st2_def using Cons.prems(1,6,8) q fs own dis
    by (intro clone_round [OF c get(1,2)]) auto
  note at = round_heap_at [OF own dis(2)]
  have out: "r \<notin> {mi, f}" if "r \<in> set (q # qs @ rest)" for r using own that by (auto simp: clonable_def)
  have in_heap: "?h r \<noteq> None" if "r \<in> set (q # qs @ rest)" for r
    using that q(3) seg_list_in_heap [OF q(4)] by auto
  define w where "w = (\<lambda>a. if own q = a then 1 else (0 :: nat))"
  have st2: "heap_of st2 r = Some (add_refs (w r) (seg_at ?h r))" if "r \<in> set (q # qs @ rest)" for r
    using at(3) [OF out [OF that]] in_heap [OF that] by (auto simp: st2_def seg_at_def w_def)
  have "seg_list (heap_of st2) (mb_next m) (qs @ rest)"
  proof -
    have "map_option mb_next (heap_of st2 r) = map_option mb_next (?h r)" if "r \<in> set (qs @ rest)" for r
      using st2 [of r] in_heap [of r] that by (auto simp: seg_at_def)
    then show ?thesis using q(4) by (metis (no_types, lifting) seg_list_cong)
  qed
  moreover have "\<forall>f\<in>set fs'. spare (heap_of st2) f"
  proof
    fix g assume g: "g \<in> set fs'"
    then have "g \<notin> {mi, f}" "own q \<noteq> g" using dis own by (auto simp: clonable_def)
    then have "heap_of st2 g = map_option (add_refs 0) (?h g)" using at(3) by (simp add: st2_def)
    then have "heap_of st2 g = ?h g" by simp
    then show "spare (heap_of st2) g" using Cons.prems(6) fs g by (simp add: spare_def)
  qed
  moreover have "clonable c (heap_of st2) own (qs @ rest) (f # fs')"
    unfolding clonable_def
  proof (intro ballI conjI)
    fix r assume r: "r \<in> set (qs @ rest)"
    then show "r \<notin> set (f # fs')" "own r \<notin> set (f # fs')" using own by (auto simp: clonable_def)
    from r own have "own r \<notin> {mi, f}" "?h (own r) \<noteq> None" by (auto simp: clonable_def)
    then show "heap_of st2 (own r) \<noteq> None" using at(3) by (simp add: st2_def)
    show "buffer_owner c r (seg_at (heap_of st2) r) = own r"
      using st2 [of r] r own by (simp add: seg_at_def [of "heap_of st2"] clonable_def)
  qed
  moreover have "heap_of st2 q = Some (add_refs (w q) m)" using st2 [of q] q(3) by (simp add: seg_at_def)
  moreover have "f \<noteq> 0" "heap_of st2 f \<noteq> None"
    using Cons.prems(6) fs at(2) by (simp_all add: spare_def st2_def)
  ultimately have "\<exists>h'. clone_rest c ops mp f q (nseg + 1) st2 =
      Some (if rest = [] then last (f # fs') else 0, last (f # fs'), nseg + 1 + of_nat (length qs),
            \<lparr>heap_of = h', pool_of = pl'\<rparr>) \<and> cloned own (heap_of st2) h' f qs fs'"
    using fs(2) dis(1) get(3) Cons.prems(10)
    by (intro Cons.IH [where d = "add_refs (w q) m"]) (simp_all add: st2_def)
  then obtain h' where "clone_rest c ops mp f q (nseg + 1) st2 =
      Some (if rest = [] then last (f # fs') else 0, last (f # fs'), nseg + 1 + of_nat (length qs),
            \<lparr>heap_of = h', pool_of = pl'\<rparr>)" "cloned own (heap_of st2) h' f qs fs'" by blast
  moreover from this(2) have "cloned own ?h h' mi (q # qs) (f # fs')"
    using cloned_round [of c ?h own q qs mi f fs' h'] own dis(1) Cons.prems(9) in_heap
    by (simp add: st2_def clonable_def)
  ultimately show ?case using step fs(1) by (auto simp: add.assoc)
qed

section \<open>The property\<close>

definition owner_in :: "mbuf_config \<Rightarrow> heap \<Rightarrow> ptr \<Rightarrow> ptr" where
  "owner_in c h q = buffer_owner c q (seg_at h q)"

lemma clone_first_round:
  assumes c: "config_ok c" and get: "mempool_get ops mp (pool_of st) = (rc, f, pl)" "0 \<le> rc"
    and f: "spare (heap_of st) f" and p: "heap_of st p = Some m"
    and own: "clonable c (heap_of st) own (p # qs) (f # fs)"
  defines "h2 \<equiv> (heap_of st)(own p \<mapsto> add_refs 1 (seg_at (heap_of st) (own p)),
      f \<mapsto> (attach_fields (rte_pktmbuf_reset c (seg_at (heap_of st) f)) m)\<lparr>mb_next := f\<rparr>)"
  shows "\<exists>st1. rte_pktmbuf_alloc c ops mp st = Some (f, st1) \<and> heap_of st1 p = Some m \<and>
    clone_loop c ops mp f f p 0 st1 = clone_rest c ops mp f p 1 \<lparr>heap_of = h2, pool_of = pl\<rparr>"
proof -
  have own': "p \<noteq> f" "own p \<noteq> f" "heap_of st (own p) = Some (seg_at (heap_of st) (own p))"
    "buffer_owner c p m = own p"
    using own p by (auto simp: clonable_def seg_at_def)
  from alloc_attach [OF c get f p own'(1,4,3,2)] obtain st1 where st1:
    "rte_pktmbuf_alloc c ops mp st = Some (f, st1)"
    "rte_pktmbuf_attach c f p st1 = Some \<lparr>heap_of = (heap_of st)(own p \<mapsto> add_refs 1 (seg_at (heap_of st) (own p)),
      f \<mapsto> attach_fields (rte_pktmbuf_reset c (seg_at (heap_of st) f)) m), pool_of = pl\<rparr>" by blast
  have "heap_of st1 p = heap_of st p"
    using st1(1) own'(1) get by (auto simp: rte_pktmbuf_alloc_def rte_mbuf_raw_alloc_def upd_mbuf_def
        bind_eq_Some_conv split: if_splits)
  then show ?thesis
    using st1 p unfolding clone_loop_unfold h2_def by (auto simp: upd_mbuf_def)
qed

lemma cloned_in_heap:
  assumes "cloned own h h' mi qs fs"
  shows "h' (last (mi # fs)) \<noteq> None" "h' mi \<noteq> None" "last (mi # fs) \<noteq> 0"
proof -
  let ?h = "h'(last (mi # fs) \<mapsto> (seg_at h' (last (mi # fs)))\<lparr>mb_next := 0\<rparr>)"
  have list: "seg_list ?h mi (mi # fs)" and last: "h' (last (mi # fs)) \<noteq> None"
    using assms by (simp_all add: cloned_def)
  show "h' (last (mi # fs)) \<noteq> None" by (rule last)
  show "last (mi # fs) \<noteq> 0" by (rule seg_list_nonnull [OF list]) (rule last_in_set, simp)
  have "?h mi = Some (seg_at ?h mi)" by (rule seg_list_in_heap [OF list]) simp
  with last show "h' mi \<noteq> None" by (cases "last (mi # fs) = mi") auto
qed

text \<open>The statements after the loop: the end of the chain and the head's fields.\<close>

definition clone_end :: "ptr \<Rightarrow> ptr \<Rightarrow> u16 \<Rightarrow> u32 \<Rightarrow> heap \<Rightarrow> heap" where
  "clone_end f l n len h =
     (let h3 = h(l \<mapsto> (seg_at h l)\<lparr>mb_next := 0\<rparr>)
      in h3(f \<mapsto> (seg_at h3 f)\<lparr>nb_segs := n, pkt_len := len\<rparr>))"

lemma clone_end_updates:
  assumes "h l \<noteq> None" "h f \<noteq> None"
  shows "(do { st \<leftarrow> upd_mbuf l (\<lambda>m. m\<lparr>mb_next := 0\<rparr>) \<lparr>heap_of = h, pool_of = pl\<rparr>;
              st \<leftarrow> upd_mbuf f (\<lambda>m. m\<lparr>nb_segs := n, pkt_len := len\<rparr>) st;
              k st }) =
         k \<lparr>heap_of = clone_end f l n len h, pool_of = pl\<rparr>"
  using assms by (cases "f = l") (auto simp: upd_mbuf_def clone_end_def Let_def seg_at_def)

lemma clone_end_packet:
  assumes cl: "cloned own h2 h' f qs fs" and dis: "distinct (f # fs)" and n: "length (f # fs) \<le> 65535"
    and ok: "seg_ok (seg_at h2 f)" "\<forall>q\<in>set qs. seg_ok (seg_at h2 q)"
    and len: "unat len = length (seg_addrs (seg_at h2 f) @ pkt_addrs h2 qs)"
  defines "h4 \<equiv> clone_end f (last (f # fs)) (of_nat (length (f # fs))) len h'"
  shows "packet h4 f (f # fs)" "pkt_addrs h4 (f # fs) = seg_addrs (seg_at h2 f) @ pkt_addrs h2 qs"
    "a \<notin> set (f # fs) \<Longrightarrow> h4 a = h' a"
proof -
  let ?fs = "f # fs"
  define h3 where "h3 = h'(last ?fs \<mapsto> (seg_at h' (last ?fs))\<lparr>mb_next := 0\<rparr>)"
  have h4: "h4 = h3(f \<mapsto> (seg_at h3 f)\<lparr>nb_segs := of_nat (length ?fs), pkt_len := len\<rparr>)"
    by (simp add: h4_def clone_end_def h3_def)
  have list3: "seg_list h3 f ?fs" using cl by (simp add: cloned_def h3_def)
  then have "h3 f = Some (seg_at h3 f)" by (rule seg_list_in_heap) simp
  then have "map_option mb_next (h4 g) = map_option mb_next (h3 g)" for g by (simp add: h4)
  then have list4: "seg_list h4 f ?fs" using list3 seg_list_cong by blast
  have geo: "seg_addrs (seg_at h4 g) = seg_addrs (seg_at h' g)" "seg_ok (seg_at h4 g) = seg_ok (seg_at h' g)" for g
    by (simp_all add: h4 h3_def seg_ok_def)
  have "pkt_addrs h4 ?fs = pkt_addrs h' ?fs" by (rule pkt_addrs_cong) (simp add: geo)
  also have "\<dots> = seg_addrs (seg_at h2 f) @ pkt_addrs h2 qs" using cl cloned_head(1) [OF cl] by (simp add: cloned_def)
  finally show addrs: "pkt_addrs h4 ?fs = seg_addrs (seg_at h2 f) @ pkt_addrs h2 qs" .
  have "\<forall>g\<in>set ?fs. seg_ok (seg_at h4 g)" using cl ok cloned_head(2) [OF cl] unfolding cloned_def geo by simp
  moreover have "unat (nb_segs (seg_at h4 f)) = length ?fs"
  proof -
    have "unat (of_nat (length ?fs) :: u16) = length ?fs"
      using n by (simp only: unsigned_of_nat) (simp add: take_bit_nat_eq_self_iff)
    then show ?thesis by (simp add: h4)
  qed
  moreover have "unat (pkt_len (seg_at h4 f)) = length (pkt_addrs h4 ?fs)"
    unfolding addrs len [symmetric] by (simp add: h4)
  ultimately show "packet h4 f ?fs" using list4 dis by (simp add: packet_def)
  show "h4 a = h' a" if "a \<notin> set ?fs"
  proof -
    have "last ?fs \<in> set ?fs" by (rule last_in_set) simp
    with that show ?thesis by (auto simp: h4 h3_def)
  qed
qed

text \<open>The heap after the first round is ready for the others.\<close>

lemma first_round_ready:
  fixes h :: heap and x :: rte_mbuf
  assumes own: "clonable c h (owner_in c h) (p # qs) (f # fs)" and m: "h p = Some m" "seg_list h (mb_next m) qs"
    and fs: "\<forall>g\<in>set fs. spare h g" "distinct (f # fs)"
  defines "h2 \<equiv> h(owner_in c h p \<mapsto> add_refs 1 (seg_at h (owner_in c h p)), f \<mapsto> x)"
  shows "\<And>a. a \<noteq> f \<Longrightarrow> h2 a = map_option (add_refs (if owner_in c h p = a then 1 else 0)) (h a)"
    "\<And>r. r \<in> set (p # qs) \<Longrightarrow> h2 r = Some (add_refs (if owner_in c h p = r then 1 else 0) (seg_at h r))"
    "seg_list h2 (mb_next m) qs" "\<forall>g\<in>set fs. spare h2 g" "clonable c h2 (owner_in c h) qs (f # fs)"
proof -
  let ?own = "owner_in c h"
  show other: "h2 a = map_option (add_refs (if ?own p = a then 1 else 0)) (h a)" if "a \<noteq> f" for a
    using that own by (auto simp: h2_def clonable_def seg_at_def)
  show seg: "h2 r = Some (add_refs (if ?own p = r then 1 else 0) (seg_at h r))" if r: "r \<in> set (p # qs)" for r
  proof -
    have "r \<noteq> f" using own r by (auto simp: clonable_def)
    moreover have "h r = Some (seg_at h r)"
      using r m(1) seg_list_in_heap [OF m(2)] by (auto simp: seg_at_def)
    ultimately show ?thesis using other [of r] by simp
  qed
  have "map_option mb_next (h2 r) = map_option mb_next (h r)" if "r \<in> set qs" for r
    using that seg [of r] seg_list_in_heap [OF m(2) that] by simp
  then show "seg_list h2 (mb_next m) qs" using m(2) seg_list_cong by blast
  show "\<forall>g\<in>set fs. spare h2 g"
  proof
    fix g assume g: "g \<in> set fs"
    then have "g \<noteq> f" "?own p \<noteq> g" using fs(2) own by (auto simp: clonable_def)
    then have "h2 g = h g" by (simp add: other)
    then show "spare h2 g" using fs(1) g by (simp add: spare_def)
  qed
  show "clonable c h2 ?own qs (f # fs)"
    unfolding clonable_def
  proof (intro ballI conjI)
    fix r assume r: "r \<in> set qs"
    then show "r \<notin> set (f # fs)" "?own r \<notin> set (f # fs)" "h2 (?own r) \<noteq> None"
      using own other [of "?own r"] by (auto simp: clonable_def)
    show "buffer_owner c r (seg_at h2 r) = ?own r"
      using seg [of r] r by (simp add: seg_at_def [of h2] owner_in_def)
  qed
qed

text \<open>A segment of the finished clone; the head may carry the number of segments.\<close>

definition clone_seg :: "rte_mbuf \<Rightarrow> rte_mbuf \<Rightarrow> rte_mbuf \<Rightarrow> bool" where
  "clone_seg m b x \<longleftrightarrow> RTE_MBUF_INDIRECT x \<and> refcnt x = refcnt b \<and> tail_ok x \<and> mb_pool x = mb_pool b \<and>
     buf_addr x = buf_addr m \<and> priv_size x = priv_size m"

lemma clone_end_copies:
  fixes b m :: rte_mbuf and len :: u32
  assumes cl: "cloned own h2 h' f qs fs" and dis: "distinct (f # fs)"
    and f: "seg_at h2 f = (attach_fields (rte_pktmbuf_reset c b) m)\<lparr>mb_next := n0\<rparr>"
  defines "h4 \<equiv> clone_end f (last (f # fs)) (of_nat (length (f # fs))) len h'"
  shows "seg_list h4 f (f # fs)" "clone_seg m b (seg_at h4 f)"
    "list_all2 (\<lambda>q g. clone_seg (seg_at h2 q) (seg_at h2 g) (seg_at h4 g)) qs fs"
proof -
  let ?fs = "f # fs"
  define h3 where "h3 = h'(last ?fs \<mapsto> (seg_at h' (last ?fs))\<lparr>mb_next := 0\<rparr>)"
  have h4: "h4 = h3(f \<mapsto> (seg_at h3 f)\<lparr>nb_segs := of_nat (length ?fs), pkt_len := len\<rparr>)"
    by (simp add: h4_def clone_end_def h3_def)
  have list3: "seg_list h3 f ?fs" using cl by (simp add: cloned_def h3_def)
  then have "h3 f = Some (seg_at h3 f)" by (rule seg_list_in_heap) simp
  then have "map_option mb_next (h4 g) = map_option mb_next (h3 g)" for g by (simp add: h4)
  then show list4: "seg_list h4 f ?fs" using list3 seg_list_cong by blast
  have "\<exists>n. h' f = Some ((seg_at h2 f)\<lparr>mb_next := n\<rparr>)" using cl by (simp add: cloned_def)
  then have copy: "copy_of m b (seg_at h' f)" by (auto simp: seg_at_def [of h'] f copy_of_attach)
  have tail: "fs = []" if "mb_next (seg_at h4 f) = 0"
    using list4 that by (cases fs) (simp_all add: seg_at_def split: option.splits)
  have "seg_at h3 f = seg_at h' f \<or> seg_at h3 f = (seg_at h' f)\<lparr>mb_next := 0\<rparr>"
    unfolding h3_def by (cases "last ?fs = f") (simp_all del: last.simps)
  then have "copy_of m b (seg_at h3 f)" using copy by auto
  moreover have "seg_at h4 f = (seg_at h3 f)\<lparr>nb_segs := of_nat (length ?fs), pkt_len := len\<rparr>"
    by (simp add: h4)
  ultimately show "clone_seg m b (seg_at h4 f)"
    using tail by (simp add: clone_seg_def copy_of_def tail_ok_def RTE_MBUF_INDIRECT_def)
  have "clone_seg m' b' (seg_at h4 g)" if "copy_of m' b' (seg_at h' g)" "g \<in> set fs" for m' b' g
  proof -
    have "g \<noteq> f" using that(2) dis by auto
    then have "seg_at h4 g = seg_at h' g \<or> seg_at h4 g = (seg_at h' g)\<lparr>mb_next := 0\<rparr>"
      by (simp add: h4 h3_def)
    with that(1) show ?thesis by (auto simp: clone_seg_def copy_of_def tail_ok_def RTE_MBUF_INDIRECT_def)
  qed
  moreover have "list_all2 (\<lambda>q g. copy_of (seg_at h2 q) (seg_at h2 g) (seg_at h' g)) qs fs"
    using cl by (simp add: cloned_def)
  ultimately show "list_all2 (\<lambda>q g. clone_seg (seg_at h2 q) (seg_at h2 g) (seg_at h4 g)) qs fs"
    by - (rule list.rel_mono_strong)
qed

text \<open>
  The clone up to its last test, whether the pool had an mbuf for every segment or ran out with the
  segments \<open>rest\<close> left.
\<close>

definition clone_made :: "mbuf_config \<Rightarrow> heap \<Rightarrow> heap \<Rightarrow> ptr list \<Rightarrow> ptr list \<Rightarrow> bool" where
  "clone_made c h h4 qs fs \<longleftrightarrow> seg_list h4 (hd fs) fs \<and>
     list_all2 (\<lambda>q g. clone_seg (seg_at h q) (seg_at h g) (seg_at h4 g)) qs fs \<and>
     (\<forall>a. a \<notin> set fs \<longrightarrow> h4 a = map_option (add_refs (count_owned (owner_in c h) qs a)) (h a))"

lemma clone_result:
  assumes c: "config_ok c" and pk: "packet (heap_of st) p (qs @ rest)" "qs \<noteq> []"
    and pool: "supplies ops mp (pool_of st) fs pl" "length fs = length qs" "distinct fs" "ran_out ops mp rest pl pl'"
    and fs: "\<forall>f\<in>set fs. spare (heap_of st) f"
    and own: "clonable c (heap_of st) (owner_in c (heap_of st)) (qs @ rest) fs"
  obtains h4 where "clone_made c (heap_of st) h4 qs fs"
    "rte_pktmbuf_clone c ops p mp st = (if rest = [] then Some (hd fs, \<lparr>heap_of = h4, pool_of = pl'\<rparr>)
       else do { st' \<leftarrow> rte_pktmbuf_free c ops (hd fs) \<lparr>heap_of = h4, pool_of = pl'\<rparr>; Some (0, st') })"
    "rest = [] \<Longrightarrow> packet h4 (hd fs) fs \<and> pkt_addrs h4 fs = pkt_addrs (heap_of st) qs"
proof -
  let ?h = "heap_of st" and ?own = "owner_in c (heap_of st)"
  from pk obtain qs' where qs: "qs = p # qs'" by (cases qs) (auto elim!: packet_split_head)
  with pool(2) obtain f fs' where fs': "fs = f # fs'" "length fs' = length qs'" by (cases fs) auto
  obtain rc pl1 where get: "mempool_get ops mp (pool_of st) = (rc, f, pl1)" "0 \<le> rc" "supplies ops mp pl1 fs' pl"
    using pool(1) fs' by auto
  obtain m where m: "?h p = Some m" "seg_list ?h (mb_next m) (qs' @ rest)"
    using packetD(1) [OF pk(1)] qs by (auto split: option.splits)
  have own': "clonable c ?h ?own (p # qs' @ rest) (f # fs')" using own qs fs' by simp
  have spare: "spare ?h f" "f \<noteq> 0" "\<forall>g\<in>set fs'. spare ?h g" "distinct (f # fs')"
    using fs fs' pool(3) by (simp_all add: spare_def)
  let ?x = "(attach_fields (rte_pktmbuf_reset c (seg_at ?h f)) m)\<lparr>mb_next := f\<rparr>"
  define h2 where "h2 = ?h(?own p \<mapsto> add_refs 1 (seg_at ?h (?own p)), f \<mapsto> ?x)"
  note ready = first_round_ready [OF own' m spare(3,4), where x = ?x, folded h2_def]
  from clone_first_round [OF c get(1,2) spare(1) m(1) own'] obtain st1 where st1:
    "rte_pktmbuf_alloc c ops mp st = Some (f, st1)" "heap_of st1 p = Some m"
    "clone_loop c ops mp f f p 0 st1 = clone_rest c ops mp f p 1 \<lparr>heap_of = h2, pool_of = pl1\<rparr>"
    unfolding h2_def by blast
  let ?w = "if ?own p = p then 1 else 0"
  have at: "h2 p = Some (add_refs ?w m)" "h2 f = Some ?x"
    using ready(2) [of p] m(1) by (simp_all add: seg_at_def [of ?h] h2_def)
  let ?mi = "if rest = [] then last (f # fs') else 0"
  have "\<exists>h'. clone_rest c ops mp f p 1 \<lparr>heap_of = h2, pool_of = pl1\<rparr> =
        Some (?mi, last (f # fs'), 1 + of_nat (length qs'), \<lparr>heap_of = h', pool_of = pl'\<rparr>) \<and>
      cloned ?own (heap_of \<lparr>heap_of = h2, pool_of = pl1\<rparr>) h' f qs' fs'"
    using at get(3) fs'(2) spare pool(4) ready(3-5)
    by (intro clone_rest_result [OF c, where d = "add_refs ?w m" and pl = pl]) simp_all
  then obtain h' where loop: "clone_rest c ops mp f p 1 \<lparr>heap_of = h2, pool_of = pl1\<rparr> =
        Some (?mi, last (f # fs'), of_nat (length (f # fs')), \<lparr>heap_of = h', pool_of = pl'\<rparr>)"
      and cl: "cloned ?own h2 h' f qs' fs'"
    using fs'(2) by auto
  define h4 where "h4 = clone_end f (last (f # fs')) (of_nat (length (f # fs'))) (pkt_len m) h'"
  have res: "rte_pktmbuf_clone c ops p mp st = (if rest = [] then Some (f, \<lparr>heap_of = h4, pool_of = pl'\<rparr>)
       else do { st' \<leftarrow> rte_pktmbuf_free c ops f \<lparr>heap_of = h4, pool_of = pl'\<rparr>; Some (0, st') })"
    using st1 spare(2) cloned_in_heap(3) [OF cl] unfolding rte_pktmbuf_clone_def h4_def
    by (simp add: loop clone_end_updates [OF cloned_in_heap(1,2) [OF cl]] del: last.simps length_Cons)
  have seg2: "seg_at h2 r = add_refs (if ?own p = r then 1 else 0) (seg_at ?h r)" if "r \<in> set (p # qs')" for r
    using ready(2) [of r] that by (auto simp: seg_at_def [of h2])
  have f2: "seg_at h2 f = ?x" using at(2) by (simp add: seg_at_def)
  have mp: "seg_at ?h p = m" using m(1) by (simp add: seg_at_def)
  have out: "h4 a = h' a" if "a \<notin> set (f # fs')" for a
  proof -
    have "last (f # fs') \<in> set (f # fs')" by (rule last_in_set) simp
    with that show ?thesis by (auto simp: h4_def clone_end_def Let_def)
  qed
  have made: "clone_made c ?h h4 qs fs"
  proof -
    note copies = clone_end_copies [OF cl spare(4) f2, where len = "pkt_len m", folded h4_def]
    have g2: "seg_at h2 g = seg_at ?h g" if "g \<in> set fs'" for g
    proof -
      have "g \<noteq> f" "?own p \<noteq> g" using that spare(4) own' by (auto simp: clonable_def)
      then show ?thesis using ready(1) [of g] by (simp add: seg_at_def)
    qed
    have "clone_seg (seg_at ?h q) (seg_at ?h g) x" if "q \<in> set qs'" "g \<in> set fs'"
      "clone_seg (seg_at h2 q) (seg_at h2 g) x" for q g x
      using that seg2 [of q] g2 [of g] by (simp add: clone_seg_def add_refs_def)
    then have "list_all2 (\<lambda>q g. clone_seg (seg_at ?h q) (seg_at ?h g) (seg_at h4 g)) qs' fs'"
      using copies(3) by (auto elim!: list.rel_mono_strong)
    moreover have "h4 a = map_option (add_refs (count_owned ?own qs a)) (?h a)" if "a \<notin> set (f # fs')" for a
      using out [OF that] cl ready(1) [of a] that
      by (cases "?h a") (auto simp: cloned_def count_owned_def qs)
    ultimately show ?thesis using copies(1,2) mp by (simp add: clone_made_def qs fs')
  qed
  have "packet h4 f (f # fs') \<and> pkt_addrs h4 (f # fs') = pkt_addrs ?h qs" if "rest = []"
  proof -
    have addrs2: "seg_addrs (seg_at h2 f) @ pkt_addrs h2 qs' = pkt_addrs ?h qs"
      using pkt_addrs_cong [of qs' h2 ?h] seg2 by (simp add: f2 attach_seg mp qs)
    have ok: "seg_ok (seg_at ?h r)" if "r \<in> set (p # qs')" for r using packetD(10) [OF pk(1)] that qs by auto
    have "seg_ok m" using ok [of p] mp by simp
    then have ok2: "seg_ok (seg_at h2 f)" "\<forall>q\<in>set qs'. seg_ok (seg_at h2 q)"
      using f2 seg2 ok by (simp_all add: attach_seg) (simp add: seg_ok_def)
    have len: "length (f # fs') \<le> 65535" using packet_segments [OF pk(1)] qs fs'(2) by simp
    have plen: "unat (pkt_len m) = length (seg_addrs (seg_at h2 f) @ pkt_addrs h2 qs')"
      unfolding addrs2 using packetD(12) [OF pk(1)] mp that by simp
    show ?thesis using clone_end_packet(1,2) [OF cl spare(4) len ok2 plen, folded h4_def] addrs2 by simp
  qed
  with made res show thesis using that [of h4] fs'(1) by simp
qed

text \<open>
  C15: When the pool has an mbuf for every segment, cloning a packet terminates and returns a new
  well-formed packet with as many segments over exactly the same data bytes; each mbuf that owns a
  buffer counts one more reference for every segment it backs, also when the segment is itself
  indirect, and nothing else changes.
\<close>

theorem rte_pktmbuf_clone_spec:
  assumes c: "config_ok c" and pk: "packet (heap_of st) p ps"
    and pool: "supplies ops mp (pool_of st) fs pl" "length fs = length ps" "distinct fs"
    and fs: "\<forall>f\<in>set fs. spare (heap_of st) f"
    and own: "clonable c (heap_of st) (owner_in c (heap_of st)) ps fs"
  shows "\<exists>st'. rte_pktmbuf_clone c ops p mp st = Some (hd fs, st') \<and> pool_of st' = pl \<and>
           packet (heap_of st') (hd fs) fs \<and> pkt_addrs (heap_of st') fs = pkt_addrs (heap_of st) ps \<and>
           (\<forall>a. a \<notin> set fs \<longrightarrow> heap_of st' a =
              map_option (add_refs (count_owned (owner_in c (heap_of st)) ps a)) (heap_of st a))"
proof -
  have "packet (heap_of st) p (ps @ [])" "ps \<noteq> []" "ran_out ops mp [] pl pl"
    "clonable c (heap_of st) (owner_in c (heap_of st)) (ps @ []) fs"
    using pk own by (auto simp: ran_out_def elim!: packet_split_head)
  from clone_result [OF c this(1,2) pool this(3) fs this(4)] show ?thesis
    by (fastforce simp: clone_made_def)
qed

text \<open>Cloning the packet of two segments, the second of which is shared already.\<close>

definition clone_state :: "ptr list mbuf_state" where
  "clone_state = \<lparr>heap_of = (heap_of share_state)(0x5000 \<mapsto> free_mbuf 0x5000),
     pool_of = [0x5000, 0x2000, 0x6000]\<rparr>"

theorem rte_pktmbuf_clone_spec_witness:
  "\<exists>st'. rte_pktmbuf_clone demo_config list_pool 0x3000 0xF000 clone_state = Some (0x5000, st') \<and>
     pool_of st' = [0x6000] \<and> packet (heap_of st') 0x5000 [0x5000, 0x2000] \<and>
     pkt_addrs (heap_of st') [0x5000, 0x2000] = pkt_addrs (heap_of clone_state) [0x3000, 0x4000] \<and>
     refcnt (seg_at (heap_of st') 0x4000) = 4"
proof -
  have pk: "packet (heap_of clone_state) 0x3000 [0x3000, 0x4000]"
    by (simp add: packet_def clone_state_def share_simps)
  have pool: "supplies list_pool 0xF000 (pool_of clone_state) [0x5000, 0x2000] [0x6000]"
    by (simp add: clone_state_def list_pool_def)
  have fs: "\<forall>f\<in>set [0x5000, 0x2000]. spare (heap_of clone_state) f"
    by (simp add: spare_def clone_state_def share_state_def)
  have own: "clonable demo_config (heap_of clone_state) (owner_in demo_config (heap_of clone_state))
      [0x3000, 0x4000] [0x5000, 0x2000]"
    by (simp add: clonable_def owner_in_def clone_state_def share_simps)
  have count: "count_owned (owner_in demo_config (heap_of clone_state)) [0x3000, 0x4000] 0x4000 = 1"
    by (simp add: count_owned_def owner_in_def clone_state_def share_simps)
  have "heap_of clone_state 0x4000 = Some ((free_mbuf 0x4000)\<lparr>data_len := 7, refcnt := 3\<rparr>)"
    by (simp add: clone_state_def share_state_def)
  with rte_pktmbuf_clone_spec [OF demo_config_ok pk pool _ _ fs own] count show ?thesis
    by (fastforce simp: seg_at_def add_refs_def)
qed

end
