(* ===== verification/Mbuf_Clone_Free.thy ===== *)
theory Mbuf_Clone_Free
  imports Mbuf_Clone
begin

text \<open>
  Releasing packets of indirect segments: a clone that is freed leaves everything as it was before the
  clone, and so does a clone that fails because the pool of \<open>src/src/ext/rte_mbuf.c\<close> runs out of mbufs
  half way.
\<close>

section \<open>Freeing a chain of indirect segments\<close>

definition drop_refs :: "nat \<Rightarrow> rte_mbuf \<Rightarrow> rte_mbuf" where
  "drop_refs n m = m\<lparr>refcnt := refcnt m - of_nat n\<rparr>"

lemma drop_refs_simps [simp]:
  "refcnt (drop_refs n m) = refcnt m - of_nat n" "drop_refs 0 m = m"
  "drop_refs i (drop_refs j m) = drop_refs (j + i) m" "drop_refs n (add_refs n m) = m"
  by (simp_all add: drop_refs_def add_refs_def diff_diff_eq)

lemma drop_no_refs [simp]: "map_option (drop_refs 0) x = x"
  by (cases x) simp_all

text \<open>A segment over the buffer of \<open>own q\<close>.\<close>

definition borrows :: "mbuf_config \<Rightarrow> heap \<Rightarrow> ptr \<Rightarrow> ptr \<Rightarrow> bool" where
  "borrows c h o' g \<longleftrightarrow> RTE_MBUF_INDIRECT (seg_at h g) \<and> refcnt (seg_at h g) = 1 \<and> tail_ok (seg_at h g) \<and>
     rte_mbuf_from_indirect c (seg_at h g) = o'"

lemma free_borrower:
  assumes c: "config_ok c" and g: "heap_of st g \<noteq> None" "g \<noteq> 0" "borrows c (heap_of st) o' g"
    and d: "heap_of st o' = Some d" "o' \<noteq> g" "refcnt d \<noteq> 1"
  shows "rte_pktmbuf_free_seg c ops g st = Some \<lparr>heap_of = (heap_of st)
           (g \<mapsto> unlinked (detach_fields c g (seg_at (heap_of st) g)), o' \<mapsto> drop_refs 1 d),
           pool_of = mempool_put ops (mb_pool (seg_at (heap_of st) g)) g (pool_of st)\<rparr>"
proof -
  have m: "heap_of st g = Some (seg_at (heap_of st) g)" using g(1) by (auto simp: seg_at_def)
  note b = g(3) [unfolded borrows_def]
  have "rte_pktmbuf_detach c ops g st = Some (st\<lparr>heap_of := (heap_of st)
      (g \<mapsto> detach_fields c g (seg_at (heap_of st) g), o' \<mapsto> d\<lparr>refcnt := refcnt d - 1\<rparr>)\<rparr>)"
    by (rule detach_effect [OF c m _ d]) (use b in simp)
  from free_seg_indirect [OF c m _ _ _ g(2) this] b d(2) show ?thesis
    by (simp add: drop_refs_def fun_upd_twist)
qed

definition freed_borrower :: "mbuf_config \<Rightarrow> heap \<Rightarrow> ptr \<Rightarrow> rte_mbuf" where
  "freed_borrower c h g = unlinked (detach_fields c g (seg_at h g))"

definition put_all :: "'p mempool_ops \<Rightarrow> heap \<Rightarrow> ptr list \<Rightarrow> 'p \<Rightarrow> 'p" where
  "put_all ops h = fold (\<lambda>g. mempool_put ops (mb_pool (seg_at h g)) g)"

lemma put_all_cong: "(\<And>g. g \<in> set fs \<Longrightarrow> mb_pool (seg_at h g) = mb_pool (seg_at h' g)) \<Longrightarrow> put_all ops h fs = put_all ops h' fs"
  unfolding put_all_def by (intro ext fold_cong) simp_all

definition owners_live :: "heap \<Rightarrow> (ptr \<Rightarrow> ptr) \<Rightarrow> ptr list \<Rightarrow> ptr list \<Rightarrow> bool" where
  "owners_live h own qs fs \<longleftrightarrow> (\<forall>q\<in>set qs. own q \<notin> set fs \<and>
     (case h (own q) of None \<Rightarrow> False | Some d \<Rightarrow> count_owned own qs (own q) < unat (refcnt d)))"

lemma owners_live_step:
  fixes d :: rte_mbuf
  assumes live: "owners_live h own (q # qs) (g # fs)" and d: "h (own q) = Some d"
  shows "owners_live (h(g \<mapsto> x, own q \<mapsto> drop_refs 1 d)) own qs fs" "refcnt d \<noteq> 1"
proof -
  have n: "count_owned own qs (own q) + 1 < unat (refcnt d)"
    using live d by (auto simp: owners_live_def count_owned_def)
  then show "refcnt d \<noteq> 1" by auto
  have dec: "unat (refcnt d - 1) = unat (refcnt d) - 1"
    using n by (simp add: unat_sub word_le_nat_alt)
  show "owners_live (h(g \<mapsto> x, own q \<mapsto> drop_refs 1 d)) own qs fs"
    unfolding owners_live_def
  proof
    fix r assume r: "r \<in> set qs"
    with live obtain d' where d': "own r \<notin> set (g # fs)" "h (own r) = Some d'"
      "count_owned own (q # qs) (own r) < unat (refcnt d')"
      by (auto simp: owners_live_def split: option.splits)
    show "own r \<notin> set fs \<and> (case (h(g \<mapsto> x, own q \<mapsto> drop_refs 1 d)) (own r) of
        None \<Rightarrow> False | Some d \<Rightarrow> count_owned own qs (own r) < unat (refcnt d))"
    proof (cases "own r = own q")
      case True
      with d' n dec show ?thesis by simp
    next
      case False
      with d' show ?thesis by (simp add: count_owned_def)
    qed
  qed
qed

lemma free_borrowers:
  assumes c: "config_ok c"
  shows "list_all2 (\<lambda>q g. borrows c (heap_of st) (own q) g) qs fs \<Longrightarrow> seg_list (heap_of st) p fs \<Longrightarrow>
    distinct fs \<Longrightarrow> owners_live (heap_of st) own qs fs \<Longrightarrow>
    \<exists>h. rte_pktmbuf_free c ops p st =
        Some \<lparr>heap_of = h, pool_of = put_all ops (heap_of st) fs (pool_of st)\<rparr> \<and>
      (\<forall>g\<in>set fs. h g = Some (freed_borrower c (heap_of st) g)) \<and>
      (\<forall>a. a \<notin> set fs \<longrightarrow> h a = map_option (drop_refs (count_owned own qs a)) (heap_of st a))"
proof (induction fs arbitrary: qs p st)
  case Nil
  then show ?case
    by (subst rte_pktmbuf_free.simps) (auto simp: put_all_def count_owned_def intro!: exI [of _ "heap_of st"])
next
  case (Cons g fs qs0)
  let ?h = "heap_of st"
  obtain q qs where qs: "qs0 = q # qs" "borrows c ?h (own q) g" "list_all2 (\<lambda>q g. borrows c ?h (own q) g) qs fs"
    using Cons.prems(1) by (auto simp: list_all2_Cons2)
  obtain m where m: "p = g" "g \<noteq> 0" "?h g = Some m" "seg_list ?h (mb_next m) fs"
    using Cons.prems(2) by (auto split: option.splits)
  have live0: "owners_live ?h own (q # qs) (g # fs)" using Cons.prems(4) qs(1) by simp
  obtain d where d: "?h (own q) = Some d" "own q \<notin> set (g # fs)"
    using live0 by (auto simp: owners_live_def split: option.splits)
  note live = owners_live_step [OF live0 d(1)]
  define st1 where "st1 = \<lparr>heap_of = ?h(g \<mapsto> freed_borrower c ?h g, own q \<mapsto> drop_refs 1 d),
    pool_of = mempool_put ops (mb_pool (seg_at ?h g)) g (pool_of st)\<rparr>"
  have free: "rte_pktmbuf_free_seg c ops g st = Some st1"
    using free_borrower [OF c _ m(2) qs(2) d(1) _ live(2)] m(3) d(2)
    by (simp add: st1_def freed_borrower_def)
  have same: "heap_of st1 r = ?h r" "seg_at (heap_of st1) r = seg_at ?h r" if "r \<in> set fs" for r
  proof -
    have "r \<noteq> g" "r \<noteq> own q" using that Cons.prems(3) d(2) by auto
    then show "heap_of st1 r = ?h r" by (simp add: st1_def)
    then show "seg_at (heap_of st1) r = seg_at ?h r" by (simp add: seg_at_def)
  qed
  have pre: "list_all2 (\<lambda>q g. borrows c (heap_of st1) (own q) g) qs fs"
    using qs(3) by (rule list.rel_mono_strong) (simp add: borrows_def same)
  have list: "seg_list (heap_of st1) (mb_next m) fs" using m(4) same by (metis (no_types, lifting) seg_list_cong)
  have "owners_live (heap_of st1) own qs fs" using live(1) by (simp add: st1_def del: One_nat_def)
  with Cons.IH [OF pre list] Cons.prems(3) obtain h where h:
    "rte_pktmbuf_free c ops (mb_next m) st1 =
       Some \<lparr>heap_of = h, pool_of = put_all ops (heap_of st1) fs (pool_of st1)\<rparr>"
    "\<And>r. r \<in> set fs \<Longrightarrow> h r = Some (freed_borrower c (heap_of st1) r)"
    "\<And>a. a \<notin> set fs \<Longrightarrow> h a = map_option (drop_refs (count_owned own qs a)) (heap_of st1 a)"
    by auto
  have "put_all ops (heap_of st1) fs = put_all ops ?h fs" by (rule put_all_cong) (simp add: same)
  then have "rte_pktmbuf_free c ops p st = Some \<lparr>heap_of = h, pool_of = put_all ops ?h (g # fs) (pool_of st)\<rparr>"
    using m h(1) free by (subst rte_pktmbuf_free.simps) (simp add: put_all_def st1_def)
  moreover have "own r \<noteq> g" if "r \<in> set qs0" for r
    using Cons.prems(4) that by (auto simp: owners_live_def)
  then have none: "count_owned own qs g = 0"
    using qs(1) by (auto simp: count_owned_def filter_empty_conv)
  have "h r = Some (freed_borrower c ?h r)" if "r \<in> set (g # fs)" for r
  proof (cases "r = g")
    case True
    with h(3) [of g] none d(2) Cons.prems(3) show ?thesis by (auto simp: st1_def)
  next
    case False
    with that h(2) show ?thesis by (simp add: freed_borrower_def same)
  qed
  moreover have "h a = map_option (drop_refs (count_owned own qs0 a)) (?h a)" if "a \<notin> set (g # fs)" for a
    using h(3) [of a] that d(1) by (cases "?h a") (auto simp: st1_def qs(1) count_owned_def)
  ultimately show ?case by blast
qed

section \<open>Freeing a clone\<close>

text \<open>
  What cloning the segments \<open>ps\<close> into \<open>fs\<close> relies on: the mbufs of the pool are spare and take no part in
  the packet, a direct segment's buffer lies behind it, and each owner of a buffer has references, of
  which the counter can hold as many more as there are segments.
\<close>

definition clone_setup :: "mbuf_config \<Rightarrow> heap \<Rightarrow> ptr list \<Rightarrow> ptr list \<Rightarrow> bool" where
  "clone_setup c h ps fs \<longleftrightarrow> distinct fs \<and> (\<forall>f\<in>set fs. spare h f) \<and> clonable c h (owner_in c h) ps fs \<and>
     (\<forall>q\<in>set ps. (RTE_MBUF_DIRECT (seg_at h q) \<longrightarrow> owns_buffer c q (seg_at h q)) \<and>
        1 \<le> unat (refcnt (seg_at h (owner_in c h q))) \<and>
        unat (refcnt (seg_at h (owner_in c h q))) + length ps \<le> 65535)"

lemma count_owned_le: "count_owned own qs a \<le> length qs"
  by (simp add: count_owned_def)

lemma clone_owners_live:
  assumes made: "clone_made c h h4 qs fs" and ready: "clone_setup c h (qs @ rest) fs"
  shows "owners_live h4 (owner_in c h) qs fs"
  unfolding owners_live_def
proof
  fix q assume q: "q \<in> set qs"
  let ?o = "owner_in c h q" and ?n = "count_owned (owner_in c h) qs (owner_in c h q)"
  have o: "?o \<notin> set fs" "h ?o = Some (seg_at h ?o)" "1 \<le> unat (refcnt (seg_at h ?o))"
    "unat (refcnt (seg_at h ?o)) + length (qs @ rest) \<le> 65535"
    using ready q by (auto simp: clone_setup_def clonable_def seg_at_def)
  have "h4 ?o = Some (add_refs ?n (seg_at h ?o))" using made o(1,2) by (simp add: clone_made_def)
  moreover have "unat (refcnt (seg_at h ?o) + of_nat ?n) = unat (refcnt (seg_at h ?o)) + ?n"
    using o(4) count_owned_le [of "owner_in c h" qs ?o] by (intro unat_add_small) (simp del: One_nat_def)
  ultimately show "?o \<notin> set fs \<and> (case h4 ?o of None \<Rightarrow> False | Some d \<Rightarrow> ?n < unat (refcnt d))"
    using o(1,3) by (simp add: add_refs_def)
qed

lemma clone_borrows:
  assumes made: "clone_made c h h4 qs fs" and ready: "clone_setup c h (qs @ rest) fs"
  shows "list_all2 (\<lambda>q g. borrows c h4 (owner_in c h q) g) qs fs"
proof -
  have "list_all2 (\<lambda>q g. clone_seg (seg_at h q) (seg_at h g) (seg_at h4 g)) qs fs"
    using made by (simp add: clone_made_def)
  then show ?thesis
  proof (rule list.rel_mono_strong)
    fix q g assume q: "q \<in> set qs" and g: "g \<in> set fs" and seg: "clone_seg (seg_at h q) (seg_at h g) (seg_at h4 g)"
    have "spare h g" using ready g by (simp add: clone_setup_def)
    then have "refcnt (seg_at h g) = 1" by (auto simp: spare_def seg_at_def split: option.splits)
    moreover have "rte_mbuf_from_indirect c (seg_at h4 g) = rte_mbuf_from_indirect c (seg_at h q)"
      using seg by (simp add: clone_seg_def rte_mbuf_from_indirect_def)
    moreover have "rte_mbuf_from_indirect c (seg_at h q) = owner_in c h q"
      using ready q by (auto simp: clone_setup_def owner_in_def buffer_owner_def owns_from_indirect)
    ultimately show "borrows c h4 (owner_in c h q) g" using seg by (simp add: borrows_def clone_seg_def)
  qed
qed

text \<open>Freeing what the loop has made restores every other mbuf and returns the copies to their pools.\<close>

definition returned :: "mbuf_config \<Rightarrow> heap \<Rightarrow> ptr \<Rightarrow> bool" where
  "returned c h f \<longleftrightarrow> spare h f \<and> RTE_MBUF_DIRECT (seg_at h f) \<and> owns_buffer c f (seg_at h f)"

lemma free_clone_made:
  assumes c: "config_ok c" "sizeof_mbuf c < 2 ^ 31"
    and made: "clone_made c h h4 qs fs" and ready: "clone_setup c h (qs @ rest) fs"
  obtains h5 where "rte_pktmbuf_free c ops (hd fs) \<lparr>heap_of = h4, pool_of = pl\<rparr> =
      Some \<lparr>heap_of = h5, pool_of = put_all ops h fs pl\<rparr>"
    "\<And>a. a \<notin> set fs \<Longrightarrow> h5 a = h a" "\<And>f. f \<in> set fs \<Longrightarrow> returned c h5 f"
proof -
  let ?st = "\<lparr>heap_of = h4, pool_of = pl\<rparr>" and ?own = "owner_in c h"
  have fs: "distinct fs" "\<And>f. f \<in> set fs \<Longrightarrow> spare h f" using ready by (simp_all add: clone_setup_def)
  have list: "seg_list h4 (hd fs) fs" using made by (simp add: clone_made_def)
  from free_borrowers [OF c(1), of ?st ?own qs fs "hd fs" ops] clone_borrows [OF made ready]
    list fs(1) clone_owners_live [OF made ready]
  obtain h5 where h5: "rte_pktmbuf_free c ops (hd fs) ?st = Some \<lparr>heap_of = h5, pool_of = put_all ops h4 fs pl\<rparr>"
    "\<And>g. g \<in> set fs \<Longrightarrow> h5 g = Some (freed_borrower c h4 g)"
    "\<And>a. a \<notin> set fs \<Longrightarrow> h5 a = map_option (drop_refs (count_owned ?own qs a)) (h4 a)"
    by auto
  have segs: "\<exists>q. clone_seg (seg_at h q) (seg_at h g) (seg_at h4 g)" if "g \<in> set fs" for g
    using made that by (auto simp: clone_made_def list_all2_conv_all_nth in_set_conv_nth)
  have "put_all ops h4 fs = put_all ops h fs"
    using segs by (intro put_all_cong) (auto simp: clone_seg_def)
  moreover have "h5 a = h a" if "a \<notin> set fs" for a
    using h5(3) [OF that] made that by (cases "h a") (simp_all add: clone_made_def)
  moreover have "returned c h5 f" if f_in: "f \<in> set fs" for f
  proof -
    have f: "f \<noteq> 0" "refcnt (seg_at h f) = 1"
      using fs(2) [OF f_in] by (auto simp: spare_def seg_at_def split: option.splits)
    from segs [OF f_in] obtain q where "clone_seg (seg_at h q) (seg_at h f) (seg_at h4 f)" ..
    with f have "refcnt (seg_at h4 f) = 1" by (simp add: clone_seg_def)
    then show ?thesis
      using h5(2) [OF f_in] f(1) detach_owns(1) [OF c(2), of f "seg_at h4 f"] detach_direct [of c f "seg_at h4 f"]
      by (simp add: returned_def spare_def seg_at_def [of h5] freed_borrower_def owns_buffer_def)
  qed
  ultimately show thesis using that [of h5] h5(1) by simp
qed

text \<open>
  C6: Freeing a clone undoes it: every mbuf that is not one of the clone's own is exactly as before
  the clone, counters included, and the clone's mbufs go back to their pools, one by one and in order,
  as direct mbufs with their own buffer and one reference.
\<close>

theorem clone_then_free:
  assumes "config_ok c" "sizeof_mbuf c < 2 ^ 31" "packet (heap_of st) p ps"
    "supplies ops mp (pool_of st) fs pl" "length fs = length ps" "clone_setup c (heap_of st) ps fs"
  shows "\<exists>st1 h. rte_pktmbuf_clone c ops p mp st = Some (hd fs, st1) \<and>
    rte_pktmbuf_free c ops (hd fs) st1 = Some \<lparr>heap_of = h,
      pool_of = fold (\<lambda>f. mempool_put ops (mb_pool (seg_at (heap_of st) f)) f) fs pl\<rparr> \<and>
    (\<forall>a. a \<notin> set fs \<longrightarrow> h a = heap_of st a) \<and> (\<forall>f\<in>set fs. returned c h f)"
proof -
  have pre: "packet (heap_of st) p (ps @ [])" "ps \<noteq> []" "ran_out ops mp [] pl pl"
    using assms(3) by (auto simp: ran_out_def elim!: packet_split_head)
  have ready: "clone_setup c (heap_of st) (ps @ []) fs" using assms(6) by simp
  have s: "distinct fs" "\<forall>f\<in>set fs. spare (heap_of st) f"
    "clonable c (heap_of st) (owner_in c (heap_of st)) (ps @ []) fs"
    using ready by (simp_all add: clone_setup_def)
  obtain h4 where h4: "clone_made c (heap_of st) h4 ps fs"
      "rte_pktmbuf_clone c ops p mp st = Some (hd fs, \<lparr>heap_of = h4, pool_of = pl\<rparr>)"
    by (rule clone_result [OF assms(1) pre(1,2) assms(4,5) s(1) pre(3) s(2,3)]) (simp only: if_True simp_thms)
  from free_clone_made [OF assms(1,2) h4(1) ready, of ops pl] obtain h5 where
    "rte_pktmbuf_free c ops (hd fs) \<lparr>heap_of = h4, pool_of = pl\<rparr> =
       Some \<lparr>heap_of = h5, pool_of = put_all ops (heap_of st) fs pl\<rparr>"
    "\<And>a. a \<notin> set fs \<Longrightarrow> h5 a = heap_of st a" "\<And>f. f \<in> set fs \<Longrightarrow> returned c h5 f" by blast
  with h4(2) show ?thesis by (auto simp: put_all_def)
qed

text \<open>
  C16: A clone for which the pool runs out of mbufs fails cleanly: it returns a null pointer, every mbuf
  of the heap but those it had taken is as before, counters included, and those are back in their
  pools.
\<close>

theorem clone_out_of_mbufs:
  assumes "config_ok c" "sizeof_mbuf c < 2 ^ 31" "packet (heap_of st) p (qs @ rest)" "rest \<noteq> []"
    "supplies ops mp (pool_of st) fs pl" "length fs = length qs" "ran_out ops mp rest pl pl'"
    "clone_setup c (heap_of st) (qs @ rest) fs"
  shows "\<exists>h. rte_pktmbuf_clone c ops p mp st = Some (0, \<lparr>heap_of = h,
      pool_of = fold (\<lambda>f. mempool_put ops (mb_pool (seg_at (heap_of st) f)) f) fs pl'\<rparr>) \<and>
    (\<forall>a. a \<notin> set fs \<longrightarrow> h a = heap_of st a) \<and> (\<forall>f\<in>set fs. returned c h f)"
proof (cases "qs = []")
  case True
  then have "fs = []" "pool_of st = pl" using assms(5,6) by simp_all
  moreover have "rte_pktmbuf_clone c ops p mp st = Some (0, st\<lparr>pool_of := pl'\<rparr>)"
    using failed_alloc [of ops mp rest st pl' c] assms(4,7) calculation by (simp add: rte_pktmbuf_clone_def)
  ultimately show ?thesis by (cases st) auto
next
  case False
  have s: "distinct fs" "\<forall>f\<in>set fs. spare (heap_of st) f"
    "clonable c (heap_of st) (owner_in c (heap_of st)) (qs @ rest) fs"
    using assms(8) by (simp_all add: clone_setup_def)
  obtain h4 where h4: "clone_made c (heap_of st) h4 qs fs"
      "rte_pktmbuf_clone c ops p mp st =
        do { st' \<leftarrow> rte_pktmbuf_free c ops (hd fs) \<lparr>heap_of = h4, pool_of = pl'\<rparr>; Some (0, st') }"
    by (rule clone_result [OF assms(1,3) False assms(5,6) s(1) assms(7) s(2,3)])
      (use assms(4) in \<open>simp only: if_False simp_thms\<close>)
  from free_clone_made [OF assms(1,2) h4(1) assms(8), of ops pl'] obtain h5 where
    "rte_pktmbuf_free c ops (hd fs) \<lparr>heap_of = h4, pool_of = pl'\<rparr> =
       Some \<lparr>heap_of = h5, pool_of = put_all ops (heap_of st) fs pl'\<rparr>"
    "\<And>a. a \<notin> set fs \<Longrightarrow> h5 a = heap_of st a" "\<And>f. f \<in> set fs \<Longrightarrow> returned c h5 f" by blast
  with h4(2) show ?thesis by (auto simp: put_all_def)
qed

section \<open>A concrete clone\<close>

text \<open>The packet of two segments, the second shared; the pool has two mbufs and then only one.\<close>

lemma clone_setup_demo:
  "clone_setup demo_config (heap_of clone_state) [0x3000, 0x4000] [0x5000, 0x2000]"
  "clone_setup demo_config (heap_of clone_state) ([0x3000] @ [0x4000]) [0x5000]"
  by (simp_all add: clone_setup_def clonable_def owner_in_def spare_def clone_state_def share_simps)

lemma clone_packet_demo:
  "packet (heap_of clone_state) 0x3000 [0x3000, 0x4000]" "packet (heap_of clone_state) 0x3000 ([0x3000] @ [0x4000])"
  by (simp_all add: packet_def clone_state_def share_simps)

theorem clone_then_free_witness:
  "\<exists>st1 h. rte_pktmbuf_clone demo_config list_pool 0x3000 0xF000 clone_state = Some (0x5000, st1) \<and>
     rte_pktmbuf_free demo_config list_pool 0x5000 st1 =
       Some \<lparr>heap_of = h, pool_of = [0x2000, 0x5000, 0x6000]\<rparr> \<and> h 0x4000 = heap_of clone_state 0x4000"
proof -
  have size: "sizeof_mbuf demo_config < 2 ^ 31" by (simp add: demo_config_def)
  have pool: "supplies list_pool 0xF000 (pool_of clone_state) [0x5000, 0x2000] [0x6000]"
    by (simp add: clone_state_def list_pool_def)
  from clone_then_free [OF demo_config_ok size clone_packet_demo(1) pool _ clone_setup_demo(1)] show ?thesis
    by (fastforce simp: list_pool_def)
qed

theorem clone_out_of_mbufs_witness:
  "\<exists>h. rte_pktmbuf_clone demo_config list_pool 0x3000 0xF000 (clone_state\<lparr>pool_of := [0x5000]\<rparr>) =
     Some (0, \<lparr>heap_of = h, pool_of = [0x5000]\<rparr>) \<and> h 0x4000 = heap_of clone_state 0x4000"
proof -
  let ?st = "clone_state\<lparr>pool_of := [0x5000]\<rparr>"
  have size: "sizeof_mbuf demo_config < 2 ^ 31" by (simp add: demo_config_def)
  have pool: "supplies list_pool 0xF000 (pool_of ?st) [0x5000] []" "ran_out list_pool 0xF000 [0x4000] [] []"
    by (simp_all add: ran_out_def list_pool_def ENOENT_def)
  have st: "packet (heap_of ?st) 0x3000 ([0x3000] @ [0x4000])"
    "clone_setup demo_config (heap_of ?st) ([0x3000] @ [0x4000]) [0x5000]"
    using clone_packet_demo(2) clone_setup_demo(2) by (simp_all del: append.simps)
  from clone_out_of_mbufs [OF demo_config_ok size st(1) _ pool(1) _ pool(2) st(2)] show ?thesis
    by (fastforce simp: list_pool_def)
qed

end
