(* ===== verification/Mbuf_Threads.thy ===== *)
theory Mbuf_Threads
  imports Mbuf_Share
begin

text \<open>
  Threads that share one direct mbuf of \<open>src/src/ext/rte_mbuf.c\<close>, in the build with
  \<open>RTE_MBUF_REFCNT_ATOMIC\<close>.  A thread takes a reference (the update of \<open>rte_pktmbuf_attach\<close>), gives one
  up through an indirect mbuf (that of \<open>rte_pktmbuf_detach\<close>) or through the mbuf itself
  (\<open>rte_pktmbuf_free_seg\<close>), or hands one over to another thread.  The counter is read and written in
  separate steps, as in the code: only \<open>rte_atomic16_add_return\<close> does both at once, and a reader that
  finds 1 goes on without it.  The steps of different threads interleave freely.  A ring or a queue
  that holds mbufs on their way is a thread that only hands over.
\<close>

section \<open>The threads\<close>

text \<open>Where a thread stands in an operation; the update's \<open>value\<close> is 1 or -1.\<close>

datatype phase =
  Idle
| Update_Set u16
| Update_Add u16
| Prefree_Add
| Detach_Unlink
| Prefree_Unlink bool
| Set_One
| Raw_Free

text \<open>The references a thread holds; \<open>freed\<close> lists what \<open>rte_mbuf_raw_free\<close> was given, in time order.\<close>

record thread =
  refs :: nat
  pc :: phase

record shared =
  shared_mbuf :: rte_mbuf
  threads :: "thread list"
  freed :: "rte_mbuf list"

text \<open>The return from \<open>rte_mbuf_refcnt_update\<close> in \<open>attach\<close> and in \<open>detach\<close>.\<close>

definition update_done :: "u16 \<Rightarrow> u16 \<Rightarrow> thread \<Rightarrow> thread" where
  "update_done value ret th =
     (if value = 1 then \<lparr>refs = refs th + 1, pc = Idle\<rparr>
      else \<lparr>refs = refs th - 1, pc = (if ret = 0 then Detach_Unlink else Idle)\<rparr>)"

definition prefree_done :: "u16 \<Rightarrow> thread \<Rightarrow> thread" where
  "prefree_done ret th = \<lparr>refs = refs th - 1, pc = (if ret = 0 then Prefree_Unlink True else Idle)\<rparr>"

text \<open>The first step of an operation reads the counter.\<close>

definition begin_update :: "mbuf_config \<Rightarrow> rte_mbuf \<Rightarrow> u16 \<Rightarrow> thread \<Rightarrow> thread" where
  "begin_update c m value th =
     th\<lparr>pc := if rte_mbuf_refcnt_read c m = 1 then Update_Set value else Update_Add value\<rparr>"

definition begin_prefree :: "mbuf_config \<Rightarrow> rte_mbuf \<Rightarrow> thread \<Rightarrow> thread" where
  "begin_prefree c m th =
     (if rte_mbuf_refcnt_read c m = 1 then \<lparr>refs = refs th - 1, pc = Prefree_Unlink False\<rparr>
      else th\<lparr>pc := Prefree_Add\<rparr>)"

text \<open>The other steps: the mbuf, the thread and what was freed after the step.\<close>

fun work :: "mbuf_config \<Rightarrow> rte_mbuf \<Rightarrow> thread \<Rightarrow> (rte_mbuf \<times> thread \<times> rte_mbuf list) option" where
  "work c m th = (case pc th of
     Idle \<Rightarrow> None
   | Update_Set value \<Rightarrow> Some (rte_mbuf_refcnt_set c m (1 + value), update_done value (1 + value) th, [])
   | Update_Add value \<Rightarrow> (case mbuf_refcnt_update_internal c m value of
       (ret, m) \<Rightarrow> Some (m, update_done value ret th, []))
   | Prefree_Add \<Rightarrow> (case mbuf_refcnt_update_internal c m (- 1) of
       (ret, m) \<Rightarrow> Some (m, prefree_done ret th, []))
   | Detach_Unlink \<Rightarrow> Some (m\<lparr>mb_next := 0, nb_segs := 1\<rparr>, th\<lparr>pc := Set_One\<rparr>, [])
   | Prefree_Unlink counted \<Rightarrow> Some (if mb_next m \<noteq> 0 then m\<lparr>mb_next := 0, nb_segs := 1\<rparr> else m,
       th\<lparr>pc := if counted then Set_One else Raw_Free\<rparr>, [])
   | Set_One \<Rightarrow> Some (rte_mbuf_refcnt_set c m 1, th\<lparr>pc := Raw_Free\<rparr>, [])
   | Raw_Free \<Rightarrow> Some (m, th\<lparr>pc := Idle\<rparr>, [m]))"

declare work.simps [simp del]

inductive begin_step :: "mbuf_config \<Rightarrow> shared \<Rightarrow> shared \<Rightarrow> bool" for c where
  begin_update: "t < length (threads s) \<Longrightarrow> pc (threads s ! t) = Idle \<Longrightarrow> 1 \<le> refs (threads s ! t) \<Longrightarrow>
    value \<in> {1, - 1} \<Longrightarrow>
    begin_step c s (s\<lparr>threads := (threads s)[t := begin_update c (shared_mbuf s) value (threads s ! t)]\<rparr>)"
| begin_prefree: "t < length (threads s) \<Longrightarrow> pc (threads s ! t) = Idle \<Longrightarrow> 1 \<le> refs (threads s ! t) \<Longrightarrow>
    begin_step c s (s\<lparr>threads := (threads s)[t := begin_prefree c (shared_mbuf s) (threads s ! t)]\<rparr>)"
| hand_over: "t < length (threads s) \<Longrightarrow> u < length (threads s) \<Longrightarrow> t \<noteq> u \<Longrightarrow>
    pc (threads s ! t) = Idle \<Longrightarrow> pc (threads s ! u) = Idle \<Longrightarrow> 1 \<le> refs (threads s ! t) \<Longrightarrow>
    begin_step c s (s\<lparr>threads := (threads s)
      [t := (threads s ! t)\<lparr>refs := refs (threads s ! t) - 1\<rparr>,
       u := (threads s ! u)\<lparr>refs := refs (threads s ! u) + 1\<rparr>]\<rparr>)"

inductive work_of :: "mbuf_config \<Rightarrow> nat \<Rightarrow> shared \<Rightarrow> shared \<Rightarrow> bool" for c t where
  work_of: "t < length (threads s) \<Longrightarrow> work c (shared_mbuf s) (threads s ! t) = Some (m, th, out) \<Longrightarrow>
    work_of c t s \<lparr>shared_mbuf = m, threads = (threads s)[t := th], freed = freed s @ out\<rparr>"

inductive_cases begin_stepE: "begin_step c s s'"
inductive_cases work_ofE: "work_of c t s s'"

definition total_refs :: "shared \<Rightarrow> nat" where
  "total_refs s = sum_list (map refs (threads s))"

text \<open>A step of any thread, as long as the references fit the 16-bit counter.\<close>

definition ref_step :: "mbuf_config \<Rightarrow> shared \<Rightarrow> shared \<Rightarrow> bool" where
  "ref_step c s s' \<longleftrightarrow> (begin_step c s s' \<or> (\<exists>t. work_of c t s s')) \<and> total_refs s' \<le> 65535"

definition quiet :: "shared \<Rightarrow> bool" where
  "quiet s \<longleftrightarrow> (\<forall>th\<in>set (threads s). pc th = Idle)"

definition shared_start :: "shared \<Rightarrow> bool" where
  "shared_start s \<longleftrightarrow> quiet s \<and> freed s = [] \<and> tail_ok (shared_mbuf s) \<and> 1 \<le> total_refs s \<and> total_refs s \<le> 65535 \<and>
     unat (refcnt (shared_mbuf s)) = total_refs s"

section \<open>The invariant\<close>

text \<open>While references exist, the counter is their number; a thread that read 1 holds the only one.\<close>

primrec live_phase :: "nat \<Rightarrow> nat \<Rightarrow> phase \<Rightarrow> bool" where
  "live_phase n r Idle \<longleftrightarrow> True"
| "live_phase n r (Update_Set v) \<longleftrightarrow> r = 1 \<and> n = 1 \<and> v \<in> {1, - 1}"
| "live_phase n r (Update_Add v) \<longleftrightarrow> 1 \<le> r \<and> v \<in> {1, - 1}"
| "live_phase n r Prefree_Add \<longleftrightarrow> 1 \<le> r"
| "live_phase n r Detach_Unlink \<longleftrightarrow> False"
| "live_phase n r (Prefree_Unlink counted) \<longleftrightarrow> False"
| "live_phase n r Set_One \<longleftrightarrow> False"
| "live_phase n r Raw_Free \<longleftrightarrow> False"

abbreviation live_thread :: "nat \<Rightarrow> thread \<Rightarrow> bool" where
  "live_thread n th \<equiv> live_phase n (refs th) (pc th)"

definition live :: "shared \<Rightarrow> bool" where
  "live s \<longleftrightarrow> freed s = [] \<and> tail_ok (shared_mbuf s) \<and> 1 \<le> total_refs s \<and> total_refs s \<le> 65535 \<and>
     unat (refcnt (shared_mbuf s)) = total_refs s \<and> (\<forall>th\<in>set (threads s). live_thread (total_refs s) th)"

text \<open>After the last one is gone, one thread releases the mbuf and the others are at rest.\<close>

definition pool_ready :: "rte_mbuf \<Rightarrow> bool" where
  "pool_ready m \<longleftrightarrow> refcnt m = 1 \<and> mb_next m = 0 \<and> nb_segs m = 1"

primrec release_ok :: "rte_mbuf \<Rightarrow> phase \<Rightarrow> bool" where
  "release_ok m Idle \<longleftrightarrow> False"
| "release_ok m (Update_Set v) \<longleftrightarrow> False"
| "release_ok m (Update_Add v) \<longleftrightarrow> False"
| "release_ok m Prefree_Add \<longleftrightarrow> False"
| "release_ok m Detach_Unlink \<longleftrightarrow> True"
| "release_ok m (Prefree_Unlink counted) \<longleftrightarrow> tail_ok m \<and> (counted \<or> refcnt m = 1)"
| "release_ok m Set_One \<longleftrightarrow> mb_next m = 0 \<and> nb_segs m = 1"
| "release_ok m Raw_Free \<longleftrightarrow> pool_ready m"

definition releasing :: "shared \<Rightarrow> bool" where
  "releasing s \<longleftrightarrow> freed s = [] \<and> total_refs s = 0 \<and>
     (\<exists>t<length (threads s). release_ok (shared_mbuf s) (pc (threads s ! t)) \<and>
        (\<forall>u<length (threads s). u \<noteq> t \<longrightarrow> pc (threads s ! u) = Idle))"

definition released :: "shared \<Rightarrow> bool" where
  "released s \<longleftrightarrow> total_refs s = 0 \<and> quiet s \<and> (\<exists>m. freed s = [m] \<and> pool_ready m)"

definition ref_inv :: "shared \<Rightarrow> bool" where
  "ref_inv s \<longleftrightarrow> live s \<or> releasing s \<or> released s"

section \<open>Counting\<close>

lemma refs_le_total: "t < length (threads s) \<Longrightarrow> refs (threads s ! t) \<le> total_refs s"
  unfolding total_refs_def by (rule member_le_sum_list) simp_all

lemma total_update:
  "t < length (threads s) \<Longrightarrow> threads s' = (threads s)[t := th] \<Longrightarrow>
   total_refs s' + refs (threads s ! t) = total_refs s + refs th"
  using refs_le_total [of t s]
  by (simp add: total_refs_def map_update sum_list_update)

lemma others_empty:
  assumes "t < length (threads s)" "refs (threads s ! t) = total_refs s" "u < length (threads s)" "u \<noteq> t"
  shows "refs (threads s ! u) = 0"
proof -
  let ?s = "s\<lparr>threads := (threads s)[t := (threads s ! t)\<lparr>refs := 0\<rparr>]\<rparr>"
  have "total_refs ?s = 0" using total_update [OF assms(1), of ?s] assms(2) by simp
  then show ?thesis using refs_le_total [of u ?s] assms(3,4) by simp
qed

lemma idle_set: "quiet s \<longleftrightarrow> (\<forall>t<length (threads s). pc (threads s ! t) = Idle)"
  by (simp add: quiet_def all_set_conv_all_nth)

text \<open>When a step leaves no reference, the threads other than its own are at rest.\<close>

lemma others_idle:
  assumes "live s" "t < length (threads s)" "refs (threads s ! t) = total_refs s"
    "u < length (threads s)" "u \<noteq> t"
  shows "pc (threads s ! u) = Idle"
proof -
  have "live_thread (total_refs s) (threads s ! u)" using assms(1,4) by (auto simp: live_def)
  with others_empty [OF assms(2,3,4,5)] show ?thesis
    by (cases "pc (threads s ! u)") simp_all
qed

section \<open>Steps while references exist\<close>

lemma live_index: "live s \<Longrightarrow> t < length (threads s) \<Longrightarrow> live_thread (total_refs s) (threads s ! t)"
  by (simp add: live_def)

text \<open>A step of a thread that holds a reference, after which there still are some.\<close>

lemma live_change:
  assumes s: "live s" "t < length (threads s)" "1 \<le> refs (threads s ! t)"
    and s': "threads s' = (threads s)[t := th]" "freed s' = []" "tail_ok (shared_mbuf s')"
      "1 \<le> total_refs s'" "total_refs s' \<le> 65535" "unat (refcnt (shared_mbuf s')) = total_refs s'"
      "live_thread (total_refs s') th"
  shows "live s'"
proof -
  have "live_thread (total_refs s') (threads s' ! u)" if u: "u < length (threads s')" for u
  proof (cases "u = t")
    case True
    with s' u show ?thesis by simp
  next
    case False
    then have eq: "threads s' ! u = threads s ! u" "u < length (threads s)" using s'(1) u by simp_all
    have "pc (threads s ! u) \<noteq> Update_Set v" for v
    proof
      assume "pc (threads s ! u) = Update_Set v"
      then have "refs (threads s ! u) = total_refs s"
        using live_index [OF s(1) eq(2)] by simp
      from others_empty [OF eq(2) this s(2)] False s(3) show False by simp
    qed
    then show ?thesis
      using live_index [OF s(1) eq(2)] unfolding eq(1) by (cases "pc (threads s ! u)") simp_all
  qed
  with s' show ?thesis by (simp add: live_def all_set_conv_all_nth)
qed

text \<open>The step that gives up the last one.\<close>

lemma last_change:
  assumes s: "live s" "t < length (threads s)" "refs (threads s ! t) = total_refs s"
    and s': "threads s' = (threads s)[t := th]" "freed s' = []" "refs th = 0"
      "release_ok (shared_mbuf s') (pc th)"
  shows "releasing s'"
proof -
  have "total_refs s' = 0" using total_update [OF s(2) s'(1)] s(3) s'(3) by simp
  moreover have "pc (threads s' ! u) = Idle" if "u < length (threads s')" "u \<noteq> t" for u
    using that others_idle [OF s] s'(1) by simp
  ultimately show ?thesis unfolding releasing_def using s s' by (intro conjI exI [of _ t]) auto
qed

lemma one_holder: "live s \<Longrightarrow> t < length (threads s) \<Longrightarrow> 1 \<le> refs (threads s ! t) \<Longrightarrow> total_refs s = 1 \<Longrightarrow> refs (threads s ! t) = 1"
  using refs_le_total [of t s] by simp

lemma live_read:
  assumes "config_ok c" "live s"
  shows "rte_mbuf_refcnt_read c (shared_mbuf s) = 1 \<longleftrightarrow> total_refs s = 1"
proof -
  have "refcnt (shared_mbuf s) = 1 \<longleftrightarrow> unat (refcnt (shared_mbuf s)) = 1"
    by (metis unat_1 word_unat_eq_iff)
  then show ?thesis using assms by (simp add: refcnt_simps live_def)
qed

lemma begin_update_inv:
  assumes c: "config_ok c" and s: "live s" "t < length (threads s)" "pc (threads s ! t) = Idle"
    "1 \<le> refs (threads s ! t)" "value \<in> {1, - 1}"
  shows "live (s\<lparr>threads := (threads s)[t := begin_update c (shared_mbuf s) value (threads s ! t)]\<rparr>)"
    (is "live ?s")
proof -
  let ?th = "begin_update c (shared_mbuf s) value (threads s ! t)"
  have "refs ?th = refs (threads s ! t)" by (simp add: begin_update_def)
  then have total: "total_refs ?s = total_refs s" using total_update [OF s(2), of ?s ?th] by simp
  have th: "live_thread (total_refs s) ?th"
    using live_read [OF c s(1)] one_holder [OF s(1,2,4)] s(4,5) by (simp add: begin_update_def)
  show ?thesis
    by (rule live_change [OF s(1,2,4)]) (use s(1) th in \<open>simp_all add: total live_def\<close>)
qed

lemma begin_prefree_inv:
  assumes c: "config_ok c" and s: "live s" "t < length (threads s)" "pc (threads s ! t) = Idle"
    "1 \<le> refs (threads s ! t)"
  shows "ref_inv (s\<lparr>threads := (threads s)[t := begin_prefree c (shared_mbuf s) (threads s ! t)]\<rparr>)"
    (is "ref_inv ?s")
proof (cases "rte_mbuf_refcnt_read c (shared_mbuf s) = 1")
  case True
  then have one: "total_refs s = 1" "refs (threads s ! t) = 1" "refcnt (shared_mbuf s) = 1"
    using live_read [OF c s(1)] one_holder [OF s(1,2,4)] c by (simp_all add: refcnt_simps)
  have "releasing ?s"
    by (rule last_change [OF s(1,2), where th = "begin_prefree c (shared_mbuf s) (threads s ! t)"])
      (use s(1) one True in \<open>simp_all add: begin_prefree_def live_def\<close>)
  then show ?thesis by (simp add: ref_inv_def)
next
  case False
  let ?s' = "s\<lparr>threads := (threads s)[t := (threads s ! t)\<lparr>pc := Prefree_Add\<rparr>]\<rparr>"
  have eq: "?s = ?s'" using False by (simp add: begin_prefree_def)
  have total: "total_refs ?s' = total_refs s"
    using total_update [OF s(2), of ?s' "(threads s ! t)\<lparr>pc := Prefree_Add\<rparr>"] by simp
  have "live ?s'"
    by (rule live_change [OF s(1,2,4), where th = "(threads s ! t)\<lparr>pc := Prefree_Add\<rparr>"])
      (use s(1,4) in \<open>simp_all add: total live_def\<close>)
  then show ?thesis by (simp add: eq ref_inv_def)
qed

lemma hand_over_total:
  assumes "t < length (threads s)" "u < length (threads s)" "t \<noteq> u" "1 \<le> refs (threads s ! t)"
    "threads s' = (threads s)[t := (threads s ! t)\<lparr>refs := refs (threads s ! t) - 1\<rparr>,
      u := (threads s ! u)\<lparr>refs := refs (threads s ! u) + 1\<rparr>]"
  shows "total_refs s' = total_refs s"
proof -
  let ?s = "s\<lparr>threads := (threads s)[t := (threads s ! t)\<lparr>refs := refs (threads s ! t) - 1\<rparr>]\<rparr>"
  have "total_refs ?s + refs (threads s ! t) = total_refs s + (refs (threads s ! t) - 1)"
    using total_update [OF assms(1), of ?s "(threads s ! t)\<lparr>refs := refs (threads s ! t) - 1\<rparr>"] by simp
  moreover have "total_refs s' + refs (threads ?s ! u) = total_refs ?s + (refs (threads s ! u) + 1)"
    using total_update [of u ?s s' "(threads s ! u)\<lparr>refs := refs (threads s ! u) + 1\<rparr>"] assms by simp
  ultimately show ?thesis using assms by simp
qed

lemma hand_over_inv:
  assumes s: "live s" "t < length (threads s)" "u < length (threads s)" "t \<noteq> u"
    "pc (threads s ! t) = Idle" "pc (threads s ! u) = Idle" "1 \<le> refs (threads s ! t)"
    and s': "s' = s\<lparr>threads := (threads s)[t := (threads s ! t)\<lparr>refs := refs (threads s ! t) - 1\<rparr>,
      u := (threads s ! u)\<lparr>refs := refs (threads s ! u) + 1\<rparr>]\<rparr>"
  shows "live s'"
proof -
  have total: "total_refs s' = total_refs s"
    using hand_over_total [OF s(2,3,4,7), of s'] s' by simp
  have "live_thread (total_refs s) (threads s' ! w)" if "w < length (threads s')" for w
  proof (cases "w = t \<or> w = u")
    case True
    with s(2-6) show ?thesis by (auto simp: s')
  next
    case False
    then have "threads s' ! w = threads s ! w" "w < length (threads s)" using that by (simp_all add: s')
    with live_index [OF s(1)] show ?thesis by simp
  qed
  then show ?thesis using s(1) by (simp add: live_def total all_set_conv_all_nth) (simp add: s')
qed

lemma begin_step_inv:
  assumes c: "config_ok c" and s: "live s" and step: "begin_step c s s'"
  shows "ref_inv s'"
  using step
proof (cases rule: begin_step.cases)
  case (begin_update t v)
  with begin_update_inv [OF c s] show ?thesis by (simp add: ref_inv_def)
next
  case (begin_prefree t)
  with begin_prefree_inv [OF c s] show ?thesis by simp
next
  case (hand_over t u)
  with hand_over_inv [OF s] show ?thesis by (simp add: ref_inv_def)
qed

section \<open>Work\<close>

lemma work_update_set:
  assumes c: "config_ok c" and s: "live s" "t < length (threads s)" "pc (threads s ! t) = Update_Set v"
    and s': "shared_mbuf s' = rte_mbuf_refcnt_set c (shared_mbuf s) (1 + v)"
      "threads s' = (threads s)[t := update_done v (1 + v) (threads s ! t)]" "freed s' = freed s"
  shows "ref_inv s'"
proof -
  have th: "refs (threads s ! t) = 1" "total_refs s = 1" "v \<in> {1, - 1}"
    using live_index [OF s(1,2)] s(3) by simp_all
  have m: "shared_mbuf s' = (shared_mbuf s)\<lparr>refcnt := 1 + v\<rparr>" using s'(1) c by (simp add: refcnt_simps)
  from th(3) consider "v = 1" | "v = - 1" by blast
  then show ?thesis
  proof cases
    case 1
    have total: "total_refs s' = 2"
      using total_update [OF s(2) s'(2)] th 1 by (simp add: update_done_def)
    have "live s'"
      by (rule live_change [OF s(1,2) _ s'(2)])
        (use s(1) th 1 in \<open>simp_all add: total live_def m s'(3) update_done_def tail_ok_def\<close>)
    then show ?thesis by (simp add: ref_inv_def)
  next
    case 2
    have "releasing s'"
      by (rule last_change [OF s(1,2) _ s'(2)])
        (use s(1) th 2 in \<open>simp_all add: live_def s'(3) update_done_def\<close>)
    then show ?thesis by (simp add: ref_inv_def)
  qed
qed

text \<open>The counter after an addition of 1 or -1.\<close>

lemma counter_down:
  assumes "live s"
  shows "unat (refcnt (shared_mbuf s) - 1) = total_refs s - 1"
proof -
  have "1 \<le> unat (refcnt (shared_mbuf s))" "unat (refcnt (shared_mbuf s)) = total_refs s"
    using assms by (simp_all add: live_def)
  then show ?thesis by (simp add: unat_sub word_le_nat_alt)
qed

lemma counter_up: "live s \<Longrightarrow> total_refs s < 65535 \<Longrightarrow> unat (refcnt (shared_mbuf s) + 1) = total_refs s + 1"
  using unat_add_small [of "refcnt (shared_mbuf s)" 1] by (simp add: live_def)

text \<open>Giving up a reference by the atomic addition: either others remain, or the releasing begins.\<close>

lemma drop_one:
  assumes s: "live s" "t < length (threads s)" "1 \<le> refs (threads s ! t)"
    and s': "shared_mbuf s' = (shared_mbuf s)\<lparr>refcnt := refcnt (shared_mbuf s) - 1\<rparr>"
      "threads s' = (threads s)[t := \<lparr>refs = refs (threads s ! t) - 1,
         pc = (if refcnt (shared_mbuf s) - 1 = 0 then ph else Idle)\<rparr>]" "freed s' = freed s"
    and ph: "tail_ok (shared_mbuf s') \<Longrightarrow> release_ok (shared_mbuf s') ph"
  shows "ref_inv s'"
proof -
  have down: "unat (refcnt (shared_mbuf s) - 1) = total_refs s - 1" by (rule counter_down [OF s(1)])
  have zero: "refcnt (shared_mbuf s) - 1 = 0 \<longleftrightarrow> total_refs s = 1"
    using down s(1) by (metis diff_is_0_eq eq_iff live_def unat_eq_0)
  have tail: "tail_ok (shared_mbuf s')" using s(1) by (simp add: live_def tail_ok_def s'(1))
  show ?thesis
  proof (cases "total_refs s = 1")
    case True
    have "releasing s'"
      by (rule last_change [OF s(1,2)], unfold True, rule one_holder [OF s(1,2,3) True], rule s'(2))
        (use s(1) ph [OF tail] one_holder [OF s(1,2,3) True] zero True in \<open>simp_all add: live_def s'(3)\<close>)
    then show ?thesis by (simp add: ref_inv_def)
  next
    case False
    have total: "total_refs s' = total_refs s - 1"
      using total_update [OF s(2) s'(2)] s(3) refs_le_total [OF s(2)] by simp
    have "live s'"
      by (rule live_change [OF s s'(2)])
        (use s(1) tail False zero down in \<open>auto simp: live_def s'(1,3) total\<close>)
    then show ?thesis by (simp add: ref_inv_def)
  qed
qed

lemma work_update_add:
  assumes c: "config_ok c" "total_refs s' \<le> 65535" and s: "live s" "t < length (threads s)"
    "pc (threads s ! t) = Update_Add v"
    and s': "mbuf_refcnt_update_internal c (shared_mbuf s) v = (ret, shared_mbuf s')"
      "threads s' = (threads s)[t := update_done v ret (threads s ! t)]" "freed s' = freed s"
  shows "ref_inv s'"
proof -
  have th: "1 \<le> refs (threads s ! t)" "v \<in> {1, - 1}"
    using live_index [OF s(1,2)] s(3) by simp_all
  have m: "ret = refcnt (shared_mbuf s) + v" "shared_mbuf s' = (shared_mbuf s)\<lparr>refcnt := refcnt (shared_mbuf s) + v\<rparr>"
    using s'(1) c(1) by (auto simp: refcnt_simps)
  from th(2) consider "v = 1" | "v = - 1" by blast
  then show ?thesis
  proof cases
    case 1
    have total: "total_refs s' = total_refs s + 1"
      using total_update [OF s(2) s'(2)] 1 by (simp add: update_done_def)
    have "live s'"
      by (rule live_change [OF s(1,2) th(1) s'(2)])
        (use s(1) 1 c(2) counter_up [OF s(1)] in \<open>simp_all add: total live_def m s'(3) update_done_def tail_ok_def\<close>)
    then show ?thesis by (simp add: ref_inv_def)
  next
    case 2
    show ?thesis
      by (rule drop_one [OF s(1,2) th(1), where ph = Detach_Unlink])
        (use 2 in \<open>simp_all add: m s'(2,3) update_done_def\<close>)
  qed
qed

lemma work_prefree_add:
  assumes c: "config_ok c" and s: "live s" "t < length (threads s)" "pc (threads s ! t) = Prefree_Add"
    and s': "mbuf_refcnt_update_internal c (shared_mbuf s) (- 1) = (ret, shared_mbuf s')"
      "threads s' = (threads s)[t := prefree_done ret (threads s ! t)]" "freed s' = freed s"
  shows "ref_inv s'"
proof -
  have th: "1 \<le> refs (threads s ! t)" using live_index [OF s(1,2)] s(3) by simp
  have m: "ret = refcnt (shared_mbuf s) - 1" "shared_mbuf s' = (shared_mbuf s)\<lparr>refcnt := refcnt (shared_mbuf s) - 1\<rparr>"
    using s'(1) c by (auto simp: refcnt_simps)
  show ?thesis
    by (rule drop_one [OF s(1,2) th, where ph = "Prefree_Unlink True"])
      (simp_all add: m s'(2,3) prefree_done_def)
qed

lemma live_work:
  assumes c: "config_ok c" "total_refs s' \<le> 65535" and s: "live s" and step: "work_of c t s s'"
  shows "ref_inv s'"
  using step
proof (cases rule: work_of.cases)
  case (work_of m th out)
  note live = live_index [OF s work_of(2)]
  show ?thesis
  proof (cases "pc (threads s ! t)")
    case (Update_Set v)
    with work_of show ?thesis
      by (intro work_update_set [OF c(1) s work_of(2) Update_Set]) (simp_all add: work.simps)
  next
    case (Update_Add v)
    from work_of(1,3) Update_Add
    have "\<exists>ret. mbuf_refcnt_update_internal c (shared_mbuf s) v = (ret, shared_mbuf s') \<and>
        threads s' = (threads s)[t := update_done v ret (threads s ! t)] \<and> freed s' = freed s"
      by (auto simp: work.simps split: prod.splits)
    with work_update_add [OF c s work_of(2) Update_Add] show ?thesis by blast
  next
    case Prefree_Add
    from work_of(1,3) Prefree_Add
    have "\<exists>ret. mbuf_refcnt_update_internal c (shared_mbuf s) (- 1) = (ret, shared_mbuf s') \<and>
        threads s' = (threads s)[t := prefree_done ret (threads s ! t)] \<and> freed s' = freed s"
      by (auto simp: work.simps split: prod.splits)
    with work_prefree_add [OF c(1) s work_of(2) Prefree_Add] show ?thesis by blast
  qed (use live work_of(3) in \<open>simp_all add: work.simps\<close>)
qed

text \<open>The releasing thread goes through its steps alone.\<close>

lemma releasing_work:
  assumes c: "config_ok c" and s: "releasing s" and step: "work_of c t s s'"
  shows "ref_inv s'"
  using step
proof (cases rule: work_of.cases)
  case (work_of m th out)
  let ?th = "threads s ! t"
  have "pc ?th \<noteq> Idle" using work_of(3) by (auto simp: work.simps)
  then have r: "freed s = []" "total_refs s = 0" "release_ok (shared_mbuf s) (pc ?th)"
    "\<And>u. u < length (threads s) \<Longrightarrow> u \<noteq> t \<Longrightarrow> pc (threads s ! u) = Idle"
    using s work_of(2) by (auto simp: releasing_def)
  have refs: "refs ?th = 0" using refs_le_total [OF work_of(2)] r(2) by simp
  show ?thesis
  proof (cases "pc ?th = Raw_Free")
    case True
    then have s': "s' = s\<lparr>threads := (threads s)[t := ?th\<lparr>pc := Idle\<rparr>], freed := [shared_mbuf s]\<rparr>"
      using work_of(1,3) r(1) by (cases s) (auto simp: work.simps)
    have "total_refs s' = 0"
      using total_update [OF work_of(2), of s' "?th\<lparr>pc := Idle\<rparr>"] r(2) by (simp add: s')
    moreover have "quiet s'" using r(4) work_of(2) by (simp add: idle_set s' nth_list_update)
    ultimately have "released s'" using r(3) True by (simp add: released_def s')
    then show ?thesis by (simp add: ref_inv_def)
  next
    case False
    with r(3) work_of(3) c have th: "release_ok m (pc th)" "refs th = refs ?th" "out = []"
      by (cases "pc ?th"; auto simp: work.simps refcnt_simps pool_ready_def tail_ok_def split: if_splits)+
    have s': "threads s' = (threads s)[t := th]" "shared_mbuf s' = m" "freed s' = []"
      using work_of(1) th(3) r(1) by simp_all
    have "total_refs s' = 0"
      using total_update [OF work_of(2) s'(1)] r(2) th(2) refs by simp
    then have "releasing s'" unfolding releasing_def using s' th(1) r(4) work_of(2)
      by (intro conjI exI [of _ t]) auto
    then show ?thesis by (simp add: ref_inv_def)
  qed
qed

lemma ref_step_inv:
  assumes c: "config_ok c" and s: "ref_inv s" and step: "ref_step c s s'"
  shows "ref_inv s'"
proof -
  from s consider "live s" | "releasing s" | "released s" by (auto simp: ref_inv_def)
  then show ?thesis
  proof cases
    case 1
    with step c live_work begin_step_inv show ?thesis by (auto simp: ref_step_def)
  next
    case 2
    then have "\<not> begin_step c s s'"
      using refs_le_total [of _ s] by (auto simp: releasing_def elim!: begin_stepE)
    with 2 step releasing_work [OF c] show ?thesis by (auto simp: ref_step_def)
  next
    case 3
    then have "\<not> begin_step c s s'" "\<And>t. \<not> work_of c t s s'"
      using refs_le_total [of _ s] by (auto simp: released_def idle_set work.simps elim!: begin_stepE work_ofE)
    with step show ?thesis by (simp add: ref_step_def)
  qed
qed

lemma ref_inv_reachable:
  "(ref_step c)\<^sup>*\<^sup>* s s' \<Longrightarrow> config_ok c \<Longrightarrow> ref_inv s \<Longrightarrow> ref_inv s'"
  by (induction rule: rtranclp_induct) (auto intro: ref_step_inv)

lemma releasing_busy: "releasing s \<Longrightarrow> \<not> quiet s"
  by (auto simp: releasing_def idle_set)

lemma shared_start_inv: "shared_start s \<Longrightarrow> ref_inv s"
  by (auto simp: shared_start_def ref_inv_def live_def quiet_def)

section \<open>The operations in progress come to an end\<close>

text \<open>How many steps of its own an operation still needs at most.\<close>

primrec steps_left :: "phase \<Rightarrow> nat" where
  "steps_left Idle = 0"
| "steps_left (Update_Set v) = 4"
| "steps_left (Update_Add v) = 4"
| "steps_left Prefree_Add = 4"
| "steps_left Detach_Unlink = 3"
| "steps_left (Prefree_Unlink counted) = 3"
| "steps_left Set_One = 2"
| "steps_left Raw_Free = 1"

lemma work_enabled_always: "pc th \<noteq> Idle \<Longrightarrow> \<exists>r. work c m th = Some r"
  by (cases "pc th") (auto simp: work.simps split: prod.splits)

lemma work_decreases: "work c m th = Some (m', th', out) \<Longrightarrow> steps_left (pc th') < steps_left (pc th)"
  by (cases "pc th") (auto simp: work.simps update_done_def prefree_done_def split: prod.splits if_splits)

definition left :: "shared \<Rightarrow> nat" where
  "left s = sum_list (map (\<lambda>th. steps_left (pc th)) (threads s))"

lemma left_update:
  "t < length (threads s) \<Longrightarrow> threads s' = (threads s)[t := th] \<Longrightarrow>
   left s' + steps_left (pc (threads s ! t)) = left s + steps_left (pc th)"
  using member_le_sum_list [of "steps_left (pc (threads s ! t))" "map (\<lambda>th. steps_left (pc th)) (threads s)"]
  by (simp add: left_def map_update sum_list_update)

lemma left_decreases:
  assumes "work_of c t s s'"
  shows "left s' < left s"
  using assms
proof (cases rule: work_of.cases)
  case (work_of m th out)
  with left_update [OF work_of(2), of s' th] work_decreases [OF work_of(3)] show ?thesis by simp
qed

lemma left_bound: "left s \<le> 4 * length (threads s)"
proof -
  have "steps_left ph \<le> 4" for ph by (cases ph) simp_all
  then have "left s \<le> sum_list (map (\<lambda>th. 4) (threads s))"
    unfolding left_def by (intro sum_list_mono) simp
  then show ?thesis by (simp add: sum_list_triv mult.commute)
qed

definition any_work :: "mbuf_config \<Rightarrow> shared \<Rightarrow> shared \<Rightarrow> bool" where
  "any_work c s s' \<longleftrightarrow> (\<exists>t. work_of c t s s')"

lemma work_bounded: "(any_work c ^^ n) s s' \<Longrightarrow> n + left s' \<le> left s"
proof (induction n arbitrary: s')
  case (Suc n)
  then obtain s1 where "(any_work c ^^ n) s s1" "any_work c s1 s'" by auto
  with Suc.IH [of s1] left_decreases show ?case by (fastforce simp: any_work_def)
qed simp

lemma busy_works: "\<not> quiet s \<Longrightarrow> \<exists>s'. any_work c s s'"
  using work_enabled_always by (fastforce simp: idle_set any_work_def intro: work_of.intros)

text \<open>The references that exist or are being taken.\<close>

definition promised :: "shared \<Rightarrow> nat" where
  "promised s = sum_list (map (\<lambda>th. refs th + (if pc th = Update_Set 1 \<or> pc th = Update_Add 1 then 1 else 0)) (threads s))"

lemma total_le_promised: "total_refs s \<le> promised s"
  unfolding total_refs_def promised_def by (rule sum_list_mono) simp

lemma promised_work:
  assumes "work_of c t s s'"
  shows "promised s' \<le> promised s"
  using assms
proof (cases rule: work_of.cases)
  case (work_of m th out)
  let ?w = "\<lambda>th. refs th + (if pc th = Update_Set 1 \<or> pc th = Update_Add 1 then 1 else 0)"
  have "?w th \<le> ?w (threads s ! t)"
    using work_of(3) by (cases "pc (threads s ! t)")
      (auto simp: work.simps update_done_def prefree_done_def split: prod.splits if_splits)
  moreover have "promised s = sum_list (map ?w (threads s))"
    "promised s' = sum_list ((map ?w (threads s))[t := ?w th])"
    using work_of(1) by (simp_all add: promised_def map_update)
  moreover have "?w (threads s ! t) \<le> sum_list (map ?w (threads s))"
    using work_of(2) by (intro member_le_sum_list) simp_all
  ultimately show ?thesis using work_of(2) by (simp add: sum_list_update)
qed

lemma finish_work:
  "promised s \<le> 65535 \<Longrightarrow> \<exists>s'. (any_work c)\<^sup>*\<^sup>* s s' \<and> (ref_step c)\<^sup>*\<^sup>* s s' \<and> quiet s'"
proof (induction "left s" arbitrary: s rule: less_induct)
  case less
  show ?case
  proof (cases "quiet s")
    case False
    from busy_works [OF this, of c] obtain s1 t where s1: "any_work c s s1" "work_of c t s s1"
      unfolding any_work_def by blast
    then have p: "promised s1 \<le> 65535" using promised_work less.prems le_trans by blast
    then have "ref_step c s s1" using s1(2) total_le_promised [of s1] by (auto simp: ref_step_def)
    with less.hyps [OF left_decreases [OF s1(2)] p] s1(1) show ?thesis
      by (meson converse_rtranclp_into_rtranclp)
  qed blast
qed

section \<open>A thread alone\<close>

function run_work :: "mbuf_config \<Rightarrow> rte_mbuf \<Rightarrow> thread \<Rightarrow> rte_mbuf \<times> thread \<times> rte_mbuf list" where
  "run_work c m th = (case work c m th of
     None \<Rightarrow> (m, th, [])
   | Some (m, th, out) \<Rightarrow> (case run_work c m th of (m, th, out') \<Rightarrow> (m, th, out @ out')))"
  by pat_completeness auto
termination
  by (relation "measure (\<lambda>(c, m, th). steps_left (pc th))") (auto dest: work_decreases)

declare run_work.simps [simp del]

lemma run_work_steps:
  "t < length (threads s) \<Longrightarrow> threads s ! t = th \<Longrightarrow> shared_mbuf s = m \<Longrightarrow> run_work c m th = (m', th', out) \<Longrightarrow>
   (work_of c t)\<^sup>*\<^sup>* s \<lparr>shared_mbuf = m', threads = (threads s)[t := th'], freed = freed s @ out\<rparr>"
proof (induction c m th arbitrary: s out rule: run_work.induct)
  case (1 c m th)
  show ?case
  proof (cases "work c m th")
    case None
    with "1.prems" have "th' = threads s ! t" "m' = shared_mbuf s" "out = []" by (simp_all add: run_work.simps)
    then have "\<lparr>shared_mbuf = m', threads = (threads s)[t := th'], freed = freed s @ out\<rparr> = s" by simp
    then show ?thesis by simp
  next
    case (Some r)
    obtain m1 th1 out1 where r: "r = (m1, th1, out1)" by (metis prod_cases3)
    from "1.prems"(4) Some r obtain out2 where out2: "run_work c m1 th1 = (m', th', out2)" "out = out1 @ out2"
      by (subst (asm) run_work.simps) (auto split: prod.splits)
    define s1 where "s1 = \<lparr>shared_mbuf = m1, threads = (threads s)[t := th1], freed = freed s @ out1\<rparr>"
    have "work_of c t s s1"
      using "1.prems" Some r unfolding s1_def by (intro work_of.intros) simp_all
    moreover have "(work_of c t)\<^sup>*\<^sup>* s1
        \<lparr>shared_mbuf = m', threads = (threads s1)[t := th'], freed = freed s1 @ out2\<rparr>"
      using "1.prems"(1) out2(1) by (intro "1.IH" [OF Some r [symmetric] refl]) (simp_all add: s1_def)
    ultimately show ?thesis
      using out2(2) by (simp add: s1_def converse_rtranclp_into_rtranclp)
  qed
qed

text \<open>What the three operations do when no other thread intervenes.\<close>

definition idle_with :: "nat \<Rightarrow> thread" where
  "idle_with k = \<lparr>refs = k, pc = Idle\<rparr>"

lemmas alone_simps = run_work.simps work.simps begin_update_def begin_prefree_def update_done_def
  prefree_done_def idle_with_def

lemma take_alone:
  "config_ok c \<Longrightarrow> run_work c m (begin_update c m 1 (idle_with k)) =
     (m\<lparr>refcnt := refcnt m + 1\<rparr>, idle_with (k + 1), [])"
  by (simp add: alone_simps refcnt_simps)

lemma detach_alone:
  "config_ok c \<Longrightarrow> run_work c m (begin_update c m (- 1) (idle_with k)) =
     (if refcnt m = 1
      then (m\<lparr>mb_next := 0, nb_segs := 1, refcnt := 1\<rparr>, idle_with (k - 1), [m\<lparr>mb_next := 0, nb_segs := 1, refcnt := 1\<rparr>])
      else (m\<lparr>refcnt := refcnt m - 1\<rparr>, idle_with (k - 1), []))"
  by (simp add: alone_simps refcnt_simps)

lemma free_alone:
  "config_ok c \<Longrightarrow> tail_ok m \<Longrightarrow> run_work c m (begin_prefree c m (idle_with k)) =
     (if refcnt m = 1 then (unlinked m, idle_with (k - 1), [unlinked m])
      else (m\<lparr>refcnt := refcnt m - 1\<rparr>, idle_with (k - 1), []))"
  by (auto simp: alone_simps refcnt_simps tail_ok_def record_same)

section \<open>The properties\<close>

text \<open>
  C2: Any number of threads take, give up and hand over references to one mbuf, with their reads and
  writes of the counter interleaved in any way: the mbuf goes back to the pool at most once, only when
  no reference is left, and then alone and with counter 1 as the pool requires; and when all
  references are given up and the operations are over, it has gone back.  Until then the counter of
  threads at rest is the number of references.
\<close>

theorem concurrent_refcnt_safe:
  assumes "config_ok c" "shared_start s0" "(ref_step c)\<^sup>*\<^sup>* s0 s"
  shows "length (freed s) \<le> 1 \<and>
    (\<forall>m\<in>set (freed s). total_refs s = 0 \<and> quiet s \<and> refcnt m = 1 \<and> mb_next m = 0 \<and> nb_segs m = 1) \<and>
    (quiet s \<longrightarrow> (if total_refs s = 0 then freed s \<noteq> []
                else freed s = [] \<and> unat (refcnt (shared_mbuf s)) = total_refs s))"
  using ref_inv_reachable [OF assms(3,1) shared_start_inv [OF assms(2)]] releasing_busy [of s]
  by (auto simp: ref_inv_def live_def released_def pool_ready_def releasing_def)

text \<open>
  C14: No operation on the shared counter waits for another thread.  The steps that carry on the
  operations in progress cannot go on for more than four per thread, in whatever order the threads are
  scheduled, and lead to a state where all are over; if no reference is left there, the mbuf has been
  returned to the pool.
\<close>

theorem concurrent_refcnt_progress:
  assumes "config_ok c" "shared_start s0" "(ref_step c)\<^sup>*\<^sup>* s0 s" "promised s \<le> 65535"
  shows "(\<forall>n s'. (any_work c ^^ n) s s' \<longrightarrow> n \<le> 4 * length (threads s)) \<and>
    (\<exists>s'. (any_work c)\<^sup>*\<^sup>* s s' \<and> quiet s' \<and> (total_refs s' = 0 \<longrightarrow> (\<exists>m. freed s' = [m])))"
proof -
  from finish_work [OF assms(4)] obtain s' where s': "(any_work c)\<^sup>*\<^sup>* s s'" "(ref_step c)\<^sup>*\<^sup>* s s'" "quiet s'"
    by blast
  have "(ref_step c)\<^sup>*\<^sup>* s0 s'" using assms(3) s'(2) by (rule rtranclp_trans)
  from ref_inv_reachable [OF this assms(1) shared_start_inv [OF assms(2)]]
  have "total_refs s' = 0 \<longrightarrow> (\<exists>m. freed s' = [m])"
    using s'(3) releasing_busy [of s'] by (auto simp: ref_inv_def live_def released_def)
  then have "\<exists>s'. (any_work c)\<^sup>*\<^sup>* s s' \<and> quiet s' \<and> (total_refs s' = 0 \<longrightarrow> (\<exists>m. freed s' = [m]))"
    using s'(1,3) by (intro exI [of _ s'] conjI)
  moreover have "\<forall>n s'. (any_work c ^^ n) s s' \<longrightarrow> n \<le> 4 * length (threads s)"
    using work_bounded [of _ c s] left_bound [of s] by (meson le_trans le_add1)
  ultimately show ?thesis by (intro conjI)
qed

text \<open>
  C23: The steps of one thread, run without interruption, are the operations of the sequential model:
  attaching changes the owner of the buffer as the update does, detaching and freeing a segment leave
  the mbuf as their steps do and put into the pool what these free.
\<close>

theorem refcnt_steps_are_operations:
  assumes c: "config_ok c" and d: "heap_of st p = Some m" "RTE_MBUF_DIRECT m" "tail_ok m" "p \<noteq> 0"
    and i: "heap_of st pi = Some mi" "pi \<noteq> p"
  shows "(case run_work c m (begin_update c m 1 (idle_with k)) of (m1, th1, out1) \<Rightarrow>
      RTE_MBUF_DIRECT mi \<and> refcnt mi = 1 \<longrightarrow>
      rte_pktmbuf_attach c pi p st = Some (st\<lparr>heap_of := (heap_of st)(p \<mapsto> m1, pi \<mapsto> attach_fields mi m)\<rparr>)) \<and>
    (case run_work c m (begin_update c m (- 1) (idle_with k)) of (m2, th2, out2) \<Rightarrow>
      rte_mbuf_from_indirect c mi = p \<longrightarrow>
      rte_pktmbuf_detach c ops pi st = Some \<lparr>heap_of = (heap_of st)(pi \<mapsto> detach_fields c pi mi, p \<mapsto> m2),
        pool_of = fold (\<lambda>d. mempool_put ops (mb_pool d) p) out2 (pool_of st)\<rparr>) \<and>
    (case run_work c m (begin_prefree c m (idle_with k)) of (m3, th3, out3) \<Rightarrow>
      rte_pktmbuf_free_seg c ops p st = Some \<lparr>heap_of = (heap_of st)(p \<mapsto> m3),
        pool_of = fold (\<lambda>d. mempool_put ops (mb_pool d) p) out3 (pool_of st)\<rparr>)"
proof (intro conjI)
  have "buffer_owner c p m = p" using d(2) by (simp add: buffer_owner_def)
  with attach_effect [OF c i(1) _ _ d(1)] i(2) d(1)
  show "case run_work c m (begin_update c m 1 (idle_with k)) of (m1, th1, out1) \<Rightarrow>
      RTE_MBUF_DIRECT mi \<and> refcnt mi = 1 \<longrightarrow>
      rte_pktmbuf_attach c pi p st = Some (st\<lparr>heap_of := (heap_of st)(p \<mapsto> m1, pi \<mapsto> attach_fields mi m)\<rparr>)"
    by (auto simp: take_alone [OF c])
  show "case run_work c m (begin_update c m (- 1) (idle_with k)) of (m2, th2, out2) \<Rightarrow>
      rte_mbuf_from_indirect c mi = p \<longrightarrow>
      rte_pktmbuf_detach c ops pi st = Some \<lparr>heap_of = (heap_of st)(pi \<mapsto> detach_fields c pi mi, p \<mapsto> m2),
        pool_of = fold (\<lambda>d. mempool_put ops (mb_pool d) p) out2 (pool_of st)\<rparr>"
    using detach_effect [OF c i(1) _ d(1)] detach_last_effect [OF c i(1) _ d(1)] i(2) d(2)
    by (auto simp: detach_alone [OF c])
  show "case run_work c m (begin_prefree c m (idle_with k)) of (m3, th3, out3) \<Rightarrow>
      rte_pktmbuf_free_seg c ops p st = Some \<lparr>heap_of = (heap_of st)(p \<mapsto> m3),
        pool_of = fold (\<lambda>d. mempool_put ops (mb_pool d) p) out3 (pool_of st)\<rparr>"
    using free_seg_shared [OF c d(1)] free_seg_direct [OF c d(1)] d(2-4)
    by (auto simp: free_alone [OF c])
qed

section \<open>A concrete run\<close>

text \<open>
  Two threads with one reference each read the counter 2 before either has counted down; the second
  to count down finds 0 and frees the mbuf.
\<close>

definition two_holders :: shared where
  "two_holders = \<lparr>shared_mbuf = (free_mbuf 0x1000)\<lparr>refcnt := 2\<rparr>, threads = [idle_with 1, idle_with 1], freed = []\<rparr>"

definition both_freeing :: shared where
  "both_freeing = \<lparr>shared_mbuf = (free_mbuf 0x1000)\<lparr>refcnt := 2\<rparr>,
     threads = [\<lparr>refs = 1, pc = Prefree_Add\<rparr>, \<lparr>refs = 1, pc = Update_Add (- 1)\<rparr>], freed = []\<rparr>"

lemma two_holders_start: "shared_start two_holders"
  by (simp add: shared_start_def two_holders_def quiet_def idle_with_def total_refs_def tail_ok_def)

lemma both_freeing_reached: "(ref_step demo_config)\<^sup>*\<^sup>* two_holders both_freeing"
proof -
  let ?m = "(free_mbuf 0x1000)\<lparr>refcnt := 2\<rparr>"
  define s1 where "s1 = \<lparr>shared_mbuf = ?m, threads = [\<lparr>refs = 1, pc = Prefree_Add\<rparr>, idle_with 1], freed = []\<rparr>"
  have "begin_step demo_config two_holders s1"
    using begin_prefree [of 0 two_holders demo_config]
    by (simp add: two_holders_def s1_def idle_with_def begin_prefree_def refcnt_simps [OF demo_config_ok])
  moreover have "begin_step demo_config s1 both_freeing"
    using begin_update [of 1 s1 "- 1" demo_config]
    by (simp add: both_freeing_def s1_def idle_with_def begin_update_def refcnt_simps [OF demo_config_ok])
  ultimately have "ref_step demo_config two_holders s1" "ref_step demo_config s1 both_freeing"
    by (simp_all add: ref_step_def s1_def both_freeing_def total_refs_def idle_with_def)
  then show ?thesis by (meson converse_rtranclp_into_rtranclp r_into_rtranclp)
qed

theorem concurrent_refcnt_progress_witness:
  "\<exists>s'. (any_work demo_config)\<^sup>*\<^sup>* both_freeing s' \<and> quiet s' \<and> (total_refs s' = 0 \<longrightarrow> (\<exists>m. freed s' = [m]))"
proof -
  have "promised both_freeing \<le> 65535" by (simp add: promised_def both_freeing_def)
  from concurrent_refcnt_progress [OF demo_config_ok two_holders_start both_freeing_reached this]
  show ?thesis by blast
qed

text \<open>The rest of the run: the second thread counts down and is done, the first releases the mbuf.\<close>

definition both_freed :: shared where
  "both_freed = \<lparr>shared_mbuf = free_mbuf 0x1000, threads = [idle_with 0, idle_with 0], freed = [free_mbuf 0x1000]\<rparr>"

lemma both_freed_reached: "(ref_step demo_config)\<^sup>*\<^sup>* both_freeing both_freed"
proof -
  let ?m = "(free_mbuf 0x1000)\<lparr>refcnt := 1\<rparr>"
  have m: "free_mbuf 0x1000 = ?m" by (simp add: record_same)
  define s where "s ph m out = \<lparr>shared_mbuf = m, threads = [\<lparr>refs = 0, pc = ph\<rparr>, idle_with 0], freed = out\<rparr>"
    for ph m out
  define s1 where "s1 = \<lparr>shared_mbuf = ?m, threads = [\<lparr>refs = 1, pc = Prefree_Add\<rparr>, idle_with 0], freed = []\<rparr>"
  note simps = s_def s1_def both_freeing_def both_freed_def idle_with_def alone_simps
    refcnt_simps [OF demo_config_ok]
  have "work_of demo_config 1 both_freeing s1"
    using work_of [of 1 both_freeing demo_config ?m "idle_with 0" "[]"] by (simp add: simps)
  moreover have "work_of demo_config 0 s1 (s (Prefree_Unlink True) (?m\<lparr>refcnt := 0\<rparr>) [])"
    using work_of [of 0 s1 demo_config "?m\<lparr>refcnt := 0\<rparr>" "\<lparr>refs = 0, pc = Prefree_Unlink True\<rparr>" "[]"] by (simp add: simps)
  moreover have "work_of demo_config 0 (s (Prefree_Unlink True) (?m\<lparr>refcnt := 0\<rparr>) []) (s Set_One (?m\<lparr>refcnt := 0\<rparr>) [])"
    using work_of [of 0 "s (Prefree_Unlink True) (?m\<lparr>refcnt := 0\<rparr>) []" demo_config "?m\<lparr>refcnt := 0\<rparr>" "\<lparr>refs = 0, pc = Set_One\<rparr>" "[]"]
    by (simp add: simps)
  moreover have "work_of demo_config 0 (s Set_One (?m\<lparr>refcnt := 0\<rparr>) []) (s Raw_Free ?m [])"
    using work_of [of 0 "s Set_One (?m\<lparr>refcnt := 0\<rparr>) []" demo_config ?m "\<lparr>refs = 0, pc = Raw_Free\<rparr>" "[]"]
    by (simp add: simps)
  moreover have "work_of demo_config 0 (s Raw_Free ?m []) both_freed"
    using work_of [of 0 "s Raw_Free ?m []" demo_config ?m "idle_with 0" "[?m]"] by (simp add: simps m [symmetric])
  ultimately have "ref_step demo_config both_freeing s1"
    "ref_step demo_config s1 (s (Prefree_Unlink True) (?m\<lparr>refcnt := 0\<rparr>) [])"
    "ref_step demo_config (s (Prefree_Unlink True) (?m\<lparr>refcnt := 0\<rparr>) []) (s Set_One (?m\<lparr>refcnt := 0\<rparr>) [])"
    "ref_step demo_config (s Set_One (?m\<lparr>refcnt := 0\<rparr>) []) (s Raw_Free ?m [])"
    "ref_step demo_config (s Raw_Free ?m []) both_freed"
    unfolding ref_step_def by (auto simp: simps total_refs_def)
  then show ?thesis
    by (meson converse_rtranclp_into_rtranclp r_into_rtranclp)
qed

theorem concurrent_refcnt_safe_witness:
  "length (freed both_freed) \<le> 1 \<and> total_refs both_freed = 0 \<and> freed both_freed \<noteq> []"
proof -
  have run: "(ref_step demo_config)\<^sup>*\<^sup>* two_holders both_freed"
    using both_freeing_reached both_freed_reached by (rule rtranclp_trans)
  have "quiet both_freed" "total_refs both_freed = 0"
    by (simp_all add: both_freed_def quiet_def idle_with_def total_refs_def)
  with concurrent_refcnt_safe [OF demo_config_ok two_holders_start run] show ?thesis by simp
qed

theorem refcnt_steps_are_operations_witness:
  "\<exists>h. rte_pktmbuf_free_seg demo_config list_pool 0x1000 share_state =
     Some \<lparr>heap_of = h, pool_of = [0x1000]\<rparr>"
proof -
  let ?m = "seg_at (heap_of share_state) 0x1000"
  have at: "heap_of share_state 0x1000 = Some ?m" "RTE_MBUF_DIRECT ?m" "tail_ok ?m" "(0x1000 :: ptr) \<noteq> 0"
    "heap_of share_state 0x2000 = Some (free_mbuf 0x2000)" "(0x2000 :: ptr) \<noteq> 0x1000" "refcnt ?m = 1"
    "pool_of share_state = []"
    by (simp_all add: share_simps)
  from refcnt_steps_are_operations [OF demo_config_ok at(1-6), where ops = list_pool and k = 1] show ?thesis
    by (simp add: free_alone [OF demo_config_ok at(3)] at(7,8) list_pool_def)
qed

end
