(* ===== verification/Mbuf_Pipeline.thy ===== *)
theory Mbuf_Pipeline
  imports Mbuf_Edit Mbuf_Share Ring_Properties "HOL-Library.Multiset"
begin

text \<open>
  Packets that travel: a client of \<open>src/src/ext/rte_mbuf.c\<close> and \<open>src/src/ext/rte_ring.c\<close> together.  Its threads
  allocate mbufs from a pool, edit and chain the packets they hold, hand them to each other through a
  ring and free them.  Whatever the order of these operations, every mbuf of the pool stays accounted for:
  it is free, in a packet some thread holds, or in a packet on its way through the ring, and in one place only.
\<close>

section \<open>The pool's promises\<close>

text \<open>
  \<open>free pl\<close> are the mbufs a pool has to give; it has room for \<open>room\<close>.  A bulk request gets all it asks for
  or nothing.
\<close>

locale mempool =
  fixes ops :: "'p mempool_ops" and mp :: ptr and ok :: "'p \<Rightarrow> bool"
    and free :: "'p \<Rightarrow> ptr multiset" and room :: nat
  assumes get_bulk: "ok pl \<Longrightarrow> mempool_get_bulk ops mp n pl = (rc, ps, pl') \<Longrightarrow>
      ok pl' \<and> (if rc = 0 then length ps = unat n \<and> free pl = mset ps + free pl' else free pl' = free pl)"
    and put: "ok pl \<Longrightarrow> size (free pl) < room \<Longrightarrow>
      ok (mempool_put ops mp p pl) \<and> free (mempool_put ops mp p pl) = add_mset p (free pl)"
begin

lemma put_all:
  "ok pl \<Longrightarrow> size (free pl) + length ps \<le> room \<Longrightarrow>
   ok (fold (mempool_put ops mp) ps pl) \<and> free (fold (mempool_put ops mp) ps pl) = mset ps + free pl"
proof (induction ps arbitrary: pl)
  case (Cons p ps)
  with put [of pl p] Cons.IH [of "mempool_put ops mp p pl"] show ?case by simp
qed simp

end

section \<open>The client\<close>

record 'p pipeline =
  mbufs :: "'p mbuf_state"
  channel :: rte_ring
  held :: "ptr list"

text \<open>
  \<open>held\<close> are the packets in the hands of all threads.  \<open>Pick\<close> says which of them is worked on next; \<open>Alloc\<close>
  takes empty packets from the pool, \<open>Edit\<close> and \<open>Chain\<close> work on the first or the first two, \<open>Send\<close> hands
  as many of the first \<open>n\<close> as fit to the ring, \<open>Recv\<close> takes up to \<open>n\<close> from it, \<open>Free\<close> frees the first.
\<close>

datatype action = Pick nat | Alloc u32 | Edit edit | Chain | Send u32 | Recv u32 | Free

fun pipe_step ::
    "mbuf_config \<Rightarrow> 'p mempool_ops \<Rightarrow> ptr \<Rightarrow> ring_sync \<Rightarrow> 'p pipeline \<Rightarrow> action \<Rightarrow> 'p pipeline option" where
  "pipe_step c ops mp S s (Pick i) =
     Some (if i < length (held s) then s\<lparr>held := held s ! i # take i (held s) @ drop (Suc i) (held s)\<rparr> else s)"
| "pipe_step c ops mp S s (Alloc n) = do {
     (rc, ps, st) \<leftarrow> rte_pktmbuf_alloc_bulk c ops mp n (mbufs s);
     Some (s\<lparr>mbufs := st, held := (if rc = 0 then ps else []) @ held s\<rparr>) }"
| "pipe_step c ops mp S s (Edit e) =
     (case held s of [] \<Rightarrow> Some s
      | p # ps \<Rightarrow> do { h \<leftarrow> do_edit (heap_of (mbufs s)) p e; Some (s\<lparr>mbufs := (mbufs s)\<lparr>heap_of := h\<rparr>\<rparr>) })"
| "pipe_step c ops mp S s Chain =
     (case held s of
        p # q # ps \<Rightarrow> do {
          (rc, h) \<leftarrow> rte_pktmbuf_chain (heap_of (mbufs s)) p q;
          Some (s\<lparr>mbufs := (mbufs s)\<lparr>heap_of := h\<rparr>, held := (if rc = 0 then p # ps else held s)\<rparr>) }
      | _ \<Rightarrow> Some s)"
| "pipe_step c ops mp S s (Send n) = do {
     (r, res) \<leftarrow> ring_step S (channel s) (Enqueue RTE_RING_QUEUE_VARIABLE (take (unat n) (held s)));
     case res of Accepted k \<Rightarrow> Some (s\<lparr>channel := r, held := drop k (held s)\<rparr>) | Delivered ps \<Rightarrow> None }"
| "pipe_step c ops mp S s (Recv n) = do {
     (r, res) \<leftarrow> ring_step S (channel s) (Dequeue RTE_RING_QUEUE_VARIABLE (unat n));
     case res of Delivered ps \<Rightarrow> Some (s\<lparr>channel := r, held := ps @ held s\<rparr>) | Accepted k \<Rightarrow> None }"
| "pipe_step c ops mp S s Free =
     (case held s of [] \<Rightarrow> Some s
      | p # ps \<Rightarrow> do { st \<leftarrow> rte_pktmbuf_free c ops p (mbufs s); Some (s\<lparr>mbufs := st, held := ps\<rparr>) })"

fun pipe_run ::
    "mbuf_config \<Rightarrow> 'p mempool_ops \<Rightarrow> ptr \<Rightarrow> ring_sync \<Rightarrow> 'p pipeline \<Rightarrow> action list \<Rightarrow> 'p pipeline option" where
  "pipe_run c ops mp S s [] = Some s"
| "pipe_run c ops mp S s (a # as) = do { s \<leftarrow> pipe_step c ops mp S s a; pipe_run c ops mp S s as }"

section \<open>Accounting\<close>

text \<open>An mbuf with one owner; when it is in the pool it is alone.\<close>

definition owned :: "ptr \<Rightarrow> rte_mbuf \<Rightarrow> bool" where
  "owned mp m \<longleftrightarrow> refcnt m = 1 \<and> RTE_MBUF_DIRECT m \<and> tail_ok m \<and> mb_pool m = mp"

definition alone :: "rte_mbuf \<Rightarrow> bool" where
  "alone m \<longleftrightarrow> mb_next m = 0 \<and> nb_segs m = 1"

definition own_all :: "ptr set \<Rightarrow> ptr \<Rightarrow> heap \<Rightarrow> bool" where
  "own_all A mp h \<longleftrightarrow> (\<forall>p\<in>A. p \<noteq> 0 \<and> (\<exists>m. h p = Some m \<and> owned mp m))"

definition all_alone :: "heap \<Rightarrow> ptr multiset \<Rightarrow> bool" where
  "all_alone h M \<longleftrightarrow> (\<forall>p\<in>#M. alone (seg_at h p))"

text \<open>
  \<open>hss\<close> and \<open>rss\<close> are the segments of the packets held and of those in the ring.  The sum is the set \<open>A\<close> of
  all mbufs, so no mbuf is in two places.
\<close>

definition accounted ::
    "('p \<Rightarrow> bool) \<Rightarrow> ('p \<Rightarrow> ptr multiset) \<Rightarrow> ptr \<Rightarrow> ptr set \<Rightarrow> ptr list list \<Rightarrow> ptr list list \<Rightarrow> 'p pipeline \<Rightarrow> bool" where
  "accounted ok free mp A hss rss s \<longleftrightarrow>
     (let h = heap_of (mbufs s); pl = pool_of (mbufs s) in
      quiet (channel s) \<and> ok pl \<and>
      list_all2 (packet h) (held s) hss \<and> list_all2 (packet h) (contents (channel s)) rss \<and>
      mset (concat hss) + mset (concat rss) + free pl = mset_set A \<and> own_all A mp h \<and> all_alone h (free pl))"

section \<open>Frames\<close>

lemma seg_list_same: "(\<And>q. q \<in> set ps \<Longrightarrow> h' q = h q) \<Longrightarrow> seg_list h p ps = seg_list h' p ps"
  by (rule seg_list_cong) simp

lemma packet_same: "packet h p ps \<Longrightarrow> (\<And>q. q \<in> set ps \<Longrightarrow> h' q = h q) \<Longrightarrow> packet h' p ps"
  using seg_list_same [of ps h' h p] packetD(5) [of h p ps] pkt_addrs_cong [of ps h h']
  by (auto simp: packet_def seg_at_def)

lemma packets_same:
  "list_all2 (packet h) ps pss \<Longrightarrow> (\<And>q. q \<in> set (concat pss) \<Longrightarrow> h' q = h q) \<Longrightarrow> list_all2 (packet h') ps pss"
  by (induction rule: list_all2_induct) (auto intro: packet_same)

lemma mset_set_parts:
  assumes "mset xs + mset ys + M = mset_set A" "finite A"
  shows "distinct (xs @ ys)" "set xs \<subseteq> A" "set ys \<subseteq> A" "set_mset M \<subseteq> A"
    "set (xs @ ys) \<inter> set_mset M = {}"
proof -
  have sum: "mset (xs @ ys) + M = mset_set A" using assms(1) by simp
  have one: "count (mset (xs @ ys)) x + count M x \<le> 1" for x
    using arg_cong [OF sum, of "\<lambda>N. count N x"] assms(2) by (simp add: count_mset_set')
  show "distinct (xs @ ys)" unfolding distinct_count_atmost_1
  proof
    fix x
    show "count (mset (xs @ ys)) x = (if x \<in> set (xs @ ys) then 1 else 0)"
    proof (cases "x \<in> set (xs @ ys)")
      case True
      then have "0 < count (mset (xs @ ys)) x" by (simp only: count_greater_zero_iff set_mset_mset)
      with one [of x] have "count (mset (xs @ ys)) x = 1" by linarith
      with True show ?thesis by (simp only: if_True)
    next
      case False
      then show ?thesis by (simp add: not_in_iff [symmetric])
    qed
  qed
  have all: "set_mset (mset (xs @ ys)) \<union> set_mset M = A"
    using arg_cong [OF sum, of set_mset] assms(2) by simp
  then show "set xs \<subseteq> A" "set ys \<subseteq> A" "set_mset M \<subseteq> A" by auto
  show "set (xs @ ys) \<inter> set_mset M = {}"
  proof (rule ccontr)
    assume "set (xs @ ys) \<inter> set_mset M \<noteq> {}"
    then obtain x where "x \<in># mset (xs @ ys)" "x \<in># M" by auto
    then have "0 < count (mset (xs @ ys)) x" "0 < count M x" by (simp_all only: count_greater_zero_iff)
    with one [of x] show False by linarith
  qed
qed

text \<open>A new heap in which the mbufs of \<open>B\<close> have changed, with their owner the same.\<close>

lemma own_all_update:
  "own_all A mp h \<Longrightarrow> (\<And>q. q \<notin> B \<Longrightarrow> h' q = h q) \<Longrightarrow>
   (\<And>q. q \<in> B \<Longrightarrow> q \<in> A \<Longrightarrow> \<exists>m. h' q = Some m \<and> owned mp m) \<Longrightarrow> own_all A mp h'"
  unfolding own_all_def by metis

lemma own_allD: "own_all A mp h \<Longrightarrow> p \<in> A \<Longrightarrow> h p = Some (seg_at h p) \<and> owned mp (seg_at h p) \<and> p \<noteq> 0"
  unfolding own_all_def seg_at_def by fastforce

lemma all_alone_same: "all_alone h M \<Longrightarrow> (\<And>q. q \<in># M \<Longrightarrow> h' q = h q) \<Longrightarrow> all_alone h' M"
  by (simp add: all_alone_def seg_at_def)

section \<open>The operations keep the owner\<close>

lemma edit_owned:
  assumes "do_edit h p e = Some h'"
  shows "map_option (\<lambda>m. (refcnt m, ol_flags m, mb_pool m, mb_next m, nb_segs m)) (h' q) =
    map_option (\<lambda>m. (refcnt m, ol_flags m, mb_pool m, mb_next m, nb_segs m)) (h q)"
  using assms
  by (cases e) (auto simp: rte_pktmbuf_prepend_def rte_pktmbuf_append_def rte_pktmbuf_adj_def
      rte_pktmbuf_trim_def Let_def split: if_splits bind_splits)

lemma owned_frame:
  "owned mp m \<Longrightarrow> refcnt m' = refcnt m \<Longrightarrow> ol_flags m' = ol_flags m \<Longrightarrow> mb_pool m' = mb_pool m \<Longrightarrow>
   tail_ok m' \<Longrightarrow> owned mp m'"
  by (simp add: owned_def RTE_MBUF_DIRECT_def RTE_MBUF_INDIRECT_def)

lemma edit_keeps_owner:
  assumes "own_all A mp h" "do_edit h p e = Some h'"
  shows "own_all A mp h'"
  unfolding own_all_def
proof
  fix q assume "q \<in> A"
  then obtain m where m: "q \<noteq> 0" "h q = Some m" "owned mp m" using assms(1) unfolding own_all_def by blast
  with edit_owned [OF assms(2), of q] obtain m' where "h' q = Some m'" "refcnt m' = refcnt m"
    "ol_flags m' = ol_flags m" "mb_pool m' = mb_pool m" "mb_next m' = mb_next m" "nb_segs m' = nb_segs m"
    by auto
  with m show "q \<noteq> 0 \<and> (\<exists>m. h' q = Some m \<and> owned mp m)"
    using owned_frame [OF m(3), of m'] by (simp add: owned_def tail_ok_def)
qed

lemma seg_list_next: "seg_list h p (q # r # rs) \<Longrightarrow> mb_next (seg_at h p) \<noteq> 0"
  by (auto simp: seg_at_def split: option.splits)

lemma chain_keeps_owner:
  assumes own: "own_all A mp h" and pk: "packet h p ps" "packet h q qs" "set ps \<inter> set qs = {}"
    and in_A: "set ps \<subseteq> A" "set qs \<subseteq> A" and run: "rte_pktmbuf_chain h p q = Some (0, h')"
  shows "own_all A mp h'"
proof (rule own_all_update [OF own, of "{p, last ps, q}"])
  have few: "\<not> 65535 < length ps + length qs"
  proof
    assume "65535 < length ps + length qs"
    then have "rte_pktmbuf_chain h p q = Some (- EOVERFLOW, h)" using chain_packet [OF pk] by (simp only: if_True)
    with run show False by (simp add: EOVERFLOW_def)
  qed
  then obtain h2 where h2: "rte_pktmbuf_chain h p q = Some (0, h2)" "\<forall>r. r \<notin> {p, last ps, q} \<longrightarrow> h2 r = h r"
    using chain_packet [OF pk] by (simp only: if_False) blast
  with run have "\<forall>r. r \<notin> {p, last ps, q} \<longrightarrow> h' r = h r" by simp
  then show "h' r = h r" if "r \<notin> {p, last ps, q}" for r using that by blast
  fix r assume r: "r \<in> {p, last ps, q}" "r \<in> A"
  note m = own_allD [OF own r(2)]
  have ne: "p \<noteq> q" "last ps \<noteq> q" "q \<noteq> 0"
    using pk(3) packetD(5,6) [OF pk(1)] packetD(5) [OF pk(2)] own_allD [OF own, of q] in_A by auto
  have nx: "p \<noteq> last ps \<longrightarrow> mb_next (seg_at h p) \<noteq> 0"
  proof (cases ps)
    case (Cons s rs)
    with packetD(1,4) [OF pk(1)] show ?thesis using seg_list_next by (cases rs) auto
  qed (use packetD(2) [OF pk(1)] in simp)
  define l where "l = last ps"
  define h1 where "h1 = h(l \<mapsto> (seg_at h l)\<lparr>mb_next := q\<rparr>)"
  define h2 where "h2 = h1(p \<mapsto> (seg_at h1 p)\<lparr>nb_segs := nb_segs (seg_at h p) + nb_segs (seg_at h q),
                              pkt_len := pkt_len (seg_at h p) + pkt_len (seg_at h q)\<rparr>)"
  have h': "h' = h2(q \<mapsto> (seg_at h q)\<lparr>pkt_len := ucast (data_len (seg_at h q))\<rparr>)"
    using chain_result [OF pk] few run by (simp add: h1_def h2_def l_def)
  have "owned mp (seg_at h' r)"
    using m r(1) ne nx unfolding h' h2_def h1_def l_def
    by (auto simp: owned_def tail_ok_def RTE_MBUF_DIRECT_def RTE_MBUF_INDIRECT_def)
  moreover have "h' r = Some (seg_at h' r)" using m r(1) by (auto simp: h' h2_def h1_def l_def seg_at_def)
  ultimately show "\<exists>m. h' r = Some m \<and> owned mp m" by blast
qed

lemma reset_owned: "owned mp m \<Longrightarrow> owned mp (rte_pktmbuf_reset c m)"
  by (simp add: owned_def tail_ok_def RTE_MBUF_DIRECT_def RTE_MBUF_INDIRECT_def)

lemma unlinked_owned: "owned mp m \<Longrightarrow> owned mp (unlinked m) \<and> alone (unlinked m)"
  by (simp add: owned_def alone_def tail_ok_def RTE_MBUF_DIRECT_def RTE_MBUF_INDIRECT_def)

section \<open>Every step keeps the account\<close>

lemma accountedD:
  assumes "accounted ok free mp A hss rss s"
  shows "quiet (channel s)" "ok (pool_of (mbufs s))" "list_all2 (packet (heap_of (mbufs s))) (held s) hss"
    "list_all2 (packet (heap_of (mbufs s))) (contents (channel s)) rss"
    "mset (concat hss) + mset (concat rss) + free (pool_of (mbufs s)) = mset_set A"
    "own_all A mp (heap_of (mbufs s))" "all_alone (heap_of (mbufs s)) (free (pool_of (mbufs s)))"
  using assms by (simp_all add: accounted_def Let_def)

text \<open>Where the first packet held is.\<close>

lemma accounted_first:
  assumes "accounted ok free mp A hss rss s" "finite A" "held s = p # ps"
  obtains qs hss' where "hss = qs # hss'" "packet (heap_of (mbufs s)) p qs"
    "list_all2 (packet (heap_of (mbufs s))) ps hss'" "set qs \<subseteq> A" "distinct qs"
    "set qs \<inter> set (concat hss') = {}" "set qs \<inter> set (concat rss) = {}"
    "set qs \<inter> set_mset (free (pool_of (mbufs s))) = {}"
proof -
  note D = accountedD [OF assms(1)]
  from D(3) assms(3) obtain qs hss' where hss: "hss = qs # hss'" "packet (heap_of (mbufs s)) p qs"
    "list_all2 (packet (heap_of (mbufs s))) ps hss'" by (auto simp: list_all2_Cons1)
  show ?thesis using mset_set_parts [OF D(5) assms(2)] by (intro that [OF hss]) (auto simp: hss(1))
qed

locale mbuf_pipeline = mempool ops mp ok free room + ring_sync_laws S
  for ops :: "'p mempool_ops" and mp ok free room and S :: ring_sync +
  fixes c :: mbuf_config
  assumes config: "config_ok c"
begin

lemma pick_step:
  assumes "accounted ok free mp A hss rss s"
  shows "\<exists>s' hss'. pipe_step c ops mp S s (Pick i) = Some s' \<and> accounted ok free mp A hss' rss s'"
proof (cases "i < length (held s)")
  case True
  note D = accountedD [OF assms]
  let ?hss = "hss ! i # take i hss @ drop (Suc i) hss"
  have i: "i < length hss" using D(3) True by (simp add: list_all2_lengthD)
  have "mset (concat ?hss) = mset (concat hss)"
    using arg_cong [OF id_take_nth_drop [OF i], of "\<lambda>xss. mset (concat xss)"] by (simp add: ac_simps)
  moreover have "list_all2 (packet (heap_of (mbufs s))) (held s ! i # take i (held s) @ drop (Suc i) (held s)) ?hss"
    using D(3) True by (simp add: list_all2_appendI list_all2_takeI list_all2_dropI list_all2_nthD)
  ultimately show ?thesis using True D by (intro exI) (auto simp: accounted_def Let_def)
qed (use assms in auto)

lemma alloc_step:
  assumes acc: "accounted ok free mp A hss rss s" and fin: "finite A"
  shows "\<exists>s' hss'. pipe_step c ops mp S s (Alloc n) = Some s' \<and> accounted ok free mp A hss' rss s'"
proof -
  note D = accountedD [OF acc] and P = mset_set_parts [OF accountedD(5) [OF acc] fin]
  define h where "h = heap_of (mbufs s)"
  obtain rc ps pl where get: "mempool_get_bulk ops mp n (pool_of (mbufs s)) = (rc, ps, pl)"
    by (metis prod_cases3)
  note pool = get_bulk [OF D(2) get]
  show ?thesis
  proof (cases "rc = 0")
    case False
    then have "rte_pktmbuf_alloc_bulk c ops mp n (mbufs s) = Some (rc, ps, (mbufs s)\<lparr>pool_of := pl\<rparr>)"
      using get by (simp add: rte_pktmbuf_alloc_bulk_def)
    with False pool D show ?thesis by (intro exI [of _ hss] exI) (auto simp: accounted_def Let_def)
  next
    case True
    with pool have ps: "length ps = unat n" "free (pool_of (mbufs s)) = mset ps + free pl" "ok pl" by simp_all
    then have inA: "set ps \<subseteq> A" "set ps \<subseteq> set_mset (free (pool_of (mbufs s)))" using P(4) by auto
    have fresh: "fresh_mbuf c h p" if "p \<in> set ps" for p
    proof -
      have "p \<in> A" "alone (seg_at h p)" using that inA D(7) by (auto simp: all_alone_def h_def)
      with own_allD [OF D(6), of p] show ?thesis
        by (auto simp: fresh_mbuf_def owned_def alone_def h_def split: option.splits)
    qed
    define st where "st = (mbufs s)\<lparr>pool_of := pl, heap_of := reset_all c ps h\<rparr>"
    have alloc: "rte_pktmbuf_alloc_bulk c ops mp n (mbufs s) = Some (0, ps, st)"
      using bulk_reset [OF config, of ps "(mbufs s)\<lparr>pool_of := pl\<rparr>" n] fresh ps(1) True get
      by (simp add: rte_pktmbuf_alloc_bulk_def reset_upto_def st_def h_def)
    have other: "heap_of st q = h q" if "q \<notin> set ps" for q using that by (simp add: st_def reset_all_def)
    have new: "heap_of st q = Some (rte_pktmbuf_reset c (seg_at h q)) \<and> owned mp (seg_at h q) \<and> q \<noteq> 0"
      if "q \<in> set ps" for q
      using own_allD [OF D(6), of q] that inA by (auto simp: st_def reset_all_def h_def)
    let ?hss = "map (\<lambda>p. [p]) ps @ hss"
    have away: "q \<notin> set ps" if "q \<in> set (concat hss @ concat rss) \<union> set_mset (free pl)" for q
    proof -
      have "distinct ((concat hss @ concat rss) @ ps)" "set ps \<inter> set_mset (free pl) = {}"
        using mset_set_parts [of "concat hss @ concat rss" ps "free pl" A] D(5) ps(2) fin by (auto simp: ac_simps)
      with that show ?thesis by auto
    qed
    have "list_all2 (packet (heap_of st)) ps (map (\<lambda>p. [p]) ps)"
      using new reset_packet(1) by (auto simp: list_all2_conv_all_nth)
    moreover have "list_all2 (packet (heap_of st)) (held s) hss"
      "list_all2 (packet (heap_of st)) (contents (channel s)) rss"
      using packets_same [OF D(3), of "heap_of st"] packets_same [OF D(4), of "heap_of st"] away other
      by (auto simp: h_def)
    moreover have "mset (concat ?hss) + mset (concat rss) + free pl = mset_set A"
      using D(5) ps(2) by (simp add: ac_simps concat_map_singleton)
    moreover have "own_all A mp (heap_of st)"
      using own_all_update [OF D(6), of "set ps" "heap_of st"] other new reset_owned by (auto simp: h_def)
    moreover have "all_alone (heap_of st) (free pl)"
      using D(7) ps(2) away other by (auto simp: all_alone_def h_def seg_at_def)
    ultimately show ?thesis using alloc ps(3) D(1)
      by (intro exI [of _ ?hss] exI) (auto simp: accounted_def Let_def st_def list_all2_append)
  qed
qed

lemma edit_step:
  assumes acc: "accounted ok free mp A hss rss s" and fin: "finite A"
  shows "\<exists>s'. pipe_step c ops mp S s (Edit e) = Some s' \<and> accounted ok free mp A hss rss s'"
proof (cases "held s")
  case (Cons p ps)
  note D = accountedD [OF acc]
  from accounted_first [OF acc fin Cons] obtain qs hss' where qs: "hss = qs # hss'"
    "packet (heap_of (mbufs s)) p qs" "list_all2 (packet (heap_of (mbufs s))) ps hss'"
    "set qs \<inter> set (concat hss') = {}" "set qs \<inter> set (concat rss) = {}"
    "set qs \<inter> set_mset (free (pool_of (mbufs s))) = {}" by metis
  obtain h where h: "do_edit (heap_of (mbufs s)) p e = Some h" "packet h p qs"
    "\<forall>q. q \<notin> set qs \<longrightarrow> h q = heap_of (mbufs s) q" using edit_packet [OF qs(2)] by blast
  then have same: "h q = heap_of (mbufs s) q"
    if "q \<in> set (concat hss') \<union> set (concat rss) \<union> set_mset (free (pool_of (mbufs s)))" for q
    using that qs(4-6) by blast
  have "list_all2 (packet h) ps hss'" "list_all2 (packet h) (contents (channel s)) rss"
    "all_alone h (free (pool_of (mbufs s)))" "own_all A mp h"
    using packets_same [OF qs(3), of h] packets_same [OF D(4), of h] all_alone_same [OF D(7), of h] same
      edit_keeps_owner [OF D(6) h(1)] by blast+
  then show ?thesis using D h qs(1) Cons by (auto simp: accounted_def Let_def)
qed (use acc in auto)


lemma chain_step:
  assumes acc: "accounted ok free mp A hss rss s" and fin: "finite A"
  shows "\<exists>s' hss'. pipe_step c ops mp S s Chain = Some s' \<and> accounted ok free mp A hss' rss s'"
proof (cases "\<exists>p q rest. held s = p # q # rest")
  case True
  then obtain p q rest where held: "held s = p # q # rest" by blast
  note D = accountedD [OF acc] and P = mset_set_parts [OF accountedD(5) [OF acc] fin]
  let ?h = "heap_of (mbufs s)" and ?M = "free (pool_of (mbufs s))"
  from D(3) held obtain ps qs rests where hss: "hss = ps # qs # rests" "packet ?h p ps" "packet ?h q qs"
    "list_all2 (packet ?h) rest rests" by (auto simp: list_all2_Cons1)
  have apart: "set ps \<inter> set qs = {}" "set ps \<subseteq> A" "set qs \<subseteq> A"
    and away: "(set ps \<union> set qs) \<inter> (set (concat rests) \<union> set (concat rss) \<union> set_mset ?M) = {}"
    using P by (auto simp: hss(1))
  note chain = chain_packet [OF hss(2,3) apart(1)]
  show ?thesis
  proof (cases "65535 < length ps + length qs")
    case True
    then have "rte_pktmbuf_chain ?h p q = Some (- EOVERFLOW, ?h)" using chain by (simp only: if_True)
    then show ?thesis using acc held by (intro exI [of _ hss] exI) (auto simp: EOVERFLOW_def accounted_def)
  next
    case False
    then obtain h where h: "rte_pktmbuf_chain ?h p q = Some (0, h)" "packet h p (ps @ qs)"
      "\<forall>r. r \<notin> {p, last ps, q} \<longrightarrow> h r = ?h r" using chain by (simp only: if_False) blast
    have "{p, last ps, q} \<subseteq> set ps \<union> set qs"
      using packetD(5,6) [OF hss(2)] packetD(5) [OF hss(3)] by auto
    with h(3) away have same: "h r = ?h r"
      if "r \<in> set (concat rests) \<union> set (concat rss) \<union> set_mset ?M" for r using that by blast
    have "list_all2 (packet h) rest rests" "list_all2 (packet h) (contents (channel s)) rss"
      "all_alone h ?M" "own_all A mp h"
      using packets_same [OF hss(4), of h] packets_same [OF D(4), of h] all_alone_same [OF D(7), of h] same
        chain_keeps_owner [OF D(6) hss(2,3) apart h(1)] by blast+
    then show ?thesis using D h(1,2) held hss(1)
      by (intro exI [of _ "(ps @ qs) # rests"] exI) (auto simp: accounted_def Let_def)
  qed
next
  case False
  then have "pipe_step c ops mp S s Chain = Some s" by (cases "held s" rule: list.exhaust; cases "tl (held s)") auto
  with acc show ?thesis by blast
qed

lemma send_step:
  assumes acc: "accounted ok free mp A hss rss s"
  shows "\<exists>s' hss' rss'. pipe_step c ops mp S s (Send n) = Some s' \<and> accounted ok free mp A hss' rss' s'"
proof -
  note D = accountedD [OF acc]
  let ?xs = "take (unat n) (held s)" and ?r = "channel s"
  have small: "unat n < 2 ^ LENGTH(32)" by (rule unsigned_less)
  define k where "k = min (length ?xs) (unat (ring_capacity ?r) - length (contents ?r))"
  have "op_fits (Enqueue RTE_RING_QUEUE_VARIABLE ?xs)"
    using small by (simp add: min_less_iff_disj)
  moreover have "queue_step (unat (ring_capacity ?r)) (contents ?r) (Enqueue RTE_RING_QUEUE_VARIABLE ?xs) =
      (contents ?r @ take k ?xs, Accepted k)" by (simp add: k_def Let_def)
  ultimately obtain r where r: "ring_step S ?r (Enqueue RTE_RING_QUEUE_VARIABLE ?xs) = Some (r, Accepted k)"
    "quiet r" "contents r = contents ?r @ take k ?xs" using fifo.step [OF D(1)] by blast
  have "take k ?xs = take k (held s)" by (simp add: k_def min_def)
  with r(3) have sent: "contents r = contents ?r @ take k (held s)" by (simp only:)
  have "mset (concat (take k hss)) + mset (concat (drop k hss)) = mset (concat hss)"
    by (metis append_take_drop_id concat_append mset_append)
  then have "mset (concat (drop k hss)) + mset (concat (rss @ take k hss)) = mset (concat hss) + mset (concat rss)"
    by (simp add: ac_simps)
  then have "mset (concat (drop k hss)) + mset (concat (rss @ take k hss)) + free (pool_of (mbufs s)) = mset_set A"
    by (simp only: D(5))
  moreover have "list_all2 (packet (heap_of (mbufs s))) (drop k (held s)) (drop k hss)"
    "list_all2 (packet (heap_of (mbufs s))) (contents r) (rss @ take k hss)"
    using D(3,4) by (simp_all add: sent list_all2_appendI list_all2_takeI list_all2_dropI)
  ultimately have "accounted ok free mp A (drop k hss) (rss @ take k hss)
      (s\<lparr>channel := r, held := drop k (held s)\<rparr>)"
    using D r(2) by (simp add: accounted_def)
  then show ?thesis unfolding pipe_step.simps r(1) by auto
qed

lemma recv_step:
  assumes acc: "accounted ok free mp A hss rss s"
  shows "\<exists>s' hss' rss'. pipe_step c ops mp S s (Recv n) = Some s' \<and> accounted ok free mp A hss' rss' s'"
proof -
  note D = accountedD [OF acc]
  let ?r = "channel s"
  have small: "unat n < 2 ^ LENGTH(32)" by (rule unsigned_less)
  define k where "k = min (unat n) (length (contents ?r))"
  have "op_fits (Dequeue RTE_RING_QUEUE_VARIABLE (unat n) :: ptr queue_op)" using small by simp
  moreover have "queue_step (unat (ring_capacity ?r)) (contents ?r) (Dequeue RTE_RING_QUEUE_VARIABLE (unat n)) =
      (drop k (contents ?r), Delivered (take k (contents ?r)))" by (simp add: k_def Let_def)
  ultimately obtain r where r:
    "ring_step S ?r (Dequeue RTE_RING_QUEUE_VARIABLE (unat n)) = Some (r, Delivered (take k (contents ?r)))"
    "quiet r" "contents r = drop k (contents ?r)" using fifo.step [OF D(1)] by blast
  have "mset (concat (take k rss)) + mset (concat (drop k rss)) = mset (concat rss)"
    by (metis append_take_drop_id concat_append mset_append)
  then have "mset (concat (take k rss @ hss)) + mset (concat (drop k rss)) = mset (concat hss) + mset (concat rss)"
    by (simp add: ac_simps)
  then have "mset (concat (take k rss @ hss)) + mset (concat (drop k rss)) + free (pool_of (mbufs s)) = mset_set A"
    by (simp only: D(5))
  moreover have "list_all2 (packet (heap_of (mbufs s))) (contents r) (drop k rss)"
    "list_all2 (packet (heap_of (mbufs s))) (take k (contents ?r) @ held s) (take k rss @ hss)"
    using D(3,4) by (simp_all add: r(3) list_all2_appendI list_all2_takeI list_all2_dropI)
  ultimately have "accounted ok free mp A (take k rss @ hss) (drop k rss)
      (s\<lparr>channel := r, held := take k (contents ?r) @ held s\<rparr>)"
    using D r(2) by (simp add: accounted_def)
  then show ?thesis unfolding pipe_step.simps r(1) by auto
qed

lemma free_step:
  assumes acc: "accounted ok free mp A hss rss s" and fin: "finite A" and fits: "card A \<le> room"
  shows "\<exists>s' hss'. pipe_step c ops mp S s Free = Some s' \<and> accounted ok free mp A hss' rss s'"
proof (cases "held s")
  case (Cons p ps)
  note D = accountedD [OF acc]
  let ?h = "heap_of (mbufs s)" and ?M = "free (pool_of (mbufs s))"
  from accounted_first [OF acc fin Cons] obtain qs hss' where qs: "hss = qs # hss'" "packet ?h p qs"
    "list_all2 (packet ?h) ps hss'" "set qs \<subseteq> A" "distinct qs"
    "set qs \<inter> set (concat hss') = {}" "set qs \<inter> set (concat rss) = {}" "set qs \<inter> set_mset ?M = {}" by metis
  have own: "refcnt (seg_at ?h q) = 1" "mb_pool (seg_at ?h q) = mp" "owned mp (seg_at ?h q)"
      "RTE_MBUF_DIRECT (seg_at ?h q)" "tail_ok (seg_at ?h q)"
    if "q \<in> set qs" for q using own_allD [OF D(6), of q] that qs(4) by (auto simp: owned_def)
  define h where "h = after_free ?h qs"
  define pl where "pl = fold (mempool_put ops mp) qs (pool_of (mbufs s))"
  have "put_released ops ?h qs (pool_of (mbufs s)) = pl"
    unfolding put_released_def pl_def using own by (intro fold_cong) (auto simp: filter_id_conv)
  then have run: "rte_pktmbuf_free c ops p (mbufs s) = Some \<lparr>heap_of = h, pool_of = pl\<rparr>"
    using free_chain [OF config packetD(1,3) [OF qs(2)], of ops] own by (simp add: h_def)
  have total: "mset qs + (mset (concat hss') + mset (concat rss) + ?M) = mset_set A"
    using D(5) qs(1) by (simp add: ac_simps)
  from arg_cong [OF total, of size] have "size ?M + length qs \<le> room" using fits by simp
  from put_all [OF D(2) this] have pool: "ok pl" "free pl = mset qs + ?M" by (simp_all add: pl_def)
  have new: "h q = Some (unlinked (seg_at ?h q))" if "q \<in> set qs" for q
    using that own by (simp add: h_def after_free_def)
  have same: "h q = ?h q" if "q \<notin> set qs" for q using that by (simp add: h_def after_free_def)
  have "list_all2 (packet h) ps hss'" "list_all2 (packet h) (contents (channel s)) rss"
    using packets_same [OF qs(3), of h] packets_same [OF D(4), of h] same qs(6,7) by blast+
  moreover have "own_all A mp h"
    using own_all_update [OF D(6), of "set qs" h] same new own(3) unlinked_owned by blast
  moreover have "all_alone h (free pl)"
    unfolding all_alone_def
  proof
    fix q assume q: "q \<in># free pl"
    show "alone (seg_at h q)"
    proof (cases "q \<in> set qs")
      case True
      then show ?thesis using new [OF True] unlinked_owned [OF own(3) [OF True]] by (simp add: seg_at_def)
    next
      case False
      with q D(7) same [OF False] show ?thesis by (simp add: pool(2) all_alone_def seg_at_def)
    qed
  qed
  ultimately have "accounted ok free mp A hss' rss (s\<lparr>mbufs := \<lparr>heap_of = h, pool_of = pl\<rparr>, held := ps\<rparr>)"
    using D(1) pool total by (simp add: accounted_def ac_simps)
  then show ?thesis using run Cons by auto
qed (use acc in auto)

lemma any_step:
  assumes "accounted ok free mp A hss rss s" "finite A" "card A \<le> room"
  shows "\<exists>s' hss' rss'. pipe_step c ops mp S s a = Some s' \<and> accounted ok free mp A hss' rss' s'"
proof (cases a)
  case (Pick i) then show ?thesis using pick_step [OF assms(1)] by metis
next
  case (Alloc n) then show ?thesis using alloc_step [OF assms(1,2)] by metis
next
  case (Edit e) then show ?thesis using edit_step [OF assms(1,2)] by metis
next
  case Chain then show ?thesis using chain_step [OF assms(1,2)] by metis
next
  case (Send n) then show ?thesis using send_step [OF assms(1)] by metis
next
  case (Recv n) then show ?thesis using recv_step [OF assms(1)] by metis
next
  case Free then show ?thesis using free_step [OF assms] by metis
qed

lemma any_run:
  assumes "accounted ok free mp A hss rss s" "finite A" "card A \<le> room"
  shows "\<exists>s' hss' rss'. pipe_run c ops mp S s as = Some s' \<and> accounted ok free mp A hss' rss' s'"
  using assms(1)
proof (induction "as" arbitrary: s hss rss)
  case (Cons a as)
  from any_step [OF Cons.prems assms(2,3)] obtain s1 hss1 rss1 where
    "pipe_step c ops mp S s a = Some s1" "accounted ok free mp A hss1 rss1 s1" by metis
  with Cons.IH [of hss1 rss1 s1] show ?case by (simp del: pipe_step.simps)
qed auto

text \<open>The pipeline can always be emptied: receive what is in the ring, then free packet by packet.\<close>

lemma free_all_held:
  assumes "accounted ok free mp A hss rss s" "finite A" "card A \<le> room" "contents (channel s) = []"
  shows "\<exists>s'. pipe_run c ops mp S s (replicate (length (held s)) Free) = Some s' \<and>
    accounted ok free mp A [] [] s' \<and> held s' = []"
  using assms(1,4)
proof (induction "length (held s)" arbitrary: s hss)
  case 0
  with accountedD(3,4) [OF 0(2)] show ?case by auto
next
  case (Suc n)
  from free_step [OF Suc.prems(1) assms(2,3)] obtain s1 hss1 where
    s1: "pipe_step c ops mp S s Free = Some s1" "accounted ok free mp A hss1 rss s1" by metis
  then have "n = length (held s1)" "contents (channel s1) = []"
    using Suc.hyps(2) Suc.prems(2) by (auto split: list.splits bind_splits)
  from Suc.hyps(1) [OF this(1) s1(2) this(2)] this(1) s1(1) show ?case
    by (simp add: Suc.hyps(2) [symmetric] del: pipe_step.simps)
qed

lemma recv_all:
  assumes acc: "accounted ok free mp A hss rss s"
  shows "\<exists>s' hss' rss'. pipe_step c ops mp S s (Recv (of_nat (length (contents (channel s))))) = Some s' \<and>
    accounted ok free mp A hss' rss' s' \<and> contents (channel s') = [] \<and>
    length (held s') = length (contents (channel s)) + length (held s)"
proof -
  let ?q = "contents (channel s)"
  note q = accountedD(1) [OF acc]
  have "unat (ring_capacity (channel s)) < 2 ^ LENGTH(32)" by (rule unsigned_less)
  with fifo.bounded [OF q] have n: "length ?q < 2 ^ 32" by simp
  have all: "queue_step (unat (ring_capacity (channel s))) ?q (Dequeue RTE_RING_QUEUE_VARIABLE (length ?q)) =
    ([], Delivered ?q)" by simp
  from fifo.step [OF q _ all] n obtain r where
    r: "ring_step S (channel s) (Dequeue RTE_RING_QUEUE_VARIABLE (length ?q)) = Some (r, Delivered ?q)"
    "contents r = []" by (auto simp del: ring_step.simps)
  then have "pipe_step c ops mp S s (Recv (of_nat (length ?q))) = Some (s\<lparr>channel := r, held := ?q @ held s\<rparr>)"
    using n by (simp add: unat_of_count del: ring_step.simps length_contents)
  with recv_step [OF acc, of "of_nat (length ?q)"] r(2) show ?thesis by (simp del: pipe_step.simps)
qed

lemma drains:
  assumes acc: "accounted ok free mp A hss rss s" "finite A" "card A \<le> room"
  defines "n \<equiv> length (contents (channel s))"
  shows "\<exists>s'. pipe_run c ops mp S s (Recv (of_nat n) # replicate (n + length (held s)) Free) = Some s' \<and>
    free (pool_of (mbufs s')) = mset_set A \<and> all_alone (heap_of (mbufs s')) (mset_set A)"
proof -
  from recv_all [OF acc(1)] obtain s1 hss1 rss1 where
    s1: "pipe_step c ops mp S s (Recv (of_nat n)) = Some s1" "accounted ok free mp A hss1 rss1 s1"
    "contents (channel s1) = []" "length (held s1) = n + length (held s)" unfolding n_def by metis
  from free_all_held [OF s1(2) acc(2,3) s1(3)] obtain s2 where
    "pipe_run c ops mp S s1 (replicate (length (held s1)) Free) = Some s2" "accounted ok free mp A [] [] s2"
    by blast
  with s1 accountedD(5,7) [of ok free mp A "[]" "[]" s2] show ?thesis by (simp del: pipe_step.simps)
qed

end

section \<open>Pools\<close>

text \<open>The list of free mbufs keeps the promises, and so does a pool that keeps its mbufs in a ring of this library.\<close>

interpretation list_mempool: mempool list_pool mp "\<lambda>_. True" mset room for mp room
proof
  show "True \<and> (if rc = 0 then length ps = unat n \<and> mset pl = mset ps + mset pl' else mset pl' = mset pl)"
    if "mempool_get_bulk list_pool mp n pl = (rc, ps, pl')" for pl n rc ps pl'
    using that by (auto simp: list_pool_def ENOENT_def simp flip: mset_append split: if_splits)
qed (simp add: list_pool_def)

definition ring_pool :: "rte_ring mempool_ops" where
  "ring_pool = \<lparr>
     mempool_get = \<lambda>mp r. (case ring_step seq_sync r (Dequeue RTE_RING_QUEUE_FIXED 1) of
        Some (r, Delivered [p]) \<Rightarrow> (0, p, r) | _ \<Rightarrow> (- ENOENT, 0, r)),
     mempool_get_bulk = \<lambda>mp n r. (case ring_step seq_sync r (Dequeue RTE_RING_QUEUE_FIXED (unat n)) of
        Some (r, Delivered ps) \<Rightarrow> (if length ps = unat n then 0 else - ENOENT, ps, r) | _ \<Rightarrow> (- ENOENT, [], r)),
     mempool_put = \<lambda>mp p r. (case ring_step seq_sync r (Enqueue RTE_RING_QUEUE_FIXED [p]) of
        Some (r, _) \<Rightarrow> r | None \<Rightarrow> r)\<rparr>"

definition ring_pool_ok :: "nat \<Rightarrow> rte_ring \<Rightarrow> bool" where
  "ring_pool_ok room r \<longleftrightarrow> quiet r \<and> unat (ring_capacity r) = room"

definition ring_pool_free :: "rte_ring \<Rightarrow> ptr multiset" where
  "ring_pool_free r = mset (contents r)"

interpretation ring_mempool: mempool ring_pool mp "ring_pool_ok room" ring_pool_free room for mp room
proof
  fix r n rc ps r'
  assume ok: "ring_pool_ok room r" and get: "mempool_get_bulk ring_pool mp n r = (rc, ps, r')"
  have "unat n < 2 ^ LENGTH(32)" by (rule unsigned_less)
  then have fits: "op_fits (Dequeue RTE_RING_QUEUE_FIXED (unat n) :: ptr queue_op)" by simp
  define k where "k = transfer RTE_RING_QUEUE_FIXED (unat n) (length (contents r))"
  define ds where "ds = take k (contents r)"
  have "queue_step (unat (ring_capacity r)) (contents r) (Dequeue RTE_RING_QUEUE_FIXED (unat n)) =
      (drop k (contents r), Delivered ds)" by (simp add: k_def ds_def Let_def)
  from seq.fifo.step [OF _ fits this] ok obtain r1 where r1:
    "ring_step seq_sync r (Dequeue RTE_RING_QUEUE_FIXED (unat n)) = Some (r1, Delivered ds)"
    "quiet r1" "contents r1 = drop k (contents r)" "unat (ring_capacity r1) = unat (ring_capacity r)"
    by (auto simp: ring_pool_ok_def simp del: ring_step.simps)
  have "(if length ds = unat n then 0 else - ENOENT) = rc \<and> ds = ps \<and> r1 = r'"
    using get unfolding ring_pool_def by (auto simp: r1(1) simp del: ring_step.simps split del: if_split)
  then have res: "rc = (if length ds = unat n then 0 else - ENOENT)" "ps = ds" "r' = r1" by metis+
  have "ring_pool_free r = mset ds + ring_pool_free r1"
    unfolding ring_pool_free_def r1(3) ds_def by (simp flip: mset_append)
  moreover have "length ds = unat n \<or> ds = []"
    by (simp add: ds_def k_def)
  ultimately show "ring_pool_ok room r' \<and> (if rc = 0 then length ps = unat n \<and>
      ring_pool_free r = mset ps + ring_pool_free r' else ring_pool_free r' = ring_pool_free r)"
    using ok r1(2,4) unfolding res by (auto simp: ring_pool_ok_def ENOENT_def)
next
  fix r p
  assume ok: "ring_pool_ok room r" and space: "size (ring_pool_free r) < room"
  have "queue_step (unat (ring_capacity r)) (contents r) (Enqueue RTE_RING_QUEUE_FIXED [p]) =
      (contents r @ [p], Accepted 1)" using ok space by (simp add: ring_pool_ok_def ring_pool_free_def)
  from seq.fifo.step [OF _ _ this] ok obtain r1 where r1:
    "ring_step seq_sync r (Enqueue RTE_RING_QUEUE_FIXED [p]) = Some (r1, Accepted 1)"
    "quiet r1" "contents r1 = contents r @ [p]" "unat (ring_capacity r1) = unat (ring_capacity r)"
    by (auto simp: ring_pool_ok_def simp del: ring_step.simps transfer.simps)
  then show "ring_pool_ok room (mempool_put ring_pool mp p r) \<and>
      ring_pool_free (mempool_put ring_pool mp p r) = add_mset p (ring_pool_free r)"
    using ok unfolding ring_pool_def
    by (simp add: ring_pool_ok_def ring_pool_free_def del: ring_step.simps)
qed

interpretation ring_pipeline: mbuf_pipeline ring_pool mp "ring_pool_ok room" ring_pool_free room seq_sync demo_config
  for mp room
  by unfold_locales (rule demo_config_ok)

section \<open>Properties\<close>

text \<open>
  C3: Any number of threads allocate, edit, chain, pass on through a ring and free packets, in any
  order: no operation fails an assertion, touches a null or dangling pointer or loops, and every mbuf
  of the pool stays in exactly one place.  It is free and alone, or a segment of one well-formed packet
  that a thread holds or that is in the ring.  At any time, receiving what is in the ring and freeing
  every packet brings all mbufs back to the pool.
\<close>

theorem mbufs_accounted_for:
  assumes "mbuf_pipeline ops mp ok free room S c" "finite A" "card A \<le> room"
    and "accounted ok free mp A hss rss s"
  shows "\<exists>s' hss' rss'. pipe_run c ops mp S s as = Some s' \<and> accounted ok free mp A hss' rss' s' \<and>
    distinct (concat hss' @ concat rss') \<and>
    set (concat hss' @ concat rss') \<inter> set_mset (free (pool_of (mbufs s'))) = {} \<and>
    (let n = length (contents (channel s')) in
     \<exists>s''. pipe_run c ops mp S s' (Recv (of_nat n) # replicate (n + length (held s')) Free) = Some s'' \<and>
       free (pool_of (mbufs s'')) = mset_set A \<and> all_alone (heap_of (mbufs s'')) (mset_set A))"
proof -
  from mbuf_pipeline.any_run [OF assms(1,4,2,3)] obtain s' hss' rss' where
    run: "pipe_run c ops mp S s as = Some s'" and acc: "accounted ok free mp A hss' rss' s'" by blast
  from run acc mset_set_parts(1,5) [OF accountedD(5) [OF acc] assms(2)]
    mbuf_pipeline.drains [OF assms(1) acc assms(2,3)]
  show ?thesis by (metis (no_types, lifting))
qed

text \<open>Three mbufs in a pool kept in a ring, and an empty ring to send packets through.\<close>

definition demo_pool_ring :: rte_ring where
  "demo_pool_ring = demo_ring\<lparr>prod := \<lparr>head = 3, tail = 3, single = 1\<rparr>,
     cons := \<lparr>head = 0, tail = 0, single = 1\<rparr>, ring_table := [0x1000, 0x2000, 0x3000, 0]\<rparr>"

definition demo_channel :: rte_ring where
  "demo_channel = demo_ring\<lparr>prod := \<lparr>head = 0xFFFFFFFE, tail = 0xFFFFFFFE, single = 1\<rparr>\<rparr>"

definition demo_pipeline :: "rte_ring pipeline" where
  "demo_pipeline = \<lparr>mbufs = \<lparr>heap_of = heap_of demo_state, pool_of = demo_pool_ring\<rparr>,
     channel = demo_channel, held = []\<rparr>"

lemma demo_rings:
  "quiet demo_pool_ring" "contents demo_pool_ring = [0x1000, 0x2000, 0x3000]"
  "quiet demo_channel" "contents demo_channel = []"
proof -
  have "ring_shape demo_pool_ring" "ring_shape demo_channel"
    by (auto simp: demo_pool_ring_def demo_channel_def demo_ring_def ring_shape_def intro: exI [of _ 2])
  then show "quiet demo_pool_ring" "quiet demo_channel"
    by (simp_all add: quiet_def ring_ok_def ring_entries_def)
      (simp_all add: demo_pool_ring_def demo_channel_def demo_ring_def)
  show "contents demo_pool_ring = [0x1000, 0x2000, 0x3000]" "contents demo_channel = []"
    by (simp_all add: contents_def ring_entries_def slot_def demo_pool_ring_def demo_channel_def demo_ring_def upt_rec)
qed

lemma demo_pipeline_accounted:
  "accounted (ring_pool_ok 3) ring_pool_free 0xF000 {0x1000, 0x2000, 0x3000} [] [] demo_pipeline"
proof -
  have own: "heap_of demo_state p = Some (free_mbuf p) \<and> p \<noteq> 0"
    if "p \<in> {0x1000, 0x2000, 0x3000}" for p
    using that by (auto simp: demo_state_def)
  have "owned 0xF000 (free_mbuf p)" "alone (free_mbuf p)" for p
    by (simp_all add: owned_def alone_def tail_ok_def free_mbuf_def zero_mbuf_def RTE_MBUF_DIRECT_def
        RTE_MBUF_INDIRECT_def)
  with own have "own_all {0x1000, 0x2000, 0x3000} 0xF000 (heap_of demo_state)"
    "all_alone (heap_of demo_state) (mset [0x1000, 0x2000, 0x3000])"
    unfolding own_all_def all_alone_def seg_at_def by fastforce+
  moreover have "mset [0x1000, 0x2000, 0x3000 :: ptr] = mset_set {0x1000, 0x2000, 0x3000}"
    by (subst mset_set_set [symmetric]) simp_all
  moreover have "unat (ring_capacity demo_pool_ring) = 3" by (simp add: demo_pool_ring_def demo_ring_def)
  ultimately show ?thesis using demo_rings
    by (simp add: accounted_def demo_pipeline_def ring_pool_ok_def ring_pool_free_def)
qed

theorem mbufs_accounted_for_witness:
  "\<exists>s' hss' rss'. pipe_run demo_config ring_pool 0xF000 seq_sync demo_pipeline
       [Alloc 2, Edit (Append 60), Chain, Send 1, Alloc 1, Recv 1, Free, Free] = Some s' \<and>
     accounted (ring_pool_ok 3) ring_pool_free 0xF000 {0x1000, 0x2000, 0x3000} hss' rss' s'"
proof -
  have "finite {0x1000, 0x2000, 0x3000 :: ptr}" "card {0x1000, 0x2000, 0x3000 :: ptr} \<le> 3" by simp_all
  from mbufs_accounted_for [OF ring_pipeline.mbuf_pipeline_axioms this demo_pipeline_accounted]
  show ?thesis by blast
qed

end
