(* ===== verification/Netlink_Bytes.thy ===== *)
theory Netlink_Bytes
  imports Dpdk_Prelude
begin

text \<open>
  Byte buffers and the wire format of netlink messages, as the three netlink files of
  \<open>src/src/ext\<close> use them: little-endian integers, bounds-checked stores into a buffer, the alignment
  macros and attributes of the Linux headers, the helpers \<open>nlattr_add\<close> and \<open>nlattr_add32\<close>, and the
  walk over the attributes by which the receiver reads a message (rtnetlink(3): \<open>RTA_OK\<close>,
  \<open>RTA_DATA\<close>, \<open>RTA_NEXT\<close>).
\<close>

section \<open>Little-endian integers\<close>

definition le_bytes :: "nat \<Rightarrow> nat \<Rightarrow> u8 list" where
  "le_bytes n v = map (\<lambda>i. of_nat (v div 256 ^ i)) [0..<n]"

definition le_nat :: "u8 list \<Rightarrow> nat" where
  "le_nat bs = foldr (\<lambda>b n. unat b + 256 * n) bs 0"

lemma le_bytes_length [simp]: "length (le_bytes n v) = n"
  by (simp add: le_bytes_def)

lemma le_bytes_Suc: "le_bytes (Suc n) v = of_nat v # le_bytes n (v div 256)"
  by (simp add: le_bytes_def upt_conv_Cons map_Suc_upt [symmetric] o_def div_mult2_eq del: upt_Suc)

lemma le_roundtrip: "le_nat (le_bytes n v) = v mod 256 ^ n"
proof (induction n arbitrary: v)
  case 0
  then show ?case by (simp add: le_nat_def le_bytes_def)
next
  case (Suc n)
  have "le_nat (le_bytes (Suc n) v) = v mod 256 + 256 * le_nat (le_bytes n (v div 256))"
    by (simp add: le_bytes_Suc le_nat_def unsigned_of_nat take_bit_eq_mod)
  also have "\<dots> = v mod 256 ^ Suc n" by (simp add: Suc.IH mod_mult2_eq)
  finally show ?case .
qed

lemma le_exact: "v < 256 ^ n \<Longrightarrow> le_nat (le_bytes n v) = v"
  by (simp add: le_roundtrip)

section \<open>Stores into a buffer\<close>

definition put_bytes :: "u8 list \<Rightarrow> nat \<Rightarrow> u8 list \<Rightarrow> u8 list option" where
  "put_bytes bs off d =
     (if off + length d \<le> length bs then Some (take off bs @ d @ drop (off + length d) bs) else None)"

definition put16 :: "u8 list \<Rightarrow> nat \<Rightarrow> nat \<Rightarrow> u8 list option" where
  "put16 bs off v = put_bytes bs off (le_bytes 2 v)"

definition put32 :: "u8 list \<Rightarrow> nat \<Rightarrow> nat \<Rightarrow> u8 list option" where
  "put32 bs off v = put_bytes bs off (le_bytes 4 v)"

definition get32 :: "u8 list \<Rightarrow> nat option" where
  "get32 bs = (if 4 \<le> length bs then Some (le_nat (take 4 bs)) else None)"

lemma put_bytes_prefix:
  "off + length d \<le> length p \<Longrightarrow>
   put_bytes (p @ z) off d = Some ((take off p @ d @ drop (off + length d) p) @ z)"
  by (simp add: put_bytes_def)

lemma put_bytes_end:
  "length d \<le> k \<Longrightarrow>
   put_bytes (p @ replicate k 0) (length p) d = Some ((p @ d) @ replicate (k - length d) 0)"
  by (simp add: put_bytes_def)

lemma put_bytes_length: "put_bytes bs off d = Some bs' \<Longrightarrow> length bs' = length bs"
  by (auto simp: put_bytes_def split: if_splits)

section \<open>Alignment and attributes\<close>

text \<open>\<open>NLMSG_ALIGN\<close> and \<open>RTA_ALIGN\<close>: the next multiple of 4.\<close>

definition align4 :: "nat \<Rightarrow> nat" where "align4 n = (n + 3) div 4 * 4"

definition RTA_LENGTH :: "nat \<Rightarrow> nat" where "RTA_LENGTH len = align4 4 + len"

text \<open>\<open>NLMSG_TAIL\<close>, relative to the start of the message.\<close>

definition NLMSG_TAIL :: "u8 list \<Rightarrow> nat option" where
  "NLMSG_TAIL nh = do { len \<leftarrow> get32 nh; Some (align4 len) }"

definition nlattr_add :: "u8 list \<Rightarrow> nat \<Rightarrow> u8 list \<Rightarrow> u8 list option" where
  "nlattr_add nh type data = do {
     rta \<leftarrow> NLMSG_TAIL nh;
     let rta_len = RTA_LENGTH (length data) mod 2 ^ 16;
     nh \<leftarrow> put16 nh rta rta_len;
     nh \<leftarrow> put16 nh (rta + 2) type;
     nh \<leftarrow> put_bytes nh (rta + RTA_LENGTH 0) data;
     len \<leftarrow> get32 nh;
     put32 nh 0 ((align4 len + align4 rta_len) mod 2 ^ 32) }"

definition nlattr_add32 :: "u8 list \<Rightarrow> nat \<Rightarrow> u32 \<Rightarrow> u8 list option" where
  "nlattr_add32 nh type data = nlattr_add nh type (le_bytes 4 (unat data))"

definition attribute :: "nat \<Rightarrow> u8 list \<Rightarrow> u8 list" where
  "attribute type data =
     le_bytes 2 (4 + length data) @ le_bytes 2 type @ data @
     replicate (align4 (4 + length data) - (4 + length data)) 0"

lemma align4_ge: "n \<le> align4 n"
  unfolding align4_def by presburger

lemma align4_eq: "n mod 4 = 0 \<Longrightarrow> align4 n = n"
  unfolding align4_def by presburger

lemma align4_mod [simp]: "align4 n mod 4 = 0"
  by (simp add: align4_def)

lemma align4_less: "align4 n < n + 4"
  unfolding align4_def by presburger

lemma attribute_length [simp]: "length (attribute type data) = align4 (4 + length data)"
  using align4_ge [of "4 + length data"] by (simp add: attribute_def)

text \<open>
  A message under construction: \<open>p\<close> is the part already filled, whose first four bytes say its length
  up to alignment, followed by \<open>k\<close> zero bytes.
\<close>

definition msg_prefix :: "u8 list \<Rightarrow> bool" where
  "msg_prefix p \<longleftrightarrow> 16 \<le> length p \<and> align4 (le_nat (take 4 p)) = length p"

definition with_attr :: "u8 list \<Rightarrow> nat \<Rightarrow> u8 list \<Rightarrow> u8 list" where
  "with_attr p type data =
     le_bytes 4 (length p + align4 (4 + length data)) @ drop 4 p @ attribute type data"

lemma msg_prefix_mod: "msg_prefix p \<Longrightarrow> length p mod 4 = 0"
  by (metis align4_mod msg_prefix_def)

lemma nlattr_add_extends:
  assumes p: "msg_prefix p" and fits: "align4 (4 + length data) \<le> k" "4 + length data < 2 ^ 16"
    and small: "length p + k < 2 ^ 32"
  shows "nlattr_add (p @ replicate k 0) type data =
           Some (with_attr p type data @ replicate (k - align4 (4 + length data)) 0)"
    "msg_prefix (with_attr p type data)" "length (with_attr p type data) = length p + align4 (4 + length data)"
proof -
  let ?n = "4 + length data"
  have n: "?n \<le> k" using align4_ge [of ?n] fits(1) by linarith
  have tail: "NLMSG_TAIL (p @ replicate k 0) = Some (length p)"
    using p by (simp add: NLMSG_TAIL_def get32_def msg_prefix_def)
  have rta: "RTA_LENGTH (length data) = ?n" "RTA_LENGTH 0 = 4"
    by (simp_all add: RTA_LENGTH_def align4_def)
  define q where "q = p @ le_bytes 2 ?n @ le_bytes 2 type @ data"
  have s1: "put16 (p @ replicate k 0) (length p) ?n = Some ((p @ le_bytes 2 ?n) @ replicate (k - 2) 0)"
    unfolding put16_def using n by (subst put_bytes_end) simp_all
  have s2: "put16 ((p @ le_bytes 2 ?n) @ replicate (k - 2) 0) (length p + 2) type =
      Some ((p @ le_bytes 2 ?n @ le_bytes 2 type) @ replicate (k - 4) 0)"
    unfolding put16_def using n put_bytes_end [of "le_bytes 2 type" "k - 2" "p @ le_bytes 2 ?n"] by simp
  have s3: "put_bytes ((p @ le_bytes 2 ?n @ le_bytes 2 type) @ replicate (k - 4) 0) (length p + 4) data =
      Some (q @ replicate (k - ?n) 0)"
    using n put_bytes_end [of data "k - 4" "p @ le_bytes 2 ?n @ le_bytes 2 type"] by (simp add: q_def)
  have len: "get32 (q @ replicate (k - ?n) 0) = Some (le_nat (take 4 p))"
    using p by (simp add: get32_def msg_prefix_def q_def)
  have al: "align4 (le_nat (take 4 p)) = length p" using p by (simp add: msg_prefix_def)
  have "length p + align4 ?n < 2 ^ 32" using small fits(1) by linarith
  then have md: "(length p + align4 ?n) mod 2 ^ 32 = length p + align4 ?n" by simp
  have p4: "4 \<le> length p" using p by (simp add: msg_prefix_def)
  have z: "replicate (k - ?n) (0 :: u8) = replicate (align4 ?n - ?n) 0 @ replicate (k - align4 ?n) 0"
    using fits(1) align4_ge [of ?n] by (simp flip: replicate_add)
  have s4: "put32 (q @ replicate (k - ?n) 0) 0 (length p + align4 ?n) =
      Some (with_attr p type data @ replicate (k - align4 ?n) 0)"
    unfolding put32_def using p4
    by (subst put_bytes_prefix) (simp_all add: q_def with_attr_def attribute_def z)
  show "nlattr_add (p @ replicate k 0) type data = Some (with_attr p type data @ replicate (k - align4 ?n) 0)"
    using fits(2) s1 s2 s3 s4 md by (simp add: nlattr_add_def tail rta len al Let_def)
  show "length (with_attr p type data) = length p + align4 ?n" using p4 by (simp add: with_attr_def)
  moreover have "(length p + align4 ?n) mod 4 = 0"
    using msg_prefix_mod [OF p] align4_mod [of ?n] by (metis mod_add_eq add_0 mod_0)
  then have "align4 (length p + align4 ?n) = length p + align4 ?n" by (rule align4_eq)
  moreover have "le_nat (take 4 (with_attr p type data)) = length p + align4 ?n"
    using \<open>length p + align4 ?n < 2 ^ 32\<close> by (simp add: with_attr_def le_exact)
  ultimately show "msg_prefix (with_attr p type data)" using p by (simp add: msg_prefix_def)
qed

section \<open>Reading a message\<close>

function rta_walk :: "u8 list \<Rightarrow> (nat \<times> u8 list) list" where
  "rta_walk bs =
     (let l = le_nat (take 2 bs)
      in if length bs < 4 \<or> l < 4 \<or> length bs < l then []
         else (le_nat (take 2 (drop 2 bs)), take (l - 4) (drop 4 bs)) # rta_walk (drop (align4 l) bs))"
  by pat_completeness auto
termination
proof (relation "measure length")
  fix bs :: "u8 list" and l
  assume "l = le_nat (take 2 bs)" "\<not> (length bs < 4 \<or> l < 4 \<or> length bs < l)"
  then have "4 \<le> l" "4 \<le> length bs" by auto
  then show "(drop (align4 l) bs, bs) \<in> measure length" using align4_ge [of l] by simp
qed simp

declare rta_walk.simps [simp del]

lemma rta_walk_Nil [simp]: "rta_walk [] = []"
  by (subst rta_walk.simps) simp

lemma rta_walk_attribute:
  assumes "4 + length data < 2 ^ 16" "type < 2 ^ 16"
  shows "rta_walk (attribute type data @ rest) = (type, data) # rta_walk rest"
proof -
  let ?n = "4 + length data"
  have l: "le_nat (take 2 (attribute type data @ rest)) = ?n"
    using assms(1) by (simp add: attribute_def le_exact)
  have t: "le_nat (take 2 (drop 2 (attribute type data @ rest))) = type"
    using assms(2) by (simp add: attribute_def le_exact)
  have d: "take (?n - 4) (drop 4 (attribute type data @ rest)) = data" by (simp add: attribute_def)
  have r: "drop (align4 ?n) (attribute type data @ rest) = rest" by simp
  have "length (attribute type data @ rest) \<ge> ?n" using align4_ge [of ?n] by simp
  then show ?thesis by (subst rta_walk.simps) (simp only: l t d r Let_def, simp)
qed

end
