(* ===== verification/Os_Interface.thy ===== *)
theory Os_Interface
  imports Dpdk_Prelude
begin

text \<open>
  The calls by which \<open>ext_netlink.c\<close>, \<open>tap.c\<close> and \<open>kni.c\<close> leave the program: system calls and the
  functions of the DPDK libraries.  The outside is a function from the calls made so far and the
  present call to its answer; a run of the code extends the trace of calls.
\<close>

section \<open>Calls\<close>

datatype ioctl_request =
  SIOCGIFINDEX | SIOCGIFFLAGS | SIOCSIFFLAGS | SIOCSIFHWADDR | SIOCSIFMTU
| SIOCSIFADDR | SIOCSIFDSTADDR | SIOCSIFBRDADDR | SIOCSIFNETMASK | TUNSETIFF

text \<open>The fields of \<open>struct rte_kni_conf\<close> that \<open>kni_create\<close> sets; the others are zero.\<close>

record rte_kni_conf =
  kni_name :: "u8 list"
  kni_core_id :: u32
  kni_group_id :: u16
  kni_mbuf_size :: nat
  kni_pci_addr :: "u8 list"
  kni_pci_id :: "u8 list"
  kni_force_bind :: nat
  kni_mac_addr :: "u8 list"
  kni_mtu :: nat

datatype sys_call =
  Socket int int int
| Getpid
| Bind int int
| Sendmsg int "u8 list"
| Close int
| Open "char list" nat
| Ioctl int ioctl_request "u8 list"
| Select int
| Read int int
| Eth_dev_count
| Eth_dev_stop u16
| Eth_dev_start u16
| Eth_dev_info_get u16
| Eth_macaddr_get u16
| Eth_dev_get_mtu u16
| Kni_alloc int rte_kni_conf u16
| Kni_handle_request int

type_synonym trace = "sys_call list"

text \<open>The returned integer and the bytes written to the caller's buffer.\<close>

type_synonym kernel = "trace \<Rightarrow> sys_call \<Rightarrow> int \<times> u8 list"

definition syscall :: "kernel \<Rightarrow> sys_call \<Rightarrow> trace \<Rightarrow> int \<times> u8 list \<times> trace" where
  "syscall k c tr = (case k tr c of (r, out) \<Rightarrow> (r, out, tr @ [c]))"

text \<open>A buffer after a call has written \<open>out\<close> at its start.\<close>

definition overlay :: "u8 list \<Rightarrow> u8 list \<Rightarrow> u8 list" where
  "overlay out d = take (length d) (out @ drop (length out) d)"

lemma overlay_length [simp]: "length (overlay out d) = length d"
  by (simp add: overlay_def)

lemma overlay_Nil [simp]: "overlay [] d = d"
  by (simp add: overlay_def)

section \<open>Outcomes\<close>

text \<open>
  A run returns a value, leaves the process (\<open>perror_exit\<close>, \<open>rte_exit\<close>), or is undefined (a \<open>strcpy\<close>
  beyond its array, a store outside a message).
\<close>

datatype 'a outcome = Return 'a trace | Exit trace | Undefined

fun and_then :: "'a outcome \<Rightarrow> ('a \<Rightarrow> trace \<Rightarrow> 'b outcome) \<Rightarrow> 'b outcome" where
  "and_then (Return a tr) f = f a tr"
| "and_then (Exit tr) f = Exit tr"
| "and_then Undefined f = Undefined"

lemma and_then_Return:
  "and_then x f = Return b tr \<longleftrightarrow> (\<exists>a tr'. x = Return a tr' \<and> f a tr' = Return b tr)"
  by (cases x) auto

text \<open>All calls that satisfy \<open>P\<close> and were made between the traces \<open>tr\<close> and \<open>tr'\<close> were answered by 0.\<close>

definition answered :: "kernel \<Rightarrow> (sys_call \<Rightarrow> bool) \<Rightarrow> trace \<Rightarrow> trace \<Rightarrow> bool" where
  "answered k P tr tr' \<longleftrightarrow> take (length tr) tr' = tr \<and>
     (\<forall>i\<in>{length tr..<length tr'}. P (tr' ! i) \<longrightarrow> fst (k (take i tr') (tr' ! i)) = 0)"

lemma answered_refl [simp]: "answered k P tr tr"
  by (simp add: answered_def)

lemma answered_trans:
  assumes "answered k P tr tr'" "answered k P tr' tr''"
  shows "answered k P tr tr''"
proof -
  have l: "length tr \<le> length tr'" "length tr' \<le> length tr''"
    using assms by (metis answered_def length_take min.cobounded2 min.commute)+
  have t: "take (length tr') tr'' = tr'" using assms(2) by (simp add: answered_def)
  have old: "tr'' ! i = tr' ! i \<and> take i tr'' = take i tr'" if "i < length tr'" for i
    using that t by (metis nth_take take_take min_absorb1 nat_less_le)
  have "take (length tr) tr'' = tr"
    using assms(1) l(1) old [of "length tr"] t
    by (metis answered_def le_neq_implies_less take_all_iff)
  moreover have "fst (k (take i tr'') (tr'' ! i)) = 0"
    if "i \<in> {length tr..<length tr''}" "P (tr'' ! i)" for i
    using that assms old [of i] by (cases "i < length tr'") (auto simp: answered_def)
  ultimately show ?thesis by (simp add: answered_def)
qed

lemma answered_snoc:
  "answered k P tr (tr @ [c]) \<longleftrightarrow> (P c \<longrightarrow> fst (k tr c) = 0)"
  by (auto simp: answered_def)

lemma answered_append:
  "\<forall>c\<in>set cs. \<not> P c \<Longrightarrow> answered k P tr (tr @ cs)"
  by (auto simp: answered_def nth_append)

end
