(* ===== verification/Netlink.thy ===== *)
theory Netlink
  imports Netlink_Bytes Os_Interface
begin

text \<open>
  The netlink requests of \<open>src/src/ext/ext_netlink.c\<close>, \<open>tap_netlink.c\<close> and \<open>netlink.c\<close>: the messages
  that add an address or a route, byte for byte, and how they are sent.  What the kernel reads in a
  message is the specification \<open>read_request\<close>.
\<close>

section \<open>Headers\<close>

record nlmsghdr =
  nlmsg_len :: nat
  nlmsg_type :: nat
  nlmsg_flags :: nat
  nlmsg_seq :: nat
  nlmsg_pid :: nat

definition nlmsghdr_bytes :: "nlmsghdr \<Rightarrow> u8 list" where
  "nlmsghdr_bytes n = le_bytes 4 (nlmsg_len n) @ le_bytes 2 (nlmsg_type n) @ le_bytes 2 (nlmsg_flags n) @
     le_bytes 4 (nlmsg_seq n) @ le_bytes 4 (nlmsg_pid n)"

text \<open>\<open>NLMSG_LENGTH\<close>: the header is 16 bytes.\<close>

definition NLMSG_LENGTH :: "nat \<Rightarrow> nat" where "NLMSG_LENGTH len = len + align4 16"

definition AF_INET :: nat where "AF_INET = 2"
definition AF_INET6 :: nat where "AF_INET6 = 10"
definition AF_NETLINK :: int where "AF_NETLINK = 16"
definition RTM_NEWADDR :: nat where "RTM_NEWADDR = 20"
definition RTM_NEWROUTE :: nat where "RTM_NEWROUTE = 24"
definition NLM_F_REQUEST :: nat where "NLM_F_REQUEST = 0x1"
definition NLM_F_CREATE :: nat where "NLM_F_CREATE = 0x400"
definition NLM_F_APPEND :: nat where "NLM_F_APPEND = 0x800"
definition RTA_DST :: nat where "RTA_DST = 1"
definition RTA_OIF :: nat where "RTA_OIF = 4"
definition RTA_GATEWAY :: nat where "RTA_GATEWAY = 5"
definition IFA_ADDRESS :: nat where "IFA_ADDRESS = 1"
definition IFA_LOCAL :: nat where "IFA_LOCAL = 2"
definition IFA_F_PERMANENT :: nat where "IFA_F_PERMANENT = 0x80"
definition IFA_F_SECONDARY :: nat where "IFA_F_SECONDARY = 0x01"
definition RT_TABLE_MAIN :: u8 where "RT_TABLE_MAIN = 254"
definition RTPROT_BOOT :: u8 where "RTPROT_BOOT = 3"
definition RT_SCOPE_UNIVERSE :: u8 where "RT_SCOPE_UNIVERSE = 0"
definition RT_SCOPE_LINK :: u8 where "RT_SCOPE_LINK = 253"
definition RTN_UNICAST :: u8 where "RTN_UNICAST = 1"

named_theorems netlink_defs
declare AF_INET_def [netlink_defs] AF_INET6_def [netlink_defs] AF_NETLINK_def [netlink_defs]
  RTM_NEWADDR_def [netlink_defs] RTM_NEWROUTE_def [netlink_defs]
  NLM_F_REQUEST_def [netlink_defs] NLM_F_CREATE_def [netlink_defs] NLM_F_APPEND_def [netlink_defs]
  RTA_DST_def [netlink_defs] RTA_OIF_def [netlink_defs] RTA_GATEWAY_def [netlink_defs]
  IFA_ADDRESS_def [netlink_defs] IFA_LOCAL_def [netlink_defs]
  IFA_F_PERMANENT_def [netlink_defs] IFA_F_SECONDARY_def [netlink_defs]
  RT_TABLE_MAIN_def [netlink_defs] RTPROT_BOOT_def [netlink_defs] RT_SCOPE_UNIVERSE_def [netlink_defs]
  RT_SCOPE_LINK_def [netlink_defs] RTN_UNICAST_def [netlink_defs]

section \<open>Sending\<close>

text \<open>\<open>prepare_socket\<close> and \<open>send_to_socket\<close>, which the three files have in the same form.\<close>

definition prepare_socket :: "kernel \<Rightarrow> trace \<Rightarrow> int \<times> trace" where
  "prepare_socket k tr =
     (let (fd, _, tr) = syscall k (Socket AF_NETLINK 3 0) tr
      in if fd < 0 then (- 1, tr)
         else
           let (pid, _, tr) = syscall k Getpid tr;
               (_, _, tr) = syscall k (Bind fd pid) tr
           in (fd, tr))"

definition send_to_socket :: "kernel \<Rightarrow> int \<Rightarrow> u8 list \<Rightarrow> trace \<Rightarrow> trace option" where
  "send_to_socket k fd reqn tr = do {
     len \<leftarrow> get32 reqn;
     if length reqn < len then None
     else
       let (_, _, tr) = syscall k (Sendmsg fd (take len reqn)) tr;
           (_, _, tr) = syscall k (Close fd) tr
       in Some tr }"

section \<open>Adding an address\<close>

text \<open>One attribute written by hand at \<open>rta\<close>, and the new \<open>rta\<close>.\<close>

definition put_rta :: "u8 list \<Rightarrow> nat \<Rightarrow> nat \<Rightarrow> u8 list \<Rightarrow> (u8 list \<times> nat) option" where
  "put_rta buf rta type data = do {
     buf \<leftarrow> put16 buf (rta + 2) type;
     let rta_len = 4 + length data;
     buf \<leftarrow> put16 buf rta rta_len;
     buf \<leftarrow> put_bytes buf (rta + 4) data;
     Some (buf, rta_len) }"

definition addr_msg :: "nat \<Rightarrow> u32 \<Rightarrow> u8 list \<Rightarrow> u32 \<Rightarrow> u8 list option" where
  "addr_msg family ifc_idx addr prefix_len = do {
     let buf = replicate 16384 (0 :: u8);
     let ifal = 8;
     let rta = 0;
     (buf, rta_len) \<leftarrow> put_rta buf rta IFA_ADDRESS addr;
     let ifal = ifal + rta_len;
     let rta = rta + rta_len;
     (buf, rta_len) \<leftarrow> put_rta buf rta IFA_LOCAL addr;
     let ifal = ifal + rta_len;
     let n = \<lparr>nlmsg_len = NLMSG_LENGTH ifal, nlmsg_type = RTM_NEWADDR,
              nlmsg_flags = NLM_F_REQUEST + NLM_F_CREATE + NLM_F_APPEND, nlmsg_seq = 0, nlmsg_pid = 0\<rparr>;
     let r = [of_nat family, ucast prefix_len, of_nat (IFA_F_PERMANENT + IFA_F_SECONDARY), 0] @
             le_bytes 4 (unat ifc_idx);
     Some (nlmsghdr_bytes n @ r @ buf) }"

definition add_ipv4 :: "kernel \<Rightarrow> u32 \<Rightarrow> u32 \<Rightarrow> u32 \<Rightarrow> trace \<Rightarrow> trace option" where
  "add_ipv4 k ifc_idx ipv4 prefix_len tr = do {
     let (fd, tr) = prepare_socket k tr;
     req \<leftarrow> addr_msg AF_INET ifc_idx (le_bytes 4 (unat ipv4)) prefix_len;
     send_to_socket k fd req tr }"

text \<open>\<open>ipv6\<close> is the 16 bytes the pointer points to.\<close>

definition add_ipv6 :: "kernel \<Rightarrow> u32 \<Rightarrow> u8 list \<Rightarrow> u32 \<Rightarrow> trace \<Rightarrow> trace option" where
  "add_ipv6 k ifc_idx ipv6 prefix_len tr = do {
     let (fd, tr) = prepare_socket k tr;
     req \<leftarrow> addr_msg AF_INET6 ifc_idx (take 16 ipv6) prefix_len;
     send_to_socket k fd req tr }"

section \<open>Adding a route\<close>

definition route_msg :: "u8 \<Rightarrow> u32 \<Rightarrow> u32 \<Rightarrow> u32 \<Rightarrow> u32 \<Rightarrow> u8 list option" where
  "route_msg scope ifc_idx gw dst prefix_len = do {
     let n = \<lparr>nlmsg_len = NLMSG_LENGTH 12, nlmsg_type = RTM_NEWROUTE,
              nlmsg_flags = NLM_F_REQUEST + NLM_F_CREATE, nlmsg_seq = 0, nlmsg_pid = 0\<rparr>;
     let r = [of_nat AF_INET, ucast prefix_len, 0, 0, RT_TABLE_MAIN, RTPROT_BOOT, scope, RTN_UNICAST, 0, 0, 0, 0];
     let req = nlmsghdr_bytes n @ r @ replicate 4096 0;
     req \<leftarrow> nlattr_add req RTA_GATEWAY (le_bytes 4 (unat gw));
     req \<leftarrow> nlattr_add req RTA_DST (le_bytes 4 (unat dst));
     nlattr_add32 req RTA_OIF ifc_idx }"

definition add_route :: "kernel \<Rightarrow> u32 \<Rightarrow> u32 \<Rightarrow> u32 \<Rightarrow> u32 \<Rightarrow> trace \<Rightarrow> trace option" where
  "add_route k ifc_idx gw dst prefix_len tr = do {
     let (fd, tr) = prepare_socket k tr;
     req \<leftarrow> route_msg RT_SCOPE_UNIVERSE ifc_idx gw dst prefix_len;
     send_to_socket k fd req tr }"

text \<open>
  \<open>tap_netlink.c\<close> repeats these functions; \<open>netlink.c\<close> has the address request as \<open>add_ip\<close> and a route
  request of link scope.
\<close>

definition tap_add_ipv4 :: "kernel \<Rightarrow> u32 \<Rightarrow> u32 \<Rightarrow> u32 \<Rightarrow> trace \<Rightarrow> trace option" where
  "tap_add_ipv4 k ifc_idx ipv4 prefix_len tr = do {
     let (fd, tr) = prepare_socket k tr;
     req \<leftarrow> addr_msg AF_INET ifc_idx (le_bytes 4 (unat ipv4)) prefix_len;
     send_to_socket k fd req tr }"

definition tap_add_ipv6 :: "kernel \<Rightarrow> u32 \<Rightarrow> u8 list \<Rightarrow> u32 \<Rightarrow> trace \<Rightarrow> trace option" where
  "tap_add_ipv6 k ifc_idx ipv6 prefix_len tr = do {
     let (fd, tr) = prepare_socket k tr;
     req \<leftarrow> addr_msg AF_INET6 ifc_idx (take 16 ipv6) prefix_len;
     send_to_socket k fd req tr }"

definition tap_add_route :: "kernel \<Rightarrow> u32 \<Rightarrow> u32 \<Rightarrow> u32 \<Rightarrow> u32 \<Rightarrow> trace \<Rightarrow> trace option" where
  "tap_add_route k ifc_idx gw dst prefix_len tr = do {
     let (fd, tr) = prepare_socket k tr;
     req \<leftarrow> route_msg RT_SCOPE_UNIVERSE ifc_idx gw dst prefix_len;
     send_to_socket k fd req tr }"

definition netlink_add_ip :: "kernel \<Rightarrow> u32 \<Rightarrow> u32 \<Rightarrow> u32 \<Rightarrow> trace \<Rightarrow> trace option" where
  "netlink_add_ip k ifc_idx ip_address prefix_len tr = do {
     let (fd, tr) = prepare_socket k tr;
     req \<leftarrow> addr_msg AF_INET ifc_idx (le_bytes 4 (unat ip_address)) prefix_len;
     send_to_socket k fd req tr }"

definition netlink_add_route :: "kernel \<Rightarrow> u32 \<Rightarrow> u32 \<Rightarrow> u32 \<Rightarrow> u32 \<Rightarrow> trace \<Rightarrow> trace option" where
  "netlink_add_route k ifc_idx src dst prefix_len tr = do {
     let (fd, tr) = prepare_socket k tr;
     req \<leftarrow> route_msg RT_SCOPE_LINK ifc_idx src dst prefix_len;
     send_to_socket k fd req tr }"

section \<open>What the kernel reads\<close>

record request =
  req_len :: nat
  req_type :: nat
  req_flags :: nat
  req_body :: "u8 list"
  req_attrs :: "(nat \<times> u8 list) list"

text \<open>\<open>n\<close> is the size of the fixed part that follows the header for this type of message.\<close>

definition read_request :: "nat \<Rightarrow> u8 list \<Rightarrow> request" where
  "read_request n bs = \<lparr>req_len = le_nat (take 4 bs), req_type = le_nat (take 2 (drop 4 bs)),
     req_flags = le_nat (take 2 (drop 6 bs)), req_body = take n (drop 16 bs),
     req_attrs = rta_walk (drop (align4 (16 + n)) bs)\<rparr>"

lemma nlmsghdr_length [simp]: "length (nlmsghdr_bytes n) = 16"
  by (simp add: nlmsghdr_bytes_def)

lemma read_header:
  assumes "len < 2 ^ 32" "ty < 2 ^ 16" "fl < 2 ^ 16" "length body = n" "n mod 4 = 0"
  shows "read_request n
      (le_bytes 4 len @ le_bytes 2 ty @ le_bytes 2 fl @ le_bytes 4 sq @ le_bytes 4 pid @ body @ rest) =
    \<lparr>req_len = len, req_type = ty, req_flags = fl, req_body = body, req_attrs = rta_walk rest\<rparr>"
proof -
  have "align4 (16 + n) = 16 + n" using assms(5) by (intro align4_eq) presburger
  then show ?thesis using assms(1-4) by (simp add: read_request_def le_exact)
qed

lemma with_attr_header:
  "with_attr (le_bytes 4 len @ hdr @ attrs) type data =
   le_bytes 4 (4 + length hdr + length attrs + align4 (4 + length data)) @ hdr @ (attrs @ attribute type data)"
  by (simp add: with_attr_def add.assoc)

text \<open>The route message as a list: the header, the body and the three attributes.\<close>

lemma route_msg_bytes:
  "\<exists>k. route_msg scope ifc_idx gw dst prefix_len = Some ((le_bytes 4 52 @ le_bytes 2 24 @ le_bytes 2 0x401 @
       le_bytes 4 0 @ le_bytes 4 0 @ [2, ucast prefix_len, 0, 0, 254, 3, scope, 1, 0, 0, 0, 0] @
       attribute 5 (le_bytes 4 (unat gw)) @ attribute 1 (le_bytes 4 (unat dst)) @
       attribute 4 (le_bytes 4 (unat ifc_idx))) @ replicate k 0)"
proof -
  let ?hdr = "le_bytes 2 24 @ le_bytes 2 0x401 @ le_bytes 4 0 @ le_bytes 4 0 @
    [2, ucast prefix_len, 0, 0, 254, 3, scope, 1, 0, 0, 0, 0 :: u8]"
  let ?a = "attribute 5 (le_bytes 4 (unat gw))" and ?b = "attribute 1 (le_bytes 4 (unat dst))"
    and ?c = "attribute 4 (le_bytes 4 (unat ifc_idx))"
  define p where "p = le_bytes 4 28 @ ?hdr"
  have al: "align4 8 = 8" "align4 28 = 28" by (simp_all add: align4_def)
  have p: "msg_prefix p" "length p = 28" by (simp_all add: msg_prefix_def p_def le_exact al)
  note s1 = nlattr_add_extends [OF p(1), of "le_bytes 4 (unat gw)" 4096 5, simplified, unfolded al]
  define p1 where "p1 = with_attr p 5 (le_bytes 4 (unat gw))"
  note s2 = nlattr_add_extends [of p1 "le_bytes 4 (unat dst)" 4088 1, simplified, unfolded al]
  define p2 where "p2 = with_attr p1 1 (le_bytes 4 (unat dst))"
  note s3 = nlattr_add_extends [of p2 "le_bytes 4 (unat ifc_idx)" 4080 4, simplified, unfolded al]
  have run: "nlattr_add (p @ replicate 4096 0) 5 (le_bytes 4 (unat gw)) = Some (p1 @ replicate 4088 0)"
    "nlattr_add (p1 @ replicate 4088 0) 1 (le_bytes 4 (unat dst)) = Some (p2 @ replicate 4080 0)"
    "nlattr_add (p2 @ replicate 4080 0) 4 (le_bytes 4 (unat ifc_idx)) =
       Some (with_attr p2 4 (le_bytes 4 (unat ifc_idx)) @ replicate 4072 0)"
    using s1 s2 s3 p by (simp_all add: p1_def p2_def)
  have p1': "p1 = le_bytes 4 36 @ ?hdr @ ?a"
    using with_attr_header [of 28 ?hdr "[]" 5 "le_bytes 4 (unat gw)"] by (simp add: p1_def p_def al)
  have p2': "p2 = le_bytes 4 44 @ ?hdr @ ?a @ ?b"
    using with_attr_header [of 36 ?hdr ?a 1 "le_bytes 4 (unat dst)"] by (simp add: p2_def p1' al)
  have "with_attr p2 4 (le_bytes 4 (unat ifc_idx)) = le_bytes 4 52 @ ?hdr @ ?a @ ?b @ ?c"
    using with_attr_header [of 44 ?hdr "?a @ ?b" 4 "le_bytes 4 (unat ifc_idx)"] by (simp add: p2' al)
  moreover have "NLMSG_LENGTH 12 = 28" by (simp add: NLMSG_LENGTH_def align4_def)
  then have "route_msg scope ifc_idx gw dst prefix_len =
      Some (with_attr p2 4 (le_bytes 4 (unat ifc_idx)) @ replicate 4072 0)"
    using run by (simp add: route_msg_def nlattr_add32_def nlmsghdr_bytes_def netlink_defs p_def)
  ultimately show ?thesis by auto
qed

lemma put_rta_end:
  assumes "length data mod 4 = 0" "4 + length data \<le> k" "4 + length data < 2 ^ 16"
  shows "put_rta (p @ replicate k 0) (length p) type data =
         Some ((p @ attribute type data) @ replicate (k - (4 + length data)) 0, 4 + length data)"
proof -
  let ?n = "4 + length data"
  have al: "align4 ?n = ?n" using assms(1) by (intro align4_eq) presburger
  have z: "replicate k (0 :: u8) = [0, 0] @ [0, 0] @ replicate (length data) 0 @ replicate (k - ?n) 0"
    using assms(2) by (simp add: numeral_eq_Suc replicate_add [symmetric] flip: replicate_Suc)
  show ?thesis
    unfolding put_rta_def z put16_def put_bytes_def attribute_def al by (simp add: Let_def)
qed

lemma addr_msg_bytes:
  assumes "length addr mod 4 = 0" "length addr \<le> 4000"
  shows "addr_msg family ifc_idx addr prefix_len = Some ((le_bytes 4 (32 + 2 * length addr) @
       le_bytes 2 20 @ le_bytes 2 0xC01 @ le_bytes 4 0 @ le_bytes 4 0 @
       ([of_nat family, ucast prefix_len, 0x81, 0] @ le_bytes 4 (unat ifc_idx)) @
       attribute 1 addr @ attribute 2 addr) @ replicate (16384 - 2 * (4 + length addr)) 0)"
proof -
  let ?n = "4 + length addr"
  have al: "align4 ?n = ?n" using assms(1) by (intro align4_eq) presburger
  define z where "z = replicate 16384 (0 :: u8)"
  define z1 where "z1 = replicate (16384 - ?n) (0 :: u8)"
  define z2 where "z2 = replicate (16384 - 2 * ?n) (0 :: u8)"
  have 1: "put_rta z 0 1 addr = Some (attribute 1 addr @ z1, ?n)"
    using put_rta_end [of addr 16384 "[]" 1] assms by (simp add: z_def z1_def)
  have "16384 - ?n - ?n = 16384 - 2 * ?n" "?n \<le> 16384 - ?n" "?n < 2 ^ 16" using assms(2) by simp_all
  then have 2: "put_rta (attribute 1 addr @ z1) ?n 2 addr = Some ((attribute 1 addr @ attribute 2 addr) @ z2, ?n)"
    using put_rta_end [of addr "16384 - ?n" "attribute 1 addr" 2] assms
    by (simp only: attribute_length al z1_def z2_def)
  have "NLMSG_LENGTH (8 + ?n + ?n) = 32 + 2 * length addr" by (simp add: NLMSG_LENGTH_def align4_def)
  then show ?thesis
    unfolding addr_msg_def netlink_defs z_def [symmetric] z2_def [symmetric] Let_def bind.bind_lunit
    by (simp only: 1 2 prod.case add_0 bind.bind_lunit nlmsghdr_bytes_def nlmsghdr.select_convs) simp
qed

section \<open>Sending and reading back\<close>

text \<open>
  The calls of one request: when no socket can be opened the message is handed to the invalid
  descriptor \<open>- 1\<close>, which is closed too.
\<close>

definition request_calls :: "kernel \<Rightarrow> trace \<Rightarrow> u8 list \<Rightarrow> trace" where
  "request_calls k tr sent =
     (let open_socket = Socket AF_NETLINK 3 0;
          fd = fst (k tr open_socket);
          pid = fst (k (tr @ [open_socket]) Getpid)
      in if fd < 0 then [open_socket, Sendmsg (- 1) sent, Close (- 1)]
         else [open_socket, Getpid, Bind fd pid, Sendmsg fd sent, Close fd])"

lemma send_calls:
  assumes "le_nat (take 4 sent) = length sent" "4 \<le> length sent"
  shows "(let (fd, tr) = prepare_socket k tr in send_to_socket k fd (sent @ rest) tr) =
      Some (tr @ request_calls k tr sent)"
  using assms
  by (auto simp: prepare_socket_def send_to_socket_def syscall_def request_calls_def get32_def Let_def
      split: prod.splits)

lemma route_request:
  "\<exists>rest sent. route_msg scope ifc_idx gw dst prefix_len = Some (sent @ rest) \<and>
     le_nat (take 4 sent) = length sent \<and> 4 \<le> length sent \<and>
     read_request 12 sent = \<lparr>req_len = 52, req_type = RTM_NEWROUTE,
       req_flags = NLM_F_REQUEST + NLM_F_CREATE,
       req_body = [2, ucast prefix_len, 0, 0, RT_TABLE_MAIN, RTPROT_BOOT, scope, RTN_UNICAST, 0, 0, 0, 0],
       req_attrs = [(RTA_GATEWAY, le_bytes 4 (unat gw)), (RTA_DST, le_bytes 4 (unat dst)),
                    (RTA_OIF, le_bytes 4 (unat ifc_idx))]\<rparr>"
proof -
  let ?body = "[2, ucast prefix_len, 0, 0, 254, 3, scope, 1, 0, 0, 0, 0] :: u8 list"
  let ?attrs = "attribute 5 (le_bytes 4 (unat gw)) @ attribute 1 (le_bytes 4 (unat dst)) @
    attribute 4 (le_bytes 4 (unat ifc_idx))"
  let ?sent = "le_bytes 4 52 @ le_bytes 2 24 @ le_bytes 2 0x401 @ le_bytes 4 0 @ le_bytes 4 0 @ ?body @ ?attrs"
  obtain n where "route_msg scope ifc_idx gw dst prefix_len = Some (?sent @ replicate n 0)"
    using route_msg_bytes by blast
  moreover have "rta_walk ?attrs = [(5, le_bytes 4 (unat gw)), (1, le_bytes 4 (unat dst)), (4, le_bytes 4 (unat ifc_idx))]"
    using rta_walk_attribute [of "le_bytes 4 (unat ifc_idx)" 4 "[]"] by (simp add: rta_walk_attribute)
  then have "read_request 12 ?sent = \<lparr>req_len = 52, req_type = 24, req_flags = 0x401, req_body = ?body,
      req_attrs = [(5, le_bytes 4 (unat gw)), (1, le_bytes 4 (unat dst)), (4, le_bytes 4 (unat ifc_idx))]\<rparr>"
    using read_header [where len = 52 and ty = 24 and fl = "0x401" and body = ?body and sq = 0 and pid = 0
        and rest = ?attrs and n = 12] by simp
  moreover have "le_nat (take 4 ?sent) = length ?sent" by (simp add: le_exact align4_def)
  moreover have "4 \<le> length ?sent" by simp
  ultimately show ?thesis
    unfolding netlink_defs by (intro exI [of _ "replicate n 0"] exI [of _ ?sent]) simp
qed

lemma addr_request:
  assumes "length addr mod 4 = 0" "length addr \<le> 4000"
  shows "\<exists>rest sent. addr_msg family ifc_idx addr prefix_len = Some (sent @ rest) \<and>
     le_nat (take 4 sent) = length sent \<and> 4 \<le> length sent \<and>
     read_request 8 sent = \<lparr>req_len = 32 + 2 * length addr, req_type = RTM_NEWADDR,
       req_flags = NLM_F_REQUEST + NLM_F_CREATE + NLM_F_APPEND,
       req_body = [of_nat family, ucast prefix_len, of_nat (IFA_F_PERMANENT + IFA_F_SECONDARY), 0] @
                  le_bytes 4 (unat ifc_idx),
       req_attrs = [(IFA_ADDRESS, addr), (IFA_LOCAL, addr)]\<rparr>"
proof -
  let ?body = "[of_nat family, ucast prefix_len, 0x81, 0] @ le_bytes 4 (unat ifc_idx) :: u8 list"
  let ?attrs = "attribute 1 addr @ attribute 2 addr" and ?len = "32 + 2 * length addr"
  let ?sent = "le_bytes 4 ?len @ le_bytes 2 20 @ le_bytes 2 0xC01 @ le_bytes 4 0 @ le_bytes 4 0 @ ?body @ ?attrs"
  have al: "align4 (4 + length addr) = 4 + length addr" using assms(1) by (intro align4_eq) presburger
  have "addr_msg family ifc_idx addr prefix_len =
      Some (?sent @ replicate (16384 - 2 * (4 + length addr)) 0)"
    using addr_msg_bytes [OF assms] by simp
  moreover have "rta_walk ?attrs = [(1, addr), (2, addr)]"
    using rta_walk_attribute [of addr 2 "[]"] assms(2) by (simp add: rta_walk_attribute)
  then have "read_request 8 ?sent = \<lparr>req_len = ?len, req_type = 20, req_flags = 0xC01, req_body = ?body,
      req_attrs = [(1, addr), (2, addr)]\<rparr>"
    using read_header [where len = ?len and ty = 20 and fl = "0xC01" and body = ?body and sq = 0 and pid = 0
        and rest = ?attrs and n = 8] assms(2) by simp
  moreover have "le_nat (take 4 ?sent) = length ?sent" using assms(2) by (simp add: le_exact al)
  moreover have "4 \<le> length ?sent" by simp
  ultimately show ?thesis
    unfolding netlink_defs
    by (intro exI [of _ "replicate (16384 - 2 * (4 + length addr)) 0"] exI [of _ ?sent]) simp
qed

text \<open>
  C18: Adding a route opens a socket, sends one message and closes the socket (or hands the message to
  descriptor -1 when there is none), and the kernel, walking the attributes as rtnetlink prescribes,
  reads back exactly the request: a new unicast route in the main table for \<open>dst\<close> with the given
  prefix length (its low 8 bits) through \<open>gw\<close> on the interface.  The copy in \<open>tap_netlink.c\<close> does the
  same; the one in \<open>netlink.c\<close> asks for link scope.
\<close>

theorem add_route_roundtrip:
  "\<exists>sent sent'. add_route k ifc_idx gw dst prefix_len tr = Some (tr @ request_calls k tr sent) \<and>
     tap_add_route k ifc_idx gw dst prefix_len tr = Some (tr @ request_calls k tr sent) \<and>
     netlink_add_route k ifc_idx gw dst prefix_len tr = Some (tr @ request_calls k tr sent') \<and>
     read_request 12 sent = \<lparr>req_len = 52, req_type = RTM_NEWROUTE,
       req_flags = NLM_F_REQUEST + NLM_F_CREATE,
       req_body = [2, ucast prefix_len, 0, 0, RT_TABLE_MAIN, RTPROT_BOOT, RT_SCOPE_UNIVERSE, RTN_UNICAST, 0, 0, 0, 0],
       req_attrs = [(RTA_GATEWAY, le_bytes 4 (unat gw)), (RTA_DST, le_bytes 4 (unat dst)),
                    (RTA_OIF, le_bytes 4 (unat ifc_idx))]\<rparr> \<and>
     read_request 12 sent' = (read_request 12 sent)
       \<lparr>req_body := [2, ucast prefix_len, 0, 0, RT_TABLE_MAIN, RTPROT_BOOT, RT_SCOPE_LINK, RTN_UNICAST, 0, 0, 0, 0]\<rparr>"
proof -
  obtain rest sent rest' sent' where
    m: "route_msg RT_SCOPE_UNIVERSE ifc_idx gw dst prefix_len = Some (sent @ rest)"
      "le_nat (take 4 sent) = length sent" "4 \<le> length sent"
    and m': "route_msg RT_SCOPE_LINK ifc_idx gw dst prefix_len = Some (sent' @ rest')"
      "le_nat (take 4 sent') = length sent'" "4 \<le> length sent'"
    and r: "read_request 12 sent = \<lparr>req_len = 52, req_type = RTM_NEWROUTE,
       req_flags = NLM_F_REQUEST + NLM_F_CREATE,
       req_body = [2, ucast prefix_len, 0, 0, RT_TABLE_MAIN, RTPROT_BOOT, RT_SCOPE_UNIVERSE, RTN_UNICAST, 0, 0, 0, 0],
       req_attrs = [(RTA_GATEWAY, le_bytes 4 (unat gw)), (RTA_DST, le_bytes 4 (unat dst)),
                    (RTA_OIF, le_bytes 4 (unat ifc_idx))]\<rparr>"
    and r': "read_request 12 sent' = (read_request 12 sent)
       \<lparr>req_body := [2, ucast prefix_len, 0, 0, RT_TABLE_MAIN, RTPROT_BOOT, RT_SCOPE_LINK, RTN_UNICAST, 0, 0, 0, 0]\<rparr>"
    using route_request [of RT_SCOPE_UNIVERSE ifc_idx gw dst prefix_len]
      route_request [of RT_SCOPE_LINK ifc_idx gw dst prefix_len] by auto
  show ?thesis
    using send_calls [OF m(2,3), where k = k and tr = tr and rest = rest]
      send_calls [OF m'(2,3), where k = k and tr = tr and rest = rest'] r r'
    by (intro exI [of _ sent] exI [of _ sent'])
      (simp add: add_route_def tap_add_route_def netlink_add_route_def m(1) m'(1))
qed

lemma add_route_calls: "\<exists>sent. add_route k ifc_idx gw dst prefix_len tr = Some (tr @ request_calls k tr sent)"
proof -
  obtain rest sent where m: "route_msg RT_SCOPE_UNIVERSE ifc_idx gw dst prefix_len = Some (sent @ rest)"
    "le_nat (take 4 sent) = length sent" "4 \<le> length sent"
    using route_request [of RT_SCOPE_UNIVERSE ifc_idx gw dst prefix_len] by blast
  then show ?thesis
    using send_calls [OF m(2,3), where k = k and tr = tr and rest = rest]
    by (intro exI [of _ sent]) (simp add: add_route_def)
qed

lemma add_address_calls:
  assumes "addr_msg family ifc_idx addr prefix_len = Some (sent @ rest)"
    "le_nat (take 4 sent) = length sent" "4 \<le> length sent"
  shows "(let (fd, tr) = prepare_socket k tr
          in addr_msg family ifc_idx addr prefix_len \<bind> (\<lambda>req. send_to_socket k fd req tr)) =
    Some (tr @ request_calls k tr sent)"
  using send_calls [OF assms(2,3), where k = k and tr = tr and rest = rest] by (simp add: assms(1))

lemma add_ipv4_calls: "\<exists>sent. add_ipv4 k ifc_idx ipv4 prefix_len tr = Some (tr @ request_calls k tr sent)"
  unfolding add_ipv4_def
  using add_address_calls addr_request [of "le_bytes 4 (unat ipv4)" AF_INET ifc_idx prefix_len] by fastforce

lemma add_ipv6_calls:
  assumes "length ipv6 = 16"
  shows "\<exists>sent. add_ipv6 k ifc_idx ipv6 prefix_len tr = Some (tr @ request_calls k tr sent)"
  unfolding add_ipv6_def
  using add_address_calls addr_request [of ipv6 AF_INET6 ifc_idx prefix_len] assms by fastforce

text \<open>
  Adding an address sends one message in the same way, in which the kernel reads the address twice
  (\<open>IFA_ADDRESS\<close> and \<open>IFA_LOCAL\<close>), the family, the prefix length, the flags and the interface of the
  call, for IPv4 in the three copies of the code and for IPv6 in its two.
\<close>

theorem add_address_roundtrip:
  assumes "length ipv6 = 16"
  shows "\<exists>sent sent6. add_ipv4 k ifc_idx ipv4 prefix_len tr = Some (tr @ request_calls k tr sent) \<and>
     tap_add_ipv4 k ifc_idx ipv4 prefix_len tr = Some (tr @ request_calls k tr sent) \<and>
     netlink_add_ip k ifc_idx ipv4 prefix_len tr = Some (tr @ request_calls k tr sent) \<and>
     add_ipv6 k ifc_idx ipv6 prefix_len tr = Some (tr @ request_calls k tr sent6) \<and>
     tap_add_ipv6 k ifc_idx ipv6 prefix_len tr = Some (tr @ request_calls k tr sent6) \<and>
     read_request 8 sent = \<lparr>req_len = 40, req_type = RTM_NEWADDR,
       req_flags = NLM_F_REQUEST + NLM_F_CREATE + NLM_F_APPEND,
       req_body = [of_nat AF_INET, ucast prefix_len, of_nat (IFA_F_PERMANENT + IFA_F_SECONDARY), 0] @
                  le_bytes 4 (unat ifc_idx),
       req_attrs = [(IFA_ADDRESS, le_bytes 4 (unat ipv4)), (IFA_LOCAL, le_bytes 4 (unat ipv4))]\<rparr> \<and>
     read_request 8 sent6 = \<lparr>req_len = 64, req_type = RTM_NEWADDR,
       req_flags = NLM_F_REQUEST + NLM_F_CREATE + NLM_F_APPEND,
       req_body = [of_nat AF_INET6, ucast prefix_len, of_nat (IFA_F_PERMANENT + IFA_F_SECONDARY), 0] @
                  le_bytes 4 (unat ifc_idx),
       req_attrs = [(IFA_ADDRESS, ipv6), (IFA_LOCAL, ipv6)]\<rparr>"
proof -
  have 4: "length (le_bytes 4 (unat ipv4)) mod 4 = 0" "length (le_bytes 4 (unat ipv4)) \<le> 4000"
    and 6: "length ipv6 mod 4 = 0" "length ipv6 \<le> 4000" and all: "take 16 ipv6 = ipv6"
    using assms by simp_all
  from addr_request [OF 4, of AF_INET ifc_idx prefix_len] obtain rest sent
    where m: "addr_msg AF_INET ifc_idx (le_bytes 4 (unat ipv4)) prefix_len = Some (sent @ rest)"
      "le_nat (take 4 sent) = length sent" "4 \<le> length sent"
    and r: "read_request 8 sent = \<lparr>req_len = 40, req_type = RTM_NEWADDR,
       req_flags = NLM_F_REQUEST + NLM_F_CREATE + NLM_F_APPEND,
       req_body = [of_nat AF_INET, ucast prefix_len, of_nat (IFA_F_PERMANENT + IFA_F_SECONDARY), 0] @
                  le_bytes 4 (unat ifc_idx),
       req_attrs = [(IFA_ADDRESS, le_bytes 4 (unat ipv4)), (IFA_LOCAL, le_bytes 4 (unat ipv4))]\<rparr>" by auto
  from addr_request [OF 6, of AF_INET6 ifc_idx prefix_len] obtain rest6 sent6
    where m6: "addr_msg AF_INET6 ifc_idx ipv6 prefix_len = Some (sent6 @ rest6)"
      "le_nat (take 4 sent6) = length sent6" "4 \<le> length sent6"
    and r6: "read_request 8 sent6 = \<lparr>req_len = 64, req_type = RTM_NEWADDR,
       req_flags = NLM_F_REQUEST + NLM_F_CREATE + NLM_F_APPEND,
       req_body = [of_nat AF_INET6, ucast prefix_len, of_nat (IFA_F_PERMANENT + IFA_F_SECONDARY), 0] @
                  le_bytes 4 (unat ifc_idx),
       req_attrs = [(IFA_ADDRESS, ipv6), (IFA_LOCAL, ipv6)]\<rparr>" using assms by auto
  note calls = add_address_calls [OF m, where k = k and tr = tr] add_address_calls [OF m6, where k = k and tr = tr]
  show ?thesis
    unfolding add_ipv4_def tap_add_ipv4_def netlink_add_ip_def add_ipv6_def tap_add_ipv6_def all
    by (intro exI [of _ sent] exI [of _ sent6] conjI r r6 calls)
qed

theorem add_address_roundtrip_witness:
  "\<exists>sent sent6. add_ipv4 (\<lambda>tr c. (- 1, [])) 3 7 24 [] = Some (request_calls (\<lambda>tr c. (- 1, [])) [] sent) \<and>
     read_request 8 sent6 = \<lparr>req_len = 64, req_type = RTM_NEWADDR,
       req_flags = NLM_F_REQUEST + NLM_F_CREATE + NLM_F_APPEND,
       req_body = [of_nat AF_INET6, 24, of_nat (IFA_F_PERMANENT + IFA_F_SECONDARY), 0] @ le_bytes 4 3,
       req_attrs = [(IFA_ADDRESS, [0xfe, 0x80, 0, 0, 0, 0, 0, 0, 0, 0, 0, 0, 0, 0, 0, 1]),
                    (IFA_LOCAL, [0xfe, 0x80, 0, 0, 0, 0, 0, 0, 0, 0, 0, 0, 0, 0, 0, 1])]\<rparr>"
  using add_address_roundtrip [of "[0xfe, 0x80, 0, 0, 0, 0, 0, 0, 0, 0, 0, 0, 0, 0, 0, 1]"
      "\<lambda>tr c. (- 1, [])" 3 7 24 "[]"] by auto

end
