(* ===== verification/Net_Setup.thy ===== *)
theory Net_Setup
  imports Netlink
begin

text \<open>
  The configuration of a network interface by ioctl and netlink: \<open>set_mac_mtu\<close>, \<open>setup_ip\<close> and
  \<open>setup_routes\<close> of \<open>src/src/ext/ext_netlink.c\<close>.
\<close>

section \<open>The interface request\<close>

text \<open>
  \<open>struct ifreq\<close> is 40 bytes: the name of the interface (16) and a union (24) that holds the index, the
  flags, the MTU or a socket address, whose family is at its offset 0, whose hardware address at 2
  and whose IPv4 address at 4.
\<close>

type_synonym ifreq = "u8 list"

definition ifr_store :: "ifreq \<Rightarrow> nat \<Rightarrow> u8 list \<Rightarrow> ifreq" where
  "ifr_store ifr off d = take (16 + off) ifr @ d @ drop (16 + off + length d) ifr"

definition ifr_ifindex :: "ifreq \<Rightarrow> u32" where
  "ifr_ifindex ifr = of_nat (le_nat (take 4 (drop 16 ifr)))"

definition ifr_flags :: "ifreq \<Rightarrow> nat" where
  "ifr_flags ifr = le_nat (take 2 (drop 16 ifr))"

text \<open>\<open>memset\<close> and \<open>strcpy (ifr.ifr_name, name)\<close>, which needs room for the terminating NUL.\<close>

definition ifr_named :: "u8 list \<Rightarrow> ifreq option" where
  "ifr_named name = (if length name < 16 then Some (name @ replicate (40 - length name) 0) else None)"

definition ioctl :: "kernel \<Rightarrow> int \<Rightarrow> ioctl_request \<Rightarrow> ifreq \<Rightarrow> trace \<Rightarrow> int \<times> ifreq \<times> trace" where
  "ioctl k s request ifr tr =
     (let (ret, out, tr) = syscall k (Ioctl s request ifr) tr in (ret, overlay out ifr, tr))"

text \<open>\<open>if (ioctl (s, request, ifr)) perror_exit (...)\<close>.\<close>

definition ioctl_or_exit :: "kernel \<Rightarrow> int \<Rightarrow> ioctl_request \<Rightarrow> ifreq \<Rightarrow> trace \<Rightarrow> ifreq outcome" where
  "ioctl_or_exit k s request ifr tr =
     (let (ret, ifr, tr) = ioctl k s request ifr tr in if ret \<noteq> 0 then Exit tr else Return ifr tr)"

definition ARPHRD_ETHER :: nat where "ARPHRD_ETHER = 1"
definition MASK :: u32 where "MASK = 0xfcffffff"

text \<open>The parser of the C library, which writes nothing when the text is not an address, is a parameter.\<close>

definition inet_pton6 :: "(char list \<Rightarrow> u8 list option) \<Rightarrow> char list \<Rightarrow> u8 list \<Rightarrow> u8 list" where
  "inet_pton6 inet_pton ipv6 buf = (case inet_pton ipv6 of None \<Rightarrow> buf | Some a \<Rightarrow> overlay a buf)"

section \<open>Hardware address and MTU\<close>

definition set_mac_mtu :: "kernel \<Rightarrow> int \<Rightarrow> ifreq \<Rightarrow> u64 \<Rightarrow> u32 \<Rightarrow> trace \<Rightarrow> ifreq outcome" where
  "set_mac_mtu k s ifr mac mtu tr =
     and_then (ioctl_or_exit k s SIOCGIFINDEX ifr tr) (\<lambda>ifr tr.
     and_then
       (if mac \<noteq> 0 then
          let ifr = ifr_store ifr 2 (le_bytes 8 (unat mac));
              ifr = ifr_store ifr 0 (le_bytes 2 ARPHRD_ETHER)
          in ioctl_or_exit k s SIOCSIFHWADDR ifr tr
        else Return ifr tr) (\<lambda>ifr tr.
     if mtu \<noteq> 0 then
       let ifr = ifr_store ifr 0 (le_bytes 4 (unat mtu))
       in ioctl_or_exit k s SIOCSIFMTU ifr tr
     else Return ifr tr))"

section \<open>Addresses\<close>

definition lift_trace :: "'a \<Rightarrow> trace option \<Rightarrow> 'a outcome" where
  "lift_trace a m = (case m of None \<Rightarrow> Undefined | Some tr \<Rightarrow> Return a tr)"

definition set_in_addr :: "kernel \<Rightarrow> int \<Rightarrow> ioctl_request \<Rightarrow> u32 \<Rightarrow> ifreq \<Rightarrow> trace \<Rightarrow> ifreq outcome" where
  "set_in_addr k s request a ifr tr =
     ioctl_or_exit k s request (ifr_store ifr 4 (le_bytes 4 (unat a))) tr"

definition setup_ip :: "kernel \<Rightarrow> int \<Rightarrow> ifreq \<Rightarrow> u32 \<Rightarrow> u32 \<Rightarrow> u8 list option \<Rightarrow> trace \<Rightarrow> ifreq outcome" where
  "setup_ip k s ifr ipv4 loopback ipv6 tr =
     and_then
       (if ipv4 \<noteq> 0 then
          and_then (ioctl_or_exit k s SIOCGIFINDEX ifr tr) (\<lambda>ifr tr.
          let ifr = ifr_store ifr 0 (le_bytes 2 AF_INET) in
          and_then (set_in_addr k s SIOCSIFADDR ipv4 ifr tr) (\<lambda>ifr tr.
          and_then (set_in_addr k s SIOCSIFDSTADDR (ipv4 XOR NOT MASK) ifr tr) (\<lambda>ifr tr.
          and_then (set_in_addr k s SIOCSIFBRDADDR (ipv4 OR NOT MASK) ifr tr) (\<lambda>ifr tr.
          set_in_addr k s SIOCSIFNETMASK MASK ifr tr))))
        else Return ifr tr) (\<lambda>ifr tr.
     and_then (ioctl_or_exit k s SIOCGIFINDEX ifr tr) (\<lambda>ifr tr.
     and_then
       (if loopback \<noteq> 0 then lift_trace () (add_ipv4 k (ifr_ifindex ifr) loopback 32 tr)
        else Return () tr) (\<lambda>_ tr.
     case ipv6 of None \<Rightarrow> Return ifr tr
     | Some a \<Rightarrow> lift_trace ifr (add_ipv6 k (ifr_ifindex ifr) a 64 tr))))"

section \<open>Routes\<close>

text \<open>
  The loop of \<open>setup_routes\<close> from \<open>i\<close>: the bound is compared as \<open>uint32_t\<close>; an \<open>int\<close> beyond
  \<open>2 ^ 31 - 1\<close> and a read outside the array are undefined.
\<close>

function routes_loop :: "kernel \<Rightarrow> u32 \<Rightarrow> u32 list \<Rightarrow> u32 \<Rightarrow> u32 \<Rightarrow> nat \<Rightarrow> trace \<Rightarrow> unit outcome" where
  "routes_loop k ifindex routes nb_routes gw i tr =
     (if of_nat i < nb_routes - 1 \<and> i < 2 ^ 31 then
        (case (arr_get routes i, arr_get routes (i + 1)) of
           (Some dst, Some prefix_len) \<Rightarrow>
             (case add_route k ifindex gw dst prefix_len tr of
                None \<Rightarrow> Undefined
              | Some tr \<Rightarrow>
                  if 2 ^ 31 \<le> i + 2 then Undefined
                  else routes_loop k ifindex routes nb_routes gw (i + 2) tr)
         | _ \<Rightarrow> Undefined)
      else Return () tr)"
  by pat_completeness auto
termination by (relation "measure (\<lambda>(k, ifindex, routes, nb_routes, gw, i, tr). 2 ^ 31 - i)") auto

declare routes_loop.simps [simp del]

definition setup_routes :: "kernel \<Rightarrow> u32 \<Rightarrow> u32 list option \<Rightarrow> u32 \<Rightarrow> u32 \<Rightarrow> trace \<Rightarrow> unit outcome" where
  "setup_routes k ifindex routes nb_routes gw tr =
     (case routes of
        Some rs \<Rightarrow> if nb_routes \<noteq> 0 then routes_loop k ifindex rs nb_routes gw 0 tr else Return () tr
      | None \<Rightarrow> Return () tr)"

section \<open>What a run asked of the kernel\<close>

text \<open>The part of the union that a request reads.\<close>

fun ioctl_arg :: "ioctl_request \<Rightarrow> ifreq \<Rightarrow> u8 list" where
  "ioctl_arg SIOCSIFHWADDR ifr = take 10 (drop 16 ifr)"
| "ioctl_arg SIOCSIFMTU ifr = take 4 (drop 16 ifr)"
| "ioctl_arg SIOCSIFFLAGS ifr = take 2 (drop 16 ifr)"
| "ioctl_arg TUNSETIFF ifr = take 2 (drop 16 ifr)"
| "ioctl_arg SIOCSIFADDR ifr = take 4 (drop 20 ifr)"
| "ioctl_arg SIOCSIFDSTADDR ifr = take 4 (drop 20 ifr)"
| "ioctl_arg SIOCSIFBRDADDR ifr = take 4 (drop 20 ifr)"
| "ioctl_arg SIOCSIFNETMASK ifr = take 4 (drop 20 ifr)"
| "ioctl_arg _ ifr = []"

fun requests :: "trace \<Rightarrow> (ioctl_request \<times> u8 list) list" where
  "requests [] = []"
| "requests (Ioctl s r ifr # tr) = (r, ioctl_arg r ifr) # requests tr"
| "requests (_ # tr) = requests tr"

lemma requests_append [simp]: "requests (tr @ tr') = requests tr @ requests tr'"
  by (induction tr rule: requests.induct) simp_all

text \<open>The ioctls whose answer must be 0; that of \<open>TUNSETIFF\<close> must only not be negative.\<close>

fun is_ioctl :: "sys_call \<Rightarrow> bool" where
  "is_ioctl (Ioctl s r ifr) = (r \<noteq> TUNSETIFF)"
| "is_ioctl _ = False"

lemma requests_no_ioctl: "requests (request_calls k tr sent) = []"
  by (simp add: request_calls_def Let_def)

lemma answered_request_calls: "answered k is_ioctl tr (tr @ request_calls k tr sent)"
  by (rule answered_append) (simp add: request_calls_def Let_def)

text \<open>A run from \<open>tr\<close> to \<open>tr'\<close> that made the requests \<open>rs\<close>, all of which succeeded.\<close>

definition succeeded :: "kernel \<Rightarrow> trace \<Rightarrow> (ioctl_request \<times> u8 list) list \<Rightarrow> trace \<Rightarrow> bool" where
  "succeeded k tr rs tr' \<longleftrightarrow> (\<exists>cs. tr' = tr @ cs \<and> requests cs = rs) \<and> answered k is_ioctl tr tr'"

lemma succeeded_refl [simp]: "succeeded k tr [] tr"
  by (simp add: succeeded_def)

lemma succeeded_trans:
  "succeeded k tr rs tr' \<Longrightarrow> succeeded k tr' rs' tr'' \<Longrightarrow> succeeded k tr (rs @ rs') tr''"
  by (auto simp: succeeded_def intro: answered_trans)

lemma succeeded_call: "\<not> is_ioctl c \<Longrightarrow> requests [c] = rs \<Longrightarrow> succeeded k tr rs (tr @ [c])"
  by (auto simp: succeeded_def answered_snoc)

lemma succeeded_request: "succeeded k tr [] (tr @ request_calls k tr sent)"
  by (simp add: succeeded_def requests_no_ioctl answered_request_calls)

lemma ifr_store_length [simp]: "16 + off + length d \<le> length ifr \<Longrightarrow> length (ifr_store ifr off d) = length ifr"
  by (simp add: ifr_store_def)

lemma ifr_named_length: "ifr_named name = Some ifr \<Longrightarrow> length ifr = 40"
  by (auto simp: ifr_named_def split: if_splits)

lemma ioctl_or_exit_Return:
  "ioctl_or_exit k s r ifr tr = Return ifr' tr' \<longleftrightarrow>
   (\<exists>out. k tr (Ioctl s r ifr) = (0, out) \<and> ifr' = overlay out ifr \<and> tr' = tr @ [Ioctl s r ifr])"
  by (auto simp: ioctl_or_exit_def ioctl_def syscall_def Let_def split: prod.splits if_splits)

lemma ioctl_succeeded:
  "ioctl_or_exit k s r ifr tr = Return ifr' tr' \<Longrightarrow>
   succeeded k tr [(r, ioctl_arg r ifr)] tr' \<and> length ifr' = length ifr"
  by (auto simp: ioctl_or_exit_Return succeeded_def answered_snoc)

lemma set_in_addr_succeeded:
  assumes "set_in_addr k s r a ifr tr = Return ifr' tr'" "length ifr = 40"
    "r \<in> {SIOCSIFADDR, SIOCSIFDSTADDR, SIOCSIFBRDADDR, SIOCSIFNETMASK}"
  shows "succeeded k tr [(r, le_bytes 4 (unat a))] tr' \<and> length ifr' = 40"
proof -
  have "ioctl_arg r (ifr_store ifr 4 (le_bytes 4 (unat a))) = le_bytes 4 (unat a)"
    using assms(2,3) by (auto simp: ifr_store_def)
  then show ?thesis using ioctl_succeeded assms by (fastforce simp: set_in_addr_def)
qed

section \<open>Properties\<close>

lemma set_mac_mtu_succeeded:
  assumes "set_mac_mtu k s ifr mac mtu tr = Return ifr' tr'" "length ifr = 40"
  shows "succeeded k tr ((SIOCGIFINDEX, []) #
      (if mac \<noteq> 0 then [(SIOCSIFHWADDR, le_bytes 2 ARPHRD_ETHER @ le_bytes 8 (unat mac))] else []) @
      (if mtu \<noteq> 0 then [(SIOCSIFMTU, le_bytes 4 (unat mtu))] else [])) tr' \<and> length ifr' = 40"
proof -
  have hw: "ioctl_arg SIOCSIFHWADDR (ifr_store (ifr_store i 2 (le_bytes 8 (unat mac))) 0 (le_bytes 2 ARPHRD_ETHER)) =
      le_bytes 2 ARPHRD_ETHER @ le_bytes 8 (unat mac)" if "length i = 40" for i
    using that by (simp add: ifr_store_def)
  have mt: "ioctl_arg SIOCSIFMTU (ifr_store i 0 (le_bytes 4 (unat mtu))) = le_bytes 4 (unat mtu)"
    if "length i = 40" for i
    using that by (simp add: ifr_store_def)
  obtain i1 t1 i2 t2 where 1: "ioctl_or_exit k s SIOCGIFINDEX ifr tr = Return i1 t1"
    and 2: "(if mac \<noteq> 0 then ioctl_or_exit k s SIOCSIFHWADDR
          (ifr_store (ifr_store i1 2 (le_bytes 8 (unat mac))) 0 (le_bytes 2 ARPHRD_ETHER)) t1
        else Return i1 t1) = Return i2 t2"
    and 3: "(if mtu \<noteq> 0 then ioctl_or_exit k s SIOCSIFMTU (ifr_store i2 0 (le_bytes 4 (unat mtu))) t2
        else Return i2 t2) = Return ifr' tr'"
    using assms(1) unfolding set_mac_mtu_def and_then_Return Let_def by blast
  have s1: "succeeded k tr [(SIOCGIFINDEX, [])] t1" "length i1 = 40"
    using ioctl_succeeded [OF 1] assms(2) by simp_all
  have s2: "succeeded k t1 (if mac \<noteq> 0 then [(SIOCSIFHWADDR, le_bytes 2 ARPHRD_ETHER @ le_bytes 8 (unat mac))] else []) t2"
    "length i2 = 40"
    using 2 s1(2) ioctl_succeeded hw by (fastforce split: if_splits)+
  have s3: "succeeded k t2 (if mtu \<noteq> 0 then [(SIOCSIFMTU, le_bytes 4 (unat mtu))] else []) tr'"
    "length ifr' = 40"
    using 3 s2(2) ioctl_succeeded mt by (fastforce split: if_splits)+
  show ?thesis using succeeded_trans [OF s1(1) succeeded_trans [OF s2(1) s3(1)]] s3(2) by simp
qed

lemma setup_ip_netlink:
  assumes "and_then (if loopback \<noteq> 0 then lift_trace () (add_ipv4 k idx loopback 32 tr) else Return () tr)
      (\<lambda>_ tr. case ipv6 of None \<Rightarrow> Return ifr tr | Some a \<Rightarrow> lift_trace ifr (add_ipv6 k idx a 64 tr)) = Return ifr' tr'"
    "\<forall>a. ipv6 = Some a \<longrightarrow> length a = 16"
  shows "succeeded k tr [] tr' \<and> ifr' = ifr"
proof -
  obtain u t where 1: "(if loopback \<noteq> 0 then lift_trace () (add_ipv4 k idx loopback 32 tr) else Return () tr) = Return u t"
    and 2: "(case ipv6 of None \<Rightarrow> Return ifr t | Some a \<Rightarrow> lift_trace ifr (add_ipv6 k idx a 64 t)) = Return ifr' tr'"
    using assms(1) unfolding and_then_Return by blast
  have "succeeded k tr [] t"
    using 1 add_ipv4_calls [of k idx loopback 32 tr] succeeded_request [of k tr]
    by (auto simp: lift_trace_def split: if_splits)
  moreover have "succeeded k t [] tr'"
    using 2 add_ipv6_calls [of _ k idx 64 t] assms(2) succeeded_request [of k t]
    by (fastforce simp: lift_trace_def split: option.splits)
  ultimately have "succeeded k tr [] tr'" using succeeded_trans by fastforce
  then show ?thesis using 2 by (auto simp: lift_trace_def split: option.splits)
qed

lemma setup_ip_succeeded:
  assumes "setup_ip k s ifr ipv4 loopback ipv6 tr = Return ifr' tr'" "length ifr = 40"
    "\<forall>a. ipv6 = Some a \<longrightarrow> length a = 16"
  shows "succeeded k tr
      ((if ipv4 = 0 then []
        else [(SIOCGIFINDEX, []), (SIOCSIFADDR, le_bytes 4 (unat ipv4)),
              (SIOCSIFDSTADDR, le_bytes 4 (unat (ipv4 XOR NOT MASK))),
              (SIOCSIFBRDADDR, le_bytes 4 (unat (ipv4 OR NOT MASK))),
              (SIOCSIFNETMASK, le_bytes 4 (unat MASK))]) @ [(SIOCGIFINDEX, [])]) tr'"
proof -
  obtain i1 t1 i2 t2 where
    1: "(if ipv4 \<noteq> 0 then
          and_then (ioctl_or_exit k s SIOCGIFINDEX ifr tr) (\<lambda>ifr tr.
          let ifr = ifr_store ifr 0 (le_bytes 2 AF_INET) in
          and_then (set_in_addr k s SIOCSIFADDR ipv4 ifr tr) (\<lambda>ifr tr.
          and_then (set_in_addr k s SIOCSIFDSTADDR (ipv4 XOR NOT MASK) ifr tr) (\<lambda>ifr tr.
          and_then (set_in_addr k s SIOCSIFBRDADDR (ipv4 OR NOT MASK) ifr tr) (\<lambda>ifr tr.
          set_in_addr k s SIOCSIFNETMASK MASK ifr tr))))
        else Return ifr tr) = Return i1 t1"
    and 2: "ioctl_or_exit k s SIOCGIFINDEX i1 t1 = Return i2 t2"
    and 3: "and_then (if loopback \<noteq> 0 then lift_trace () (add_ipv4 k (ifr_ifindex i2) loopback 32 t2) else Return () t2)
      (\<lambda>_ tr. case ipv6 of None \<Rightarrow> Return i2 tr | Some a \<Rightarrow> lift_trace i2 (add_ipv6 k (ifr_ifindex i2) a 64 tr)) = Return ifr' tr'"
    using assms(1) unfolding setup_ip_def and_then_Return by blast
  have s1: "succeeded k tr (if ipv4 = 0 then []
        else [(SIOCGIFINDEX, []), (SIOCSIFADDR, le_bytes 4 (unat ipv4)),
              (SIOCSIFDSTADDR, le_bytes 4 (unat (ipv4 XOR NOT MASK))),
              (SIOCSIFBRDADDR, le_bytes 4 (unat (ipv4 OR NOT MASK))),
              (SIOCSIFNETMASK, le_bytes 4 (unat MASK))]) t1"
  proof (cases "ipv4 = 0")
    case False
    then obtain a ta b tb c tc d td where
      g: "ioctl_or_exit k s SIOCGIFINDEX ifr tr = Return a ta"
      and A: "set_in_addr k s SIOCSIFADDR ipv4 (ifr_store a 0 (le_bytes 2 AF_INET)) ta = Return b tb"
      and D: "set_in_addr k s SIOCSIFDSTADDR (ipv4 XOR NOT MASK) b tb = Return c tc"
      and B: "set_in_addr k s SIOCSIFBRDADDR (ipv4 OR NOT MASK) c tc = Return d td"
      and N: "set_in_addr k s SIOCSIFNETMASK MASK d td = Return i1 t1"
      using 1 unfolding and_then_Return Let_def by (simp only: if_True not_False_eq_True) (unfold and_then_Return, blast)
    have sg: "succeeded k tr [(SIOCGIFINDEX, [])] ta" "length (ifr_store a 0 (le_bytes 2 AF_INET)) = 40"
      using ioctl_succeeded [OF g] assms(2) by simp_all
    have sA: "succeeded k ta [(SIOCSIFADDR, le_bytes 4 (unat ipv4))] tb" "length b = 40"
      using set_in_addr_succeeded [OF A sg(2)] by simp_all
    have sD: "succeeded k tb [(SIOCSIFDSTADDR, le_bytes 4 (unat (ipv4 XOR NOT MASK)))] tc" "length c = 40"
      using set_in_addr_succeeded [OF D sA(2)] by simp_all
    have sB: "succeeded k tc [(SIOCSIFBRDADDR, le_bytes 4 (unat (ipv4 OR NOT MASK)))] td" "length d = 40"
      using set_in_addr_succeeded [OF B sD(2)] by simp_all
    have "succeeded k td [(SIOCSIFNETMASK, le_bytes 4 (unat MASK))] t1"
      using set_in_addr_succeeded [OF N sB(2)] by simp
    from succeeded_trans [OF sg(1) succeeded_trans [OF sA(1) succeeded_trans [OF sD(1) succeeded_trans [OF sB(1) this]]]]
    show ?thesis using False by simp
  qed (use 1 in simp)
  have s2: "succeeded k t1 [(SIOCGIFINDEX, [])] t2" using ioctl_succeeded [OF 2] by simp
  have s3: "succeeded k t2 [] tr'" using setup_ip_netlink [OF 3 assms(3)] by simp
  show "succeeded k tr
      ((if ipv4 = 0 then []
        else [(SIOCGIFINDEX, []), (SIOCSIFADDR, le_bytes 4 (unat ipv4)),
              (SIOCSIFDSTADDR, le_bytes 4 (unat (ipv4 XOR NOT MASK))),
              (SIOCSIFBRDADDR, le_bytes 4 (unat (ipv4 OR NOT MASK))),
              (SIOCSIFNETMASK, le_bytes 4 (unat MASK))]) @ [(SIOCGIFINDEX, [])]) tr'"
    using succeeded_trans [OF s1 succeeded_trans [OF s2 s3]] by simp
qed

text \<open>
  C39: When \<open>setup_ip\<close> returns, every ioctl it made succeeded, and for a non-zero address they set, in
  this order, the address, the point-to-point peer, the broadcast address and the netmask of a
  network of four addresses.  The peer lies in the same network, its peer is the address again, and
  the broadcast address has all host bits set.
\<close>

theorem setup_ip_addresses:
  assumes "setup_ip k s ifr ipv4 loopback ipv6 tr = Return ifr' tr'" "length ifr = 40"
    "\<forall>a. ipv6 = Some a \<longrightarrow> length a = 16"
  shows "\<exists>peer bcast. succeeded k tr
      ((if ipv4 = 0 then []
        else [(SIOCGIFINDEX, []), (SIOCSIFADDR, le_bytes 4 (unat ipv4)),
              (SIOCSIFDSTADDR, le_bytes 4 (unat peer)), (SIOCSIFBRDADDR, le_bytes 4 (unat bcast)),
              (SIOCSIFNETMASK, le_bytes 4 (unat MASK))]) @ [(SIOCGIFINDEX, [])]) tr' \<and>
    peer \<noteq> ipv4 \<and> peer AND MASK = ipv4 AND MASK \<and> peer XOR NOT MASK = ipv4 \<and>
    bcast AND MASK = ipv4 AND MASK \<and> bcast AND NOT MASK = NOT MASK"
proof (intro exI conjI)
  show "succeeded k tr
      ((if ipv4 = 0 then []
        else [(SIOCGIFINDEX, []), (SIOCSIFADDR, le_bytes 4 (unat ipv4)),
              (SIOCSIFDSTADDR, le_bytes 4 (unat (ipv4 XOR NOT MASK))),
              (SIOCSIFBRDADDR, le_bytes 4 (unat (ipv4 OR NOT MASK))),
              (SIOCSIFNETMASK, le_bytes 4 (unat MASK))]) @ [(SIOCGIFINDEX, [])]) tr'"
    by (rule setup_ip_succeeded [OF assms])
  have "ipv4 XOR (ipv4 XOR NOT MASK) = NOT MASK" by (auto intro: bit_word_eqI simp: bit_simps)
  moreover have "NOT MASK \<noteq> 0" by (simp add: MASK_def)
  ultimately show "ipv4 XOR NOT MASK \<noteq> ipv4" by (metis xor_self_eq)
  show "(ipv4 XOR NOT MASK) AND MASK = ipv4 AND MASK" "(ipv4 XOR NOT MASK) XOR NOT MASK = ipv4"
    "(ipv4 OR NOT MASK) AND MASK = ipv4 AND MASK" "(ipv4 OR NOT MASK) AND NOT MASK = NOT MASK"
    by (auto intro: bit_word_eqI simp: bit_simps)
qed

lemma ioctl_or_exit_ok: "ioctl_or_exit (\<lambda>tr c. (0, [])) s r ifr tr = Return ifr (tr @ [Ioctl s r ifr])"
  by (simp add: ioctl_or_exit_Return)

theorem setup_ip_addresses_witness:
  "\<exists>ifr tr peer. setup_ip (\<lambda>tr c. (0, [])) 5 (replicate 40 0) 0x0101a8c0 0 None [] = Return ifr tr \<and>
     peer XOR NOT MASK = 0x0101a8c0 \<and>
     (SIOCSIFDSTADDR, le_bytes 4 (unat peer)) \<in> set (requests tr)"
proof -
  obtain ifr tr where r: "setup_ip (\<lambda>tr c. (0, [])) 5 (replicate 40 0) 0x0101a8c0 0 None [] = Return ifr tr"
    by (simp add: setup_ip_def set_in_addr_def ioctl_or_exit_ok Let_def)
  from setup_ip_addresses [OF r] show ?thesis
    using r by (auto simp: succeeded_def)
qed

section \<open>Routes\<close>

fun route_pairs :: "u32 list \<Rightarrow> (u32 \<times> u32) list" where
  "route_pairs (dst # prefix_len # rs) = (dst, prefix_len) # route_pairs rs"
| "route_pairs _ = []"

fun add_routes :: "kernel \<Rightarrow> u32 \<Rightarrow> u32 \<Rightarrow> (u32 \<times> u32) list \<Rightarrow> trace \<Rightarrow> trace option" where
  "add_routes k ifindex gw [] tr = Some tr"
| "add_routes k ifindex gw ((dst, prefix_len) # ps) tr = do {
     tr \<leftarrow> add_route k ifindex gw dst prefix_len tr;
     add_routes k ifindex gw ps tr }"

lemma routes_loop_pairs:
  assumes "nb_routes \<noteq> 0" "unat nb_routes \<le> length rs" "unat nb_routes < 2 ^ 31" "i \<le> unat nb_routes + 1"
  shows "\<exists>tr'. routes_loop k ifindex rs nb_routes gw i tr = Return () tr' \<and>
     add_routes k ifindex gw (route_pairs (drop i (take (unat nb_routes) rs))) tr = Some tr'"
  using assms(4)
proof (induction "unat nb_routes + 1 - i" arbitrary: i tr rule: less_induct)
  case less
  have i: "unat (of_nat i :: u32) = i" using less.prems assms(3) by (simp add: unsigned_of_nat take_bit_nat_eq_self)
  have nb: "unat (nb_routes - 1) = unat nb_routes - 1"
    using assms(1) by (simp add: unat_minus_one)
  have pos: "0 < unat nb_routes" using assms(1) by (simp add: unat_gt_0)
  have guard: "of_nat i < nb_routes - 1 \<longleftrightarrow> i + 1 < unat nb_routes"
    using pos by (simp add: word_less_nat_alt i nb less_diff_conv)
  show ?case
  proof (cases "i + 1 < unat nb_routes")
    case True
    have dr: "drop i (take (unat nb_routes) rs) = rs ! i # rs ! (i + 1) # drop (i + 2) (take (unat nb_routes) rs)"
      using True assms(2) by (simp add: Cons_nth_drop_Suc [symmetric])
    obtain sent where s: "add_route k ifindex gw (rs ! i) (rs ! (i + 1)) tr = Some (tr @ request_calls k tr sent)"
      using add_route_calls by blast
    obtain tr' where "routes_loop k ifindex rs nb_routes gw (i + 2) (tr @ request_calls k tr sent) = Return () tr'"
      "add_routes k ifindex gw (route_pairs (drop (i + 2) (take (unat nb_routes) rs))) (tr @ request_calls k tr sent) = Some tr'"
    proof -
      have "unat nb_routes + 1 - (i + 2) < unat nb_routes + 1 - i" "i + 2 \<le> unat nb_routes + 1" using True by simp_all
      from less.hyps [OF this] show ?thesis using that by blast
    qed
    then show ?thesis
      using True guard s assms(2,3) by (subst routes_loop.simps) (simp add: dr)
  next
    case False
    have "route_pairs (drop i (take (unat nb_routes) rs)) = []"
    proof -
      have "length (drop i (take (unat nb_routes) rs)) < 2" using False by simp
      then show ?thesis by (cases "drop i (take (unat nb_routes) rs)" rule: route_pairs.cases) simp_all
    qed
    then show ?thesis using False guard by (subst routes_loop.simps) simp
  qed
qed

text \<open>
  C40: The routes of a call are sent one request per pair of destination and prefix length, in order,
  an odd last entry being ignored and nothing being read outside the array, for up to \<open>2 ^ 31 - 1\<close>
  entries; with no array or no entries nothing is sent.
\<close>

theorem setup_routes_spec:
  assumes "unat nb_routes \<le> length rs" "unat nb_routes < 2 ^ 31"
  shows "\<exists>tr'. setup_routes k ifindex (Some rs) nb_routes gw tr = Return () tr' \<and>
      add_routes k ifindex gw (route_pairs (take (unat nb_routes) rs)) tr = Some tr' \<and>
      setup_routes k ifindex None nb_routes gw tr = Return () tr"
  using routes_loop_pairs [OF _ assms, of 0 k ifindex gw tr]
  by (cases "nb_routes = 0") (auto simp: setup_routes_def)

theorem setup_routes_spec_witness:
  "\<exists>tr. setup_routes (\<lambda>tr c. (0, [])) 2 (Some [0x0a, 8, 0x0b, 16, 7]) 5 9 [] = Return () tr \<and>
     add_routes (\<lambda>tr c. (0, [])) 2 9 [(0x0a, 8), (0x0b, 16)] [] = Some tr"
  using setup_routes_spec [of 5 "[0x0a, 8, 0x0b, 16, 7]" "\<lambda>tr c. (0, [])" 2 9 "[]"]
  by (auto simp del: add_routes.simps)

end
