(* ===== verification/Tap_Kni.thy ===== *)
theory Tap_Kni
  imports Net_Setup
begin

text \<open>
  The two kinds of interface to the kernel's network stack: tap devices (\<open>src/src/ext/tap.c\<close>) and
  kernel NIC interfaces (\<open>src/src/ext/kni.c\<close>).
\<close>

section \<open>Tap devices\<close>

definition AF_INET_sock :: int where "AF_INET_sock = 2"
definition SOCK_DGRAM :: int where "SOCK_DGRAM = 2"
definition EINTR :: int where "EINTR = 4"
definition FD_SETSIZE :: int where "FD_SETSIZE = 1024"
definition O_WRONLY :: nat where "O_WRONLY = 1"
definition O_RDWR :: nat where "O_RDWR = 2"
definition O_NONBLOCK :: nat where "O_NONBLOCK = 0x800"
definition IFF_UP :: nat where "IFF_UP = 0x1"
definition IFF_NOARP :: nat where "IFF_NOARP = 0x80"
definition IFF_PROMISC :: nat where "IFF_PROMISC = 0x100"
definition IFF_TAP :: nat where "IFF_TAP = 0x2"
definition IFF_NO_PI :: nat where "IFF_NO_PI = 0x1000"
definition TUN_DEVICE :: string where "TUN_DEVICE = ''/dev/net/tun''"

text \<open>
  The answer of \<open>select\<close> is its result, negated \<open>errno\<close> when it fails, and a non-empty buffer when the
  descriptor is still in the set.  The value is what \<open>tap_read\<close> returns and the bytes read.
\<close>

definition tap_read :: "kernel \<Rightarrow> int \<Rightarrow> int \<Rightarrow> trace \<Rightarrow> (int \<times> u8 list) outcome" where
  "tap_read k tap_fd buf_size tr =
     (if tap_fd < 0 \<or> FD_SETSIZE \<le> tap_fd then Undefined
      else
        let (ret, rd_set, tr) = syscall k (Select tap_fd) tr
        in if ret < 0 then (if ret = - EINTR then Return (0, []) tr else Exit tr)
           else if rd_set \<noteq> [] then
             let (ret, data, tr) = syscall k (Read tap_fd buf_size) tr
             in if ret < 0 then Exit tr else Return (ret, data) tr
           else Return (0, []) tr)"

definition up_flags :: "bool \<Rightarrow> nat" where
  "up_flags rw = (if rw then IFF_UP else IFF_UP + IFF_NOARP + IFF_PROMISC)"

definition tap_create :: "kernel \<Rightarrow> u8 list \<Rightarrow> u64 \<Rightarrow> u32 \<Rightarrow> bool \<Rightarrow> trace \<Rightarrow> int outcome" where
  "tap_create k name mac mtu rw tr =
     (let (fd, _, tr) = syscall k (Open TUN_DEVICE ((if rw then O_RDWR else O_WRONLY) + O_NONBLOCK)) tr
      in if fd < 0 then Exit tr
         else case ifr_named name of
           None \<Rightarrow> Undefined
         | Some ifr \<Rightarrow>
             let ifr = ifr_store ifr 0 (le_bytes 2 (IFF_TAP + IFF_NO_PI));
                 (ret, ifr, tr) = ioctl k fd TUNSETIFF ifr tr
             in if ret < 0 then
                  let (_, _, tr) = syscall k (Close fd) tr in Exit tr
                else
                  let (s, _, tr) = syscall k (Socket AF_INET_sock SOCK_DGRAM 0) tr in
                  and_then (ioctl_or_exit k s SIOCGIFFLAGS ifr tr) (\<lambda>ifr tr.
                  and_then (set_mac_mtu k s ifr mac mtu tr) (\<lambda>ifr tr.
                  and_then (ioctl_or_exit k s SIOCGIFINDEX ifr tr) (\<lambda>ifr tr.
                  let ifr = ifr_store ifr 0 (le_bytes 2 (up_flags rw)) in
                  and_then (ioctl_or_exit k s SIOCSIFFLAGS ifr tr) (\<lambda>ifr tr.
                  let (_, _, tr) = syscall k (Close s) tr in Return fd tr)))))"

definition tap_setup_ip ::
  "kernel \<Rightarrow> u8 list \<Rightarrow> u32 \<Rightarrow> u32 \<Rightarrow> u8 list option \<Rightarrow> u32 list option \<Rightarrow> u32 \<Rightarrow> u32 \<Rightarrow> trace \<Rightarrow> unit outcome" where
  "tap_setup_ip k name ipv4 loopback ipv6 routes nb_routes gw tr =
     (let (s, _, tr) = syscall k (Socket AF_INET_sock SOCK_DGRAM 0) tr
      in case ifr_named name of
           None \<Rightarrow> Undefined
         | Some ifr \<Rightarrow>
             and_then (setup_ip k s ifr ipv4 loopback ipv6 tr) (\<lambda>ifr tr.
             and_then (ioctl_or_exit k s SIOCGIFINDEX ifr tr) (\<lambda>ifr tr.
             and_then (setup_routes k (ifr_ifindex ifr) routes nb_routes gw tr) (\<lambda>_ tr.
             let (_, _, tr) = syscall k (Close s) tr in Return () tr))))"

section \<open>Kernel NIC interfaces\<close>

definition RTE_MAX_ETHPORTS :: nat where "RTE_MAX_ETHPORTS = 32"
definition RTE_KNI_NAMESIZE :: nat where "RTE_KNI_NAMESIZE = 32"
definition MAX_PACKET_SZ :: nat where "MAX_PACKET_SZ = 1600"

text \<open>The callback by which the kernel asks to bring the port up or down.\<close>

definition kni_config_network_interface :: "kernel \<Rightarrow> u16 \<Rightarrow> u8 \<Rightarrow> trace \<Rightarrow> int \<times> trace" where
  "kni_config_network_interface k port_id if_up tr =
     (let (count, _, tr) = syscall k Eth_dev_count tr
      in if int (unat port_id) \<ge> count \<or> unat port_id \<ge> RTE_MAX_ETHPORTS then (- EINVAL, tr)
         else if if_up \<noteq> 0 then
           let (_, _, tr) = syscall k (Eth_dev_stop port_id) tr;
               (ret, _, tr) = syscall k (Eth_dev_start port_id) tr
           in (ret, tr)
         else let (_, _, tr) = syscall k (Eth_dev_stop port_id) tr in (0, tr))"

text \<open>
  \<open>rte_kni_handle_request\<close> runs the callback registered in \<open>ops\<close>, with its \<open>port_id\<close>, for the
  requests that the kernel has queued; the answer to the call lists them, each by its \<open>if_up\<close>.
\<close>

primrec kni_run_callbacks :: "kernel \<Rightarrow> u16 \<Rightarrow> u8 list \<Rightarrow> trace \<Rightarrow> trace" where
  "kni_run_callbacks k port_id [] tr = tr"
| "kni_run_callbacks k port_id (if_up # reqs) tr =
     (let (_, tr) = kni_config_network_interface k port_id if_up tr in kni_run_callbacks k port_id reqs tr)"

definition kni_requests :: "kernel \<Rightarrow> int \<Rightarrow> u16 \<Rightarrow> trace \<Rightarrow> trace" where
  "kni_requests k kni port_id tr =
     (let (_, reqs, tr) = syscall k (Kni_handle_request kni) tr in kni_run_callbacks k port_id reqs tr)"

text \<open>The \<open>for (;;)\<close> of \<open>kni_create\<close>, which waits for the interface; None when it never ends.\<close>

partial_function (option) kni_wait_up ::
    "kernel \<Rightarrow> int \<Rightarrow> u16 \<Rightarrow> int \<Rightarrow> bool \<Rightarrow> ifreq \<Rightarrow> trace \<Rightarrow> (ifreq \<times> trace) option" where
  "kni_wait_up k kni port_id s rw ifr tr =
     (let tr = kni_requests k kni port_id tr;
          (_, ifr, tr) = ioctl k s SIOCGIFFLAGS ifr tr
      in if ifr_flags ifr AND IFF_UP \<noteq> 0 then Some (ifr, tr)
         else
           let ifr = ifr_store ifr 0 (le_bytes 2 (up_flags rw));
               (_, ifr, tr) = ioctl k s SIOCSIFFLAGS ifr tr
           in kni_wait_up k kni port_id s rw ifr tr)"

text \<open>
  The answer to \<open>rte_eth_dev_info_get\<close> is non-zero when the device has a PCI device, whose address (8
  bytes) and identity follow.  The pointer returned is an integer, 0 for NULL.
\<close>

definition kni_conf :: "kernel \<Rightarrow> u8 list \<Rightarrow> u16 \<Rightarrow> u32 \<Rightarrow> bool \<Rightarrow> trace \<Rightarrow> rte_kni_conf \<times> trace" where
  "kni_conf k name port_id lcore_id rw tr =
     (let conf = \<lparr>kni_name = name, kni_core_id = lcore_id, kni_group_id = port_id,
             kni_mbuf_size = MAX_PACKET_SZ, kni_pci_addr = [], kni_pci_id = [], kni_force_bind = 1,
             kni_mac_addr = replicate 6 0, kni_mtu = 0\<rparr>;
          (pci_dev, info, tr) = syscall k (Eth_dev_info_get port_id) tr;
          conf = (if pci_dev \<noteq> 0 then conf\<lparr>kni_pci_addr := take 8 info, kni_pci_id := drop 8 info\<rparr> else conf);
          (conf, tr) =
            (if rw then
               let (_, mac, tr) = syscall k (Eth_macaddr_get port_id) tr
               in (conf\<lparr>kni_mac_addr := overlay mac (kni_mac_addr conf)\<rparr>, tr)
             else (conf, tr));
          (_, mtu, tr) = syscall k (Eth_dev_get_mtu port_id) tr
      in (conf\<lparr>kni_mtu := le_nat (overlay mtu [0, 0])\<rparr>, tr))"

definition kni_create ::
  "kernel \<Rightarrow> u8 list \<Rightarrow> int \<Rightarrow> u16 \<Rightarrow> u32 \<Rightarrow> bool \<Rightarrow> trace \<Rightarrow> int outcome option" where
  "kni_create k name pool port_id lcore_id rw tr =
     (if unat port_id \<ge> RTE_MAX_ETHPORTS then Some (Return 0 tr)
      else if RTE_KNI_NAMESIZE \<le> length name then Some Undefined
      else
        let (conf, tr) = kni_conf k name port_id lcore_id rw tr;
            (kni, _, tr) = syscall k (Kni_alloc pool conf port_id) tr
        in if kni = 0 then Some (Exit tr)
           else
             let (s, _, tr) = syscall k (Socket AF_INET_sock SOCK_DGRAM 0) tr
             in case ifr_named name of
                  None \<Rightarrow> Some Undefined
                | Some ifr \<Rightarrow> map_option (\<lambda>(ifr, tr). Return kni tr) (kni_wait_up k kni port_id s rw ifr tr))"

definition kni_setup_ip ::
  "kernel \<Rightarrow> u8 list \<Rightarrow> u32 \<Rightarrow> u32 \<Rightarrow> u8 list option \<Rightarrow> u32 list option \<Rightarrow> u32 \<Rightarrow> u32 \<Rightarrow> trace \<Rightarrow> unit outcome" where
  "kni_setup_ip k name ipv4 loopback ipv6 routes nb_routes gw tr =
     (let (s, _, tr) = syscall k (Socket AF_INET_sock SOCK_DGRAM 0) tr
      in case ifr_named name of
           None \<Rightarrow> Undefined
         | Some ifr \<Rightarrow>
             and_then (setup_ip k s ifr ipv4 loopback ipv6 tr) (\<lambda>ifr tr.
             and_then (ioctl_or_exit k s SIOCGIFINDEX ifr tr) (\<lambda>ifr tr.
             and_then (setup_routes k (ifr_ifindex ifr) routes nb_routes gw tr) (\<lambda>_ tr.
             let (_, _, tr) = syscall k (Close s) tr in Return () tr))))"

section \<open>Properties\<close>

lemma succeeded_syscall:
  "syscall k c tr = (r, out, tr') \<Longrightarrow> \<not> is_ioctl c \<Longrightarrow> requests [c] = rs \<Longrightarrow> succeeded k tr rs tr'"
  by (auto simp: syscall_def intro: succeeded_call split: prod.splits)

lemma ioctl_arg_flags:
  "length ifr = 40 \<Longrightarrow> ioctl_arg SIOCSIFFLAGS (ifr_store ifr 0 (le_bytes 2 f)) = le_bytes 2 f"
  "length ifr = 40 \<Longrightarrow> ioctl_arg TUNSETIFF (ifr_store ifr 0 (le_bytes 2 f)) = le_bytes 2 f"
  by (simp_all add: ifr_store_def)

lemma tap_create_configure:
  assumes "and_then (ioctl_or_exit k s SIOCGIFFLAGS ifr tr) (\<lambda>ifr tr.
           and_then (set_mac_mtu k s ifr mac mtu tr) (\<lambda>ifr tr.
           and_then (ioctl_or_exit k s SIOCGIFINDEX ifr tr) (\<lambda>ifr tr.
           let ifr = ifr_store ifr 0 (le_bytes 2 (up_flags rw)) in
           and_then (ioctl_or_exit k s SIOCSIFFLAGS ifr tr) (\<lambda>ifr tr.
           let (_, _, tr) = syscall k (Close s) tr in Return fd tr)))) = Return fd' tr'"
    "length ifr = 40"
  shows "succeeded k tr ((SIOCGIFFLAGS, []) # (SIOCGIFINDEX, []) #
      (if mac \<noteq> 0 then [(SIOCSIFHWADDR, le_bytes 2 ARPHRD_ETHER @ le_bytes 8 (unat mac))] else []) @
      (if mtu \<noteq> 0 then [(SIOCSIFMTU, le_bytes 4 (unat mtu))] else []) @
      [(SIOCGIFINDEX, []), (SIOCSIFFLAGS, le_bytes 2 (up_flags rw))]) tr' \<and>
    fd' = fd \<and> (\<exists>tr. tr' = tr @ [Close s])"
proof -
  obtain a ta b tb c tc d td where
    1: "ioctl_or_exit k s SIOCGIFFLAGS ifr tr = Return a ta"
    and 2: "set_mac_mtu k s a mac mtu ta = Return b tb"
    and 3: "ioctl_or_exit k s SIOCGIFINDEX b tb = Return c tc"
    and 4: "ioctl_or_exit k s SIOCSIFFLAGS (ifr_store c 0 (le_bytes 2 (up_flags rw))) tc = Return d td"
    and 5: "(let (_, _, tr) = syscall k (Close s) td in Return fd tr) = Return fd' tr'"
    using assms(1) unfolding and_then_Return Let_def by blast
  have s1: "succeeded k tr [(SIOCGIFFLAGS, [])] ta" "length a = 40"
    using ioctl_succeeded [OF 1] assms(2) by simp_all
  note s2 = set_mac_mtu_succeeded [OF 2 s1(2)]
  have s3: "succeeded k tb [(SIOCGIFINDEX, [])] tc" "length c = 40"
    using ioctl_succeeded [OF 3] s2 by simp_all
  have s4: "succeeded k tc [(SIOCSIFFLAGS, le_bytes 2 (up_flags rw))] td"
    using ioctl_succeeded [OF 4] ioctl_arg_flags(1) [OF s3(2)] by simp
  have s5: "succeeded k td [] tr'" "fd' = fd" "tr' = td @ [Close s]"
    using 5 by (auto simp: syscall_def intro!: succeeded_call split: prod.splits)
  show ?thesis
    using succeeded_trans [OF s1(1) succeeded_trans [OF conjunct1 [OF s2]
        succeeded_trans [OF s3(1) succeeded_trans [OF s4 s5(1)]]]] s5(2,3) by auto
qed

text \<open>
  When \<open>tap_create\<close> returns, the name fitted the request, the descriptor is that of the tun device,
  it was made a tap device without packet information, the hardware address and the MTU were set
  exactly when they are not zero, the interface was brought up last (receive-only interfaces without
  ARP and promiscuous), every configuring ioctl succeeded and the control socket was closed.
\<close>

theorem tap_create_spec:
  assumes "tap_create k name mac mtu rw tr = Return fd tr'"
  shows "0 \<le> fd \<and> length name < 16 \<and>
    fst (k tr (Open TUN_DEVICE ((if rw then O_RDWR else O_WRONLY) + O_NONBLOCK))) = fd \<and>
    succeeded k tr ((TUNSETIFF, le_bytes 2 (IFF_TAP + IFF_NO_PI)) # (SIOCGIFFLAGS, []) # (SIOCGIFINDEX, []) #
      (if mac \<noteq> 0 then [(SIOCSIFHWADDR, le_bytes 2 ARPHRD_ETHER @ le_bytes 8 (unat mac))] else []) @
      (if mtu \<noteq> 0 then [(SIOCSIFMTU, le_bytes 4 (unat mtu))] else []) @
      [(SIOCGIFINDEX, []), (SIOCSIFFLAGS, le_bytes 2 (up_flags rw))]) tr' \<and>
    (\<exists>s tr. tr' = tr @ [Close s])"
proof -
  let ?open = "Open TUN_DEVICE ((if rw then O_RDWR else O_WRONLY) + O_NONBLOCK)"
  obtain fd0 out t1 where o: "syscall k ?open tr = (fd0, out, t1)" by (cases "syscall k ?open tr") auto
  obtain ifr where n: "ifr_named name = Some ifr" and pos: "0 \<le> fd0"
    using assms by (auto simp: tap_create_def o Let_def split: if_splits option.splits)
  let ?ifr = "ifr_store ifr 0 (le_bytes 2 (IFF_TAP + IFF_NO_PI))"
  have l: "length ?ifr = 40" using ifr_named_length [OF n] by simp
  obtain r out' where t: "k t1 (Ioctl fd0 TUNSETIFF ?ifr) = (r, out')" by (cases "k t1 (Ioctl fd0 TUNSETIFF ?ifr)")
  define t2 where "t2 = t1 @ [Ioctl fd0 TUNSETIFF ?ifr]"
  obtain s out'' t3 where so: "syscall k (Socket AF_INET_sock SOCK_DGRAM 0) t2 = (s, out'', t3)"
    by (cases "syscall k (Socket AF_INET_sock SOCK_DGRAM 0) t2") auto
  have "ioctl k fd0 TUNSETIFF ?ifr t1 = (r, overlay out' ?ifr, t2)"
    by (simp add: ioctl_def syscall_def t t2_def)
  moreover have "0 \<le> r"
    using assms pos n o calculation by (auto simp: tap_create_def Let_def syscall_def split: if_splits prod.splits)
  ultimately have c: "and_then (ioctl_or_exit k s SIOCGIFFLAGS (overlay out' ?ifr) t3) (\<lambda>ifr tr.
           and_then (set_mac_mtu k s ifr mac mtu tr) (\<lambda>ifr tr.
           and_then (ioctl_or_exit k s SIOCGIFINDEX ifr tr) (\<lambda>ifr tr.
           let ifr = ifr_store ifr 0 (le_bytes 2 (up_flags rw)) in
           and_then (ioctl_or_exit k s SIOCSIFFLAGS ifr tr) (\<lambda>ifr tr.
           let (_, _, tr) = syscall k (Close s) tr in Return fd0 tr)))) = Return fd tr'"
    using assms pos n o so unfolding tap_create_def Let_def by simp
  note conf = tap_create_configure [OF c]
  have s1: "succeeded k tr [] t1" using succeeded_syscall [OF o] by simp
  have s2: "succeeded k t1 [(TUNSETIFF, le_bytes 2 (IFF_TAP + IFF_NO_PI))] t2"
    unfolding t2_def using ioctl_arg_flags(2) [OF ifr_named_length [OF n]] by (intro succeeded_call) simp_all
  have s3: "succeeded k t2 [] t3" using succeeded_syscall [OF so] by simp
  have "length name < 16" using n by (auto simp: ifr_named_def split: if_splits)
  moreover have "fst (k tr ?open) = fd0" using o by (auto simp: syscall_def split: prod.splits)
  moreover note succeeded_trans [OF s1 succeeded_trans [OF s2 succeeded_trans [OF s3 conjunct1 [OF conf]]]]
  moreover have "\<exists>s tr. tr' = tr @ [Close s]" using conf l by auto
  ultimately show ?thesis using conf l pos by simp
qed

theorem tap_create_spec_witness:
  "\<exists>tr. tap_create (\<lambda>tr c. (0, [])) [116, 48] 0 1500 True [] = Return 0 tr \<and>
     requests tr = [(TUNSETIFF, le_bytes 2 (IFF_TAP + IFF_NO_PI)), (SIOCGIFFLAGS, []), (SIOCGIFINDEX, []),
       (SIOCSIFMTU, le_bytes 4 1500), (SIOCGIFINDEX, []), (SIOCSIFFLAGS, le_bytes 2 IFF_UP)]"
proof -
  obtain tr where r: "tap_create (\<lambda>tr c. (0, [])) [116, 48] 0 1500 True [] = Return 0 tr"
    by (simp add: tap_create_def syscall_def ioctl_def ifr_named_def set_mac_mtu_def ioctl_or_exit_ok Let_def)
  from tap_create_spec [OF r] show ?thesis
    using r by (auto simp: succeeded_def up_flags_def)
qed

section \<open>The loop of \<open>kni_create\<close>\<close>

text \<open>The flags that the caller sees after asking for them.\<close>

definition seen_up :: "kernel \<Rightarrow> int \<Rightarrow> ifreq \<Rightarrow> trace \<Rightarrow> bool" where
  "seen_up k s ifr tr \<longleftrightarrow>
     ifr_flags (overlay (snd (k tr (Ioctl s SIOCGIFFLAGS ifr))) ifr) AND IFF_UP \<noteq> 0"

fun sets_flags :: "sys_call \<Rightarrow> bool" where
  "sets_flags (Ioctl s r ifr) = (r = SIOCSIFFLAGS)"
| "sets_flags _ = False"

text \<open>The kernel reports the interface as up once it was asked \<open>n\<close> times to bring it up.\<close>

definition comes_up :: "kernel \<Rightarrow> int \<Rightarrow> nat \<Rightarrow> bool" where
  "comes_up k s n \<longleftrightarrow> (\<forall>tr ifr. length ifr = 40 \<and> n \<le> length (filter sets_flags tr) \<longrightarrow> seen_up k s ifr tr)"

text \<open>The requests are handled by calls to the port only, which stand at the end of the trace.\<close>

fun is_port_call :: "u16 \<Rightarrow> sys_call \<Rightarrow> bool" where
  "is_port_call port_id Eth_dev_count = True"
| "is_port_call port_id (Eth_dev_stop p) = (p = port_id)"
| "is_port_call port_id (Eth_dev_start p) = (p = port_id)"
| "is_port_call port_id _ = False"

lemma kni_config_calls:
  "\<exists>cs. snd (kni_config_network_interface k port_id if_up tr) = tr @ cs \<and> (\<forall>c\<in>set cs. is_port_call port_id c)"
  by (auto simp: kni_config_network_interface_def syscall_def split: prod.splits)

lemma kni_run_callbacks_calls:
  "\<exists>cs. kni_run_callbacks k port_id reqs tr = tr @ cs \<and> (\<forall>c\<in>set cs. is_port_call port_id c)"
proof (induction reqs arbitrary: tr)
  case (Cons if_up reqs)
  obtain cs where c: "snd (kni_config_network_interface k port_id if_up tr) = tr @ cs"
    "\<forall>c\<in>set cs. is_port_call port_id c" using kni_config_calls by blast
  obtain cs' where "kni_run_callbacks k port_id reqs (tr @ cs) = (tr @ cs) @ cs'"
    "\<forall>c\<in>set cs'. is_port_call port_id c" using Cons.IH by blast
  then show ?case using c by (intro exI [of _ "cs @ cs'"]) (auto simp: case_prod_unfold)
qed simp

lemma kni_requests_calls:
  "\<exists>cs. kni_requests k kni port_id tr = tr @ Kni_handle_request kni # cs \<and> (\<forall>c\<in>set cs. is_port_call port_id c)"
proof -
  obtain cs where "kni_run_callbacks k port_id (snd (k tr (Kni_handle_request kni))) (tr @ [Kni_handle_request kni]) =
      (tr @ [Kni_handle_request kni]) @ cs" "\<forall>c\<in>set cs. is_port_call port_id c"
    using kni_run_callbacks_calls by blast
  then show ?thesis by (auto simp: kni_requests_def syscall_def case_prod_unfold)
qed

lemma port_call_sets_no_flags: "is_port_call port_id c \<Longrightarrow> \<not> sets_flags c"
  by (cases c) auto

lemma kni_requests_set_no_flags [simp]:
  "filter sets_flags (kni_requests k kni port_id tr) = filter sets_flags tr"
proof -
  obtain cs where "kni_requests k kni port_id tr = tr @ Kni_handle_request kni # cs"
    "\<forall>c\<in>set cs. \<not> sets_flags c"
    using kni_requests_calls port_call_sets_no_flags by blast
  then show ?thesis by simp
qed

lemma kni_wait_up_step:
  "kni_wait_up k kni port_id s rw ifr tr =
     (let tr1 = kni_requests k kni port_id tr;
          ifr1 = overlay (snd (k tr1 (Ioctl s SIOCGIFFLAGS ifr))) ifr;
          tr2 = tr1 @ [Ioctl s SIOCGIFFLAGS ifr];
          ifr2 = ifr_store ifr1 0 (le_bytes 2 (up_flags rw))
      in if seen_up k s ifr tr1 then Some (ifr1, tr2)
         else kni_wait_up k kni port_id s rw (overlay (snd (k tr2 (Ioctl s SIOCSIFFLAGS ifr2))) ifr2)
                (tr2 @ [Ioctl s SIOCSIFFLAGS ifr2]))"
  by (subst kni_wait_up.simps)
    (simp add: syscall_def ioctl_def seen_up_def Let_def split: prod.splits)

lemma kni_wait_up_returns:
  assumes "comes_up k s n" "length ifr = 40"
  shows "\<exists>ifr' tr'. kni_wait_up k kni port_id s rw ifr tr = Some (ifr', tr') \<and> ifr_flags ifr' AND IFF_UP \<noteq> 0"
  using assms(2)
proof (induction "n - length (filter sets_flags tr)" arbitrary: ifr tr rule: less_induct)
  case less
  let ?tr1 = "kni_requests k kni port_id tr"
  show ?case
  proof (cases "seen_up k s ifr ?tr1")
    case True
    then show ?thesis by (subst kni_wait_up_step) (simp add: Let_def seen_up_def)
  next
    case False
    moreover have "filter sets_flags ?tr1 = filter sets_flags tr" by simp
    ultimately have "length (filter sets_flags tr) < n"
      using assms(1) less.prems unfolding comes_up_def by (metis not_less)
    then show ?thesis
      using False less.prems by (subst kni_wait_up_step) (simp only: Let_def if_False, intro less.hyps; simp)
  qed
qed

text \<open>
  C19: \<open>kni_create\<close> returns the interface it allocated as soon as the kernel, asked often enough to bring
  it up, reports it as up: the loop then ends, however many rounds it takes.
\<close>

theorem kni_create_returns:
  assumes "unat port_id < RTE_MAX_ETHPORTS" "length name < 16"
    "\<forall>tr conf. fst (k tr (Kni_alloc pool conf port_id)) = kni" "kni \<noteq> 0" "\<forall>s. comes_up k s n"
  shows "\<exists>tr'. kni_create k name pool port_id lcore_id rw tr = Some (Return kni tr')"
proof -
  obtain conf t1 where c: "kni_conf k name port_id lcore_id rw tr = (conf, t1)" by fastforce
  obtain out t2 where a: "syscall k (Kni_alloc pool conf port_id) t1 = (kni, out, t2)"
    using assms(3) by (metis (no_types, lifting) case_prod_unfold syscall_def)
  obtain s out' t3 where so: "syscall k (Socket AF_INET_sock SOCK_DGRAM 0) t2 = (s, out', t3)"
    by (cases "syscall k (Socket AF_INET_sock SOCK_DGRAM 0) t2") auto
  obtain ifr where n: "ifr_named name = Some ifr" using assms(2) by (auto simp: ifr_named_def)
  have "comes_up k s n" using assms(5) by simp
  then obtain ifr' tr' where "kni_wait_up k kni port_id s rw ifr t3 = Some (ifr', tr')"
    using kni_wait_up_returns ifr_named_length [OF n] by blast
  then show ?thesis using assms(1,2,4) c a so n by (simp add: kni_create_def RTE_KNI_NAMESIZE_def)
qed

text \<open>
  A kernel whose interface comes up when it is asked for the second time; each time, it requests that the
  port be started.
\<close>

definition slow_kernel :: kernel where
  "slow_kernel tr c =
     (case c of
        Kni_alloc pool conf port \<Rightarrow> (7, [])
      | Kni_handle_request kni \<Rightarrow> (0, if sets_flags (last tr) then [1] else [])
      | Eth_dev_count \<Rightarrow> (4, [])
      | Ioctl s r ifr \<Rightarrow>
          (if r = SIOCGIFFLAGS \<and> 2 \<le> length (filter sets_flags tr) then (0, take 16 ifr @ [1, 0])
           else if r = SIOCGIFFLAGS then (0, take 16 ifr @ [0, 0]) else (0, []))
      | _ \<Rightarrow> (0, []))"

theorem kni_create_returns_witness:
  "\<exists>tr. kni_create slow_kernel [118, 48] 1 3 0 True [] = Some (Return 7 tr)"
proof (rule kni_create_returns [where n = 2])
  show "\<forall>s. comes_up slow_kernel s 2"
    by (simp add: comes_up_def seen_up_def slow_kernel_def overlay_def ifr_flags_def le_nat_def IFF_UP_def)
qed (simp_all add: RTE_MAX_ETHPORTS_def slow_kernel_def)

text \<open>As long as the kernel reports the interface as down, the loop does not end.\<close>

lemma kni_wait_up_diverges:
  assumes down: "\<And>ifr tr. length ifr = 40 \<Longrightarrow> \<not> seen_up k s ifr tr"
  shows "length ifr = 40 \<Longrightarrow> kni_wait_up k kni port_id s rw ifr tr = None"
proof -
  have never: "k = k' \<and> s = s' \<longrightarrow> length ifr \<noteq> 40"
    if "kni_wait_up k' kni' port' s' rw' ifr tr = Some y" for k' kni' port' s' rw' ifr tr y
  proof (rule kni_wait_up.raw_induct [where P = "\<lambda>k' kni' port' s' rw' ifr tr y. k = k' \<and> s = s' \<longrightarrow> length ifr \<noteq> 40",
        OF _ that], goal_cases)
    case (1 f k' kni' port' s' rw' ifr tr y)
    let ?tr1 = "kni_requests k' kni' port' tr"
    show ?case
    proof (intro impI notI)
      assume same: "k = k' \<and> s = s'" and len: "length ifr = 40"
      then have "\<not> seen_up k' s' ifr ?tr1" using down by blast
      then obtain ifr' tr' where "f k' kni' port' s' rw' ifr' tr' = Some y" "length ifr' = 40"
        using 1(2) len
        by (auto simp: syscall_def ioctl_def seen_up_def Let_def split: prod.splits if_splits)
      then show False using 1(1) [of k' kni' port' s' rw' ifr' tr' y] same by blast
    qed
  qed
  then show "length ifr = 40 \<Longrightarrow> kni_wait_up k kni port_id s rw ifr tr = None"
    by (metis not_None_eq)
qed

text \<open>
  C38: The results of the loop's ioctls are not looked at: when each of them fails and leaves the request
  alone, the first round stores \<open>IFF_UP\<close> in the request, the second reads it back there, and
  \<open>kni_create\<close> returns the interface as up although no ioctl has succeeded.
\<close>

theorem kni_create_ignores_errors:
  assumes "unat port_id < RTE_MAX_ETHPORTS" "length name < 16"
    "\<forall>tr conf. fst (k tr (Kni_alloc pool conf port_id)) = kni" "kni \<noteq> 0"
    "\<forall>tr s r ifr. k tr (Ioctl s r ifr) = (- 1, [])"
  shows "\<exists>tr'. kni_create k name pool port_id lcore_id rw tr = Some (Return kni tr')"
proof -
  obtain conf t1 where c: "kni_conf k name port_id lcore_id rw tr = (conf, t1)" by fastforce
  obtain out t2 where a: "syscall k (Kni_alloc pool conf port_id) t1 = (kni, out, t2)"
    using assms(3) by (metis (no_types, lifting) case_prod_unfold syscall_def)
  obtain s out' t3 where so: "syscall k (Socket AF_INET_sock SOCK_DGRAM 0) t2 = (s, out', t3)"
    by (cases "syscall k (Socket AF_INET_sock SOCK_DGRAM 0) t2") auto
  obtain ifr where n: "ifr_named name = Some ifr" using assms(2) by (auto simp: ifr_named_def)
  have "seen_up k s (ifr_store ifr 0 (le_bytes 2 (up_flags rw))) tr" for tr
    using ifr_named_length [OF n]
    by (simp add: seen_up_def assms(5) ifr_flags_def ifr_store_def le_exact up_flags_def IFF_UP_def
        IFF_NOARP_def IFF_PROMISC_def)
  then have up: "\<exists>r. kni_wait_up k kni port_id s rw (ifr_store ifr 0 (le_bytes 2 (up_flags rw))) tr = Some r" for tr
    by (subst kni_wait_up_step) (simp add: Let_def)
  have "\<exists>r. kni_wait_up k kni port_id s rw ifr t3 = Some r"
    using up by (subst kni_wait_up_step) (simp add: assms(5) Let_def)
  then obtain ifr' tr' where "kni_wait_up k kni port_id s rw ifr t3 = Some (ifr', tr')" by fastforce
  then show ?thesis using assms(1,2,4) c a so n by (simp add: kni_create_def RTE_KNI_NAMESIZE_def)
qed

theorem kni_create_ignores_errors_witness:
  "\<exists>tr. kni_create (\<lambda>tr c. case c of Kni_alloc pool conf port \<Rightarrow> (7, []) | Ioctl s r ifr \<Rightarrow> (- 1, []) | _ \<Rightarrow> (0, []))
     [118, 48] 1 3 0 True [] = Some (Return 7 tr)"
  by (rule kni_create_ignores_errors) (simp_all add: RTE_MAX_ETHPORTS_def)

section \<open>The callback and the shared configuration\<close>

text \<open>A bad port is refused without touching any; a good one is stopped before it is started.\<close>

lemma kni_config_bad_port:
  "fst (k tr Eth_dev_count) \<le> int (unat port_id) \<or> RTE_MAX_ETHPORTS \<le> unat port_id \<Longrightarrow>
   kni_config_network_interface k port_id if_up tr = (- EINVAL, tr @ [Eth_dev_count])"
  by (auto simp: kni_config_network_interface_def syscall_def split: prod.splits)

lemma kni_config_up:
  assumes "int (unat port_id) < fst (k tr Eth_dev_count)" "unat port_id < RTE_MAX_ETHPORTS" "if_up \<noteq> 0"
  shows "kni_config_network_interface k port_id if_up tr =
    (fst (k (tr @ [Eth_dev_count, Eth_dev_stop port_id]) (Eth_dev_start port_id)),
     tr @ [Eth_dev_count, Eth_dev_stop port_id, Eth_dev_start port_id])"
  using assms by (auto simp: kni_config_network_interface_def syscall_def split: prod.splits)

lemma setup_ip_same: "tap_setup_ip = kni_setup_ip"
  by (intro ext) (simp add: tap_setup_ip_def kni_setup_ip_def)

end
