(* ===== verification/Fixtures.thy ===== *)
theory Fixtures
  imports Dpdk_Prelude
begin

text \<open>
  The constant packets of \<open>src/src/ext/fixtures.c\<close> and \<open>src/src/ext/fixtures_extras.c\<close>, with the sizes that are
  exported for them, and the digit table.  A decoder of the headers says which protocols each packet
  carries and that its length fields fit.
\<close>

section \<open>The data\<close>

definition ipv4_gre_ipv4_icmp_data :: "u8 list" where
  "ipv4_gre_ipv4_icmp_data = [
     0xff, 0xff, 0xff, 0xff, 0xff, 0xff, 0x00, 0x00, 0x00, 0x00, 0x00, 0x00, 0x08, 0x00, 0x45, 0x00,
     0x00, 0x34, 0x00, 0x00, 0x00, 0x00, 0x40, 0x2f, 0x00, 0x00, 0x00, 0x00, 0x00, 0x00, 0x00, 0x00,
     0x00, 0x00, 0x00, 0x00, 0x08, 0x00, 0x45, 0x00, 0x00, 0x1c, 0x00, 0x00, 0x00, 0x00, 0x40, 0x01,
     0x00, 0x00, 0x00, 0x00, 0x00, 0x00, 0x00, 0x00, 0x00, 0x00, 0x08, 0x00, 0xf7, 0xff, 0x00, 0x00,
     0x00, 0x00]"

definition ipv4_opt_gre_ipv4_icmp_data :: "u8 list" where
  "ipv4_opt_gre_ipv4_icmp_data = [
     0xff, 0xff, 0xff, 0xff, 0xff, 0xff, 0x00, 0x00, 0x00, 0x00, 0x00, 0x00, 0x08, 0x00, 0x48, 0x00,
     0x00, 0x40, 0x00, 0x00, 0x00, 0x00, 0x40, 0x2f, 0x00, 0x00, 0x00, 0x00, 0x00, 0x00, 0x00, 0x00,
     0x00, 0x00, 0x01, 0x01, 0x01, 0x01, 0x01, 0x01, 0x01, 0x01, 0x01, 0x01, 0x01, 0x01, 0x00, 0x00,
     0x08, 0x00, 0x45, 0x00, 0x00, 0x1c, 0x00, 0x00, 0x00, 0x00, 0x40, 0x01, 0x00, 0x00, 0x00, 0x00,
     0x00, 0x00, 0x00, 0x00, 0x00, 0x00, 0x08, 0x00, 0xf7, 0xff, 0x00, 0x00, 0x00, 0x00]"

definition ipv4_udp_gtp_ipv4_icmp_data :: "u8 list" where
  "ipv4_udp_gtp_ipv4_icmp_data = [
     0xff, 0xff, 0xff, 0xff, 0xff, 0xff, 0x00, 0x00, 0x00, 0x00, 0x00, 0x00, 0x08, 0x00, 0x45, 0x00,
     0x00, 0x40, 0x00, 0x00, 0x00, 0x00, 0x40, 0x11, 0x00, 0x00, 0x00, 0x00, 0x00, 0x00, 0x00, 0x00,
     0x00, 0x00, 0x08, 0x68, 0x08, 0x68, 0x00, 0x2c, 0x00, 0x00, 0x30, 0xff, 0x00, 0x3c, 0x00, 0x00,
     0x00, 0x00, 0x45, 0x00, 0x00, 0x1c, 0x00, 0x00, 0x00, 0x00, 0x7f, 0x01, 0x00, 0x00, 0x00, 0x00,
     0x00, 0x00, 0x00, 0x00, 0x00, 0x00, 0x08, 0x00, 0xf7, 0xff, 0x00, 0x00, 0x00, 0x00]"

definition ipv4_gre_ipv6_icmpv6_data :: "u8 list" where
  "ipv4_gre_ipv6_icmpv6_data = [
     0xff, 0xff, 0xff, 0xff, 0xff, 0xff, 0x00, 0x00, 0x00, 0x00, 0x00, 0x00, 0x08, 0x00, 0x45, 0x00,
     0x00, 0x48, 0x00, 0x00, 0x00, 0x00, 0x40, 0x2f, 0x00, 0x00, 0x00, 0x00, 0x00, 0x00, 0x00, 0x00,
     0x00, 0x00, 0x00, 0x00, 0x86, 0xdd, 0x60, 0x00, 0x00, 0x00, 0x00, 0x08, 0x3a, 0x00, 0x00, 0x00,
     0x00, 0x00, 0x00, 0x00, 0x00, 0x00, 0x00, 0x00, 0x00, 0x00, 0x00, 0x00, 0x00, 0x00, 0x00, 0x00,
     0x00, 0x00, 0x00, 0x00, 0x00, 0x00, 0x00, 0x00, 0x00, 0x00, 0x00, 0x00, 0x00, 0x00, 0x80, 0x00,
     0x00, 0x00, 0x00, 0x00, 0x00, 0x00]"

definition ipv6_icmpv6_data :: "u8 list" where
  "ipv6_icmpv6_data = [
     0xff, 0xff, 0xff, 0xff, 0xff, 0xff, 0x00, 0x00, 0x00, 0x00, 0x00, 0x00, 0x86, 0xdd, 0x6c, 0x00,
     0x00, 0x00, 0x00, 0x20, 0x3a, 0x40, 0x00, 0x00, 0x00, 0x00, 0x00, 0x00, 0x00, 0x00, 0x00, 0x00,
     0x00, 0x00, 0x00, 0x00, 0x00, 0x00, 0x00, 0x00, 0x00, 0x00, 0x00, 0x00, 0x00, 0x00, 0x00, 0x00,
     0x00, 0x00, 0x00, 0x00, 0x00, 0x00, 0x80, 0x00, 0x00, 0x00, 0x00, 0x00, 0x00, 0x00, 0x00, 0x00,
     0x00, 0x00, 0x00, 0x00, 0x00, 0x00, 0x00, 0x00, 0x00, 0x00, 0x00, 0x00, 0x00, 0x00, 0x00, 0x00,
     0x00, 0x00, 0x00, 0x00, 0x00, 0x00]"

definition arp_data :: "u8 list" where
  "arp_data = [
     0xff, 0xff, 0xff, 0xff, 0xff, 0xff, 0x00, 0x00, 0x00, 0x00, 0x00, 0x00, 0x08, 0x06, 0x00, 0x01,
     0x08, 0x00, 0x06, 0x04, 0x00, 0x01, 0x00, 0x00, 0x00, 0x00, 0x00, 0x00, 0x00, 0x00, 0x00, 0x00,
     0xff, 0xff, 0xff, 0xff, 0xff, 0xff, 0x00, 0x00, 0x00, 0x00]"

definition ipv4_udp_gtp_ipv6_icmpv6_data :: "u8 list" where
  "ipv4_udp_gtp_ipv6_icmpv6_data = [
     0xff, 0xff, 0xff, 0xff, 0xff, 0xff, 0x00, 0x00, 0x00, 0x00, 0x00, 0x00, 0x08, 0x00, 0x45, 0x00,
     0x00, 0x84, 0x00, 0x00, 0x00, 0x00, 0x40, 0x11, 0x00, 0x00, 0x00, 0x00, 0x00, 0x00, 0x00, 0x00,
     0x00, 0x00, 0x08, 0x68, 0x08, 0x68, 0x00, 0x70, 0x00, 0x00, 0x30, 0xff, 0x00, 0x60, 0x0a, 0x00,
     0x00, 0x00, 0x63, 0x80, 0x00, 0x60, 0x00, 0x38, 0x3a, 0x3f, 0x00, 0x00, 0x00, 0x00, 0x00, 0x00,
     0x00, 0x00, 0x00, 0x00, 0x00, 0x00, 0x00, 0x00, 0x00, 0x00, 0x00, 0x00, 0x00, 0x00, 0x00, 0x00,
     0x00, 0x00, 0x00, 0x00, 0x00, 0x00, 0x00, 0x00, 0x00, 0x00, 0x80, 0x00, 0x00, 0x00, 0x00, 0x00,
     0x00, 0x00, 0x00, 0x00, 0x00, 0x00, 0x00, 0x00, 0x00, 0x00, 0x00, 0x00, 0x00, 0x00, 0x00, 0x00,
     0x00, 0x00, 0x00, 0x00, 0x00, 0x00, 0x00, 0x00, 0x00, 0x00, 0x00, 0x00, 0x00, 0x00, 0x00, 0x00,
     0x00, 0x00, 0x00, 0x00, 0x00, 0x00, 0x00, 0x00, 0x00, 0x00, 0x00, 0x00, 0x00, 0x00, 0x00, 0x00,
     0x00, 0x00]"

definition ipv4_icmp_data :: "u8 list" where
  "ipv4_icmp_data = [
     0xff, 0xff, 0xff, 0xff, 0xff, 0xff, 0x00, 0x00, 0x00, 0x00, 0x00, 0x00, 0x08, 0x00, 0x45, 0x00,
     0x00, 0x1c, 0x00, 0x00, 0x00, 0x00, 0x40, 0x01, 0x00, 0x00, 0x00, 0x00, 0x00, 0x00, 0x00, 0x00,
     0x00, 0x00, 0x08, 0x00, 0xf7, 0xff, 0x00, 0x00, 0x00, 0x00]"

definition ipv4_opt_gre_ipv6_icmpv6_data :: "u8 list" where
  "ipv4_opt_gre_ipv6_icmpv6_data = [
     0xff, 0xff, 0xff, 0xff, 0xff, 0xff, 0x00, 0x00, 0x00, 0x00, 0x00, 0x00, 0x08, 0x00, 0x48, 0x00,
     0x00, 0x54, 0x00, 0x00, 0x00, 0x00, 0x40, 0x2f, 0x00, 0x00, 0x00, 0x00, 0x00, 0x00, 0x00, 0x00,
     0x00, 0x00, 0x01, 0x01, 0x01, 0x01, 0x01, 0x01, 0x01, 0x01, 0x01, 0x01, 0x01, 0x01, 0x00, 0x00,
     0x86, 0xdd, 0x60, 0x00, 0x00, 0x00, 0x00, 0x6e, 0x3a, 0x3f, 0x00, 0x00, 0x00, 0x00, 0x00, 0x00,
     0x00, 0x00, 0x00, 0x00, 0x00, 0x00, 0x00, 0x00, 0x00, 0x00, 0x00, 0x00, 0x00, 0x00, 0x00, 0x00,
     0x00, 0x00, 0x00, 0x00, 0x00, 0x00, 0x00, 0x00, 0x00, 0x00, 0x80, 0x00, 0x00, 0x00, 0x00, 0x00,
     0x00, 0x00]"

definition bgp_open_data :: "u8 list" where
  "bgp_open_data = [
     0xff, 0xff, 0xff, 0xff, 0xff, 0xff, 0xff, 0xff, 0xff, 0xff, 0xff, 0xff, 0xff, 0xff, 0xff, 0xff,
     0x00, 0x2d, 0x01, 0x04, 0x00, 0x00, 0x00, 0x5a, 0x00, 0x00, 0x00, 0x00, 0x10, 0x02, 0x0e, 0x02,
     0x00, 0x01, 0x04, 0x00, 0x01, 0x00, 0x01, 0x41, 0x04, 0x00, 0x00, 0x00, 0x00]"

definition bgp_keepalive_update_data :: "u8 list" where
  "bgp_keepalive_update_data = [
     0xff, 0xff, 0xff, 0xff, 0xff, 0xff, 0xff, 0xff, 0xff, 0xff, 0xff, 0xff, 0xff, 0xff, 0xff, 0xff,
     0x00, 0x13, 0x04, 0xff, 0xff, 0xff, 0xff, 0xff, 0xff, 0xff, 0xff, 0xff, 0xff, 0xff, 0xff, 0xff,
     0xff, 0xff, 0xff, 0x00, 0x34, 0x02, 0x00, 0x00, 0x00, 0x14, 0x40, 0x01, 0x01, 0x02, 0x40, 0x02,
     0x06, 0x02, 0x01, 0x00, 0x00, 0x00, 0x00, 0x40, 0x03, 0x04, 0x00, 0x00, 0x00, 0x00]"

definition e164_data :: "u16 list" where
  "e164_data = [
     0x3030, 0x3031, 0x3032, 0x3033, 0x3034, 0x3035, 0x3036, 0x3037,
     0x3038, 0x3039, 0, 0, 0, 0, 0, 0,
     0x3130, 0x3131, 0x3132, 0x3133, 0x3134, 0x3135, 0x3136, 0x3137,
     0x3138, 0x3139, 0, 0, 0, 0, 0, 0,
     0x3230, 0x3231, 0x3232, 0x3233, 0x3234, 0x3235, 0x3236, 0x3237,
     0x3238, 0x3239, 0, 0, 0, 0, 0, 0,
     0x3330, 0x3331, 0x3332, 0x3333, 0x3334, 0x3335, 0x3336, 0x3337,
     0x3338, 0x3339, 0, 0, 0, 0, 0, 0,
     0x3430, 0x3431, 0x3432, 0x3433, 0x3434, 0x3435, 0x3436, 0x3437,
     0x3438, 0x3439, 0, 0, 0, 0, 0, 0,
     0x3530, 0x3531, 0x3532, 0x3533, 0x3534, 0x3535, 0x3536, 0x3537,
     0x3538, 0x3539, 0, 0, 0, 0, 0, 0,
     0x3630, 0x3631, 0x3632, 0x3633, 0x3634, 0x3635, 0x3636, 0x3637,
     0x3638, 0x3639, 0, 0, 0, 0, 0, 0,
     0x3730, 0x3731, 0x3732, 0x3733, 0x3734, 0x3735, 0x3736, 0x3737,
     0x3738, 0x3739, 0, 0, 0, 0, 0, 0,
     0x3830, 0x3831, 0x3832, 0x3833, 0x3834, 0x3835, 0x3836, 0x3837,
     0x3838, 0x3839, 0, 0, 0, 0, 0, 0,
     0x3930, 0x3931, 0x3932, 0x3933, 0x3934, 0x3935, 0x3936, 0x3937,
     0x3938, 0x3939, 0, 0, 0, 0, 0, 0,
     0, 0, 0, 0, 0, 0, 0, 0,
     0, 0, 0, 0, 0, 0, 0, 0,
     0, 0, 0, 0, 0, 0, 0, 0,
     0, 0, 0, 0, 0, 0, 0, 0,
     0, 0, 0, 0, 0, 0, 0, 0,
     0, 0, 0, 0, 0, 0, 0, 0,
     0, 0, 0, 0, 0, 0, 0, 0,
     0, 0, 0, 0, 0, 0, 0, 0,
     0, 0, 0, 0, 0, 0, 0, 0,
     0, 0, 0, 0, 0, 0, 0, 0,
     0x3030, 0x3031, 0x3032, 0x3033, 0x3034, 0x3035, 0x3036, 0x3037,
     0x3038, 0x3039, 0, 0, 0, 0, 0, 0]"


text \<open>A client reads an array through its pointer, up to the exported size.\<close>

definition ipv4_gre_ipv4_icmp_size :: u32 where "ipv4_gre_ipv4_icmp_size = 66"
definition ipv4_opt_gre_ipv4_icmp_size :: u32 where "ipv4_opt_gre_ipv4_icmp_size = 78"
definition ipv4_udp_gtp_ipv4_icmp_size :: u32 where "ipv4_udp_gtp_ipv4_icmp_size = 78"
definition ipv4_gre_ipv6_icmpv6_size :: u32 where "ipv4_gre_ipv6_icmpv6_size = 86"
definition ipv6_icmpv6_size :: u32 where "ipv6_icmpv6_size = 86"
definition arp_size :: u32 where "arp_size = 42"
definition ipv4_udp_gtp_ipv6_icmpv6_size :: u32 where "ipv4_udp_gtp_ipv6_icmpv6_size = 146"
definition ipv4_icmp_size :: u32 where "ipv4_icmp_size = 42"
definition ipv4_opt_gre_ipv6_icmpv6_size :: u32 where "ipv4_opt_gre_ipv6_icmpv6_size = 98"
definition bgp_open_size :: u32 where "bgp_open_size = 45"
definition bgp_keepalive_update_size :: u32 where "bgp_keepalive_update_size = 62"

definition exported :: "u8 list \<Rightarrow> u32 \<Rightarrow> u8 list option" where
  "exported data n = (if unat n \<le> length data then Some (take (unat n) data) else None)"

named_theorems fixture_defs
declare ipv4_gre_ipv4_icmp_size_def [fixture_defs] ipv4_gre_ipv4_icmp_data_def [fixture_defs]
  ipv4_opt_gre_ipv4_icmp_size_def [fixture_defs] ipv4_opt_gre_ipv4_icmp_data_def [fixture_defs]
  ipv4_udp_gtp_ipv4_icmp_size_def [fixture_defs] ipv4_udp_gtp_ipv4_icmp_data_def [fixture_defs]
  ipv4_gre_ipv6_icmpv6_size_def [fixture_defs] ipv4_gre_ipv6_icmpv6_data_def [fixture_defs]
  ipv6_icmpv6_size_def [fixture_defs] ipv6_icmpv6_data_def [fixture_defs]
  arp_size_def [fixture_defs] arp_data_def [fixture_defs]
  ipv4_udp_gtp_ipv6_icmpv6_size_def [fixture_defs] ipv4_udp_gtp_ipv6_icmpv6_data_def [fixture_defs]
  ipv4_icmp_size_def [fixture_defs] ipv4_icmp_data_def [fixture_defs]
  ipv4_opt_gre_ipv6_icmpv6_size_def [fixture_defs] ipv4_opt_gre_ipv6_icmpv6_data_def [fixture_defs]
  bgp_open_size_def [fixture_defs] bgp_open_data_def [fixture_defs]
  bgp_keepalive_update_size_def [fixture_defs] bgp_keepalive_update_data_def [fixture_defs]

section \<open>Reading the headers\<close>

datatype layer = Ethernet | Ip4 | Ip6 | Gre | Udp | Gtp | Arp | Icmp | Icmp6

definition be16 :: "u8 \<Rightarrow> u8 \<Rightarrow> nat" where
  "be16 hi lo = 256 * unat hi + unat lo"

definition ethertype :: "nat \<Rightarrow> layer option" where
  "ethertype t = (if t = 0x0800 then Some Ip4 else if t = 0x86dd then Some Ip6 else if t = 0x0806 then Some Arp else None)"

definition ip_protocol :: "nat \<Rightarrow> layer option" where
  "ip_protocol n = (if n = 47 then Some Gre else if n = 17 then Some Udp else if n = 1 then Some Icmp
     else if n = 58 then Some Icmp6 else None)"

text \<open>
  One header: what follows it, or nothing when the packet ends with it; None when it is malformed or a
  length field disagrees with the bytes that are there.
\<close>

definition ip4_header :: "u8 list \<Rightarrow> (layer \<times> u8 list) option" where
  "ip4_header bs = (case bs of
     v # tos # l1 # l0 # i1 # i0 # f1 # f0 # ttl # p # rest \<Rightarrow>
       if unat v div 16 = 4 \<and> 5 \<le> unat v mod 16 \<and> 4 * (unat v mod 16) \<le> length bs \<and> be16 l1 l0 = length bs
       then map_option (\<lambda>l. (l, drop (4 * (unat v mod 16)) bs)) (ip_protocol (unat p)) else None
   | _ \<Rightarrow> None)"

definition ip6_header :: "u8 list \<Rightarrow> (layer \<times> u8 list) option" where
  "ip6_header bs = (case bs of
     v # c # f1 # f0 # l1 # l0 # p # rest \<Rightarrow>
       if unat v div 16 = 6 \<and> 40 + be16 l1 l0 = length bs
       then map_option (\<lambda>l. (l, drop 40 bs)) (ip_protocol (unat p)) else None
   | _ \<Rightarrow> None)"

definition udp_header :: "u8 list \<Rightarrow> (layer \<times> u8 list) option" where
  "udp_header bs = (case bs of
     s1 # s0 # d1 # d0 # l1 # l0 # c1 # c0 # rest \<Rightarrow>
       if be16 d1 d0 = 2152 \<and> be16 l1 l0 = length bs then Some (Gtp, rest) else None
   | _ \<Rightarrow> None)"

definition gtp_header :: "u8 list \<Rightarrow> (layer \<times> u8 list) option" where
  "gtp_header bs = (case bs of
     flags # kind # l1 # l0 # t3 # t2 # t1 # t0 # v # rest \<Rightarrow>
       if flags = 0x30 \<and> kind = 0xff \<and> be16 l1 l0 = length (v # rest)
       then if unat v div 16 = 4 then Some (Ip4, v # rest)
            else if unat v div 16 = 6 then Some (Ip6, v # rest) else None
       else None
   | _ \<Rightarrow> None)"

fun header :: "layer \<Rightarrow> u8 list \<Rightarrow> (layer \<times> u8 list) option option" where
  "header Ethernet bs = (case drop 12 bs of
     t1 # t0 # rest \<Rightarrow> map_option (\<lambda>l. Some (l, rest)) (ethertype (be16 t1 t0)) | _ \<Rightarrow> None)"
| "header Gre bs = (case bs of
     f1 # f0 # t1 # t0 # rest \<Rightarrow>
       if f1 = 0 \<and> f0 = 0 then map_option (\<lambda>l. Some (l, rest)) (ethertype (be16 t1 t0)) else None
   | _ \<Rightarrow> None)"
| "header Ip4 bs = map_option Some (ip4_header bs)"
| "header Ip6 bs = map_option Some (ip6_header bs)"
| "header Udp bs = map_option Some (udp_header bs)"
| "header Gtp bs = map_option Some (gtp_header bs)"
| "header Arp bs = (if length bs = 28 then Some None else None)"
| "header Icmp bs = (if 8 \<le> length bs \<and> bs ! 0 = 8 \<and> bs ! 1 = 0 then Some None else None)"
| "header Icmp6 bs = (if 8 \<le> length bs \<and> bs ! 0 = 0x80 \<and> bs ! 1 = 0 then Some None else None)"

function layers :: "layer \<Rightarrow> u8 list \<Rightarrow> layer list option" where
  "layers l bs = (case header l bs of
     None \<Rightarrow> None
   | Some None \<Rightarrow> Some [l]
   | Some (Some (l', rest)) \<Rightarrow>
       if length rest < length bs then map_option (Cons l) (layers l' rest) else None)"
  by pat_completeness auto
termination by (relation "measure (\<lambda>(l, bs). length bs)") auto

definition packet_layers :: "u8 list \<Rightarrow> u32 \<Rightarrow> layer list option" where
  "packet_layers data n = do { bs \<leftarrow> exported data n; layers Ethernet bs }"

text \<open>The types of the messages in a BGP stream.\<close>

definition bgp_marker :: "u8 list" where
  "bgp_marker = [0xff, 0xff, 0xff, 0xff, 0xff, 0xff, 0xff, 0xff, 0xff, 0xff, 0xff, 0xff, 0xff, 0xff, 0xff, 0xff]"

function bgp_messages :: "u8 list \<Rightarrow> nat list option" where
  "bgp_messages bs = (if bs = [] then Some []
     else if take 16 bs \<noteq> bgp_marker then None
     else case drop 16 bs of
       l1 # l0 # t # rest \<Rightarrow>
         if 19 \<le> be16 l1 l0 \<and> be16 l1 l0 \<le> length bs
         then map_option (Cons (unat t)) (bgp_messages (drop (be16 l1 l0) bs)) else None
     | _ \<Rightarrow> None)"
  by pat_completeness auto
termination by (relation "measure length") auto

definition bgp_types :: "u8 list \<Rightarrow> u32 \<Rightarrow> nat list option" where
  "bgp_types data n = do { bs \<leftarrow> exported data n; bgp_messages bs }"

lemmas header_simps = ip4_header_def ip6_header_def udp_header_def gtp_header_def be16_def
  ethertype_def ip_protocol_def

declare layers.simps [simp del] bgp_messages.simps [simp del]

lemma layers_steps:
  "header l bs = Some None \<Longrightarrow> layers l bs = Some [l]"
  "header l bs = Some (Some (l', rest)) \<Longrightarrow> length rest < length bs \<Longrightarrow>
     layers l bs = map_option (Cons l) (layers l' rest)"
  "header l bs = None \<Longrightarrow> layers l bs = None"
  by (simp_all add: layers.simps)

lemma exported_all: "unat n = length data \<Longrightarrow> exported data n = Some data"
  by (simp add: exported_def)

lemmas decode_simps = packet_layers_def exported_all fixture_defs layers_steps header_simps

lemma ipv4_packets:
  "packet_layers ipv4_gre_ipv4_icmp_data ipv4_gre_ipv4_icmp_size = Some [Ethernet, Ip4, Gre, Ip4, Icmp]"
  "packet_layers ipv4_opt_gre_ipv4_icmp_data ipv4_opt_gre_ipv4_icmp_size = Some [Ethernet, Ip4, Gre, Ip4, Icmp]"
  "packet_layers ipv4_icmp_data ipv4_icmp_size = Some [Ethernet, Ip4, Icmp]"
  "packet_layers ipv4_udp_gtp_ipv4_icmp_data ipv4_udp_gtp_ipv4_icmp_size = None"
  by (simp_all add: decode_simps)

lemma ipv6_packets:
  "packet_layers ipv4_gre_ipv6_icmpv6_data ipv4_gre_ipv6_icmpv6_size = Some [Ethernet, Ip4, Gre, Ip6, Icmp6]"
  "packet_layers ipv6_icmpv6_data ipv6_icmpv6_size = Some [Ethernet, Ip6, Icmp6]"
  "packet_layers ipv4_udp_gtp_ipv6_icmpv6_data ipv4_udp_gtp_ipv6_icmpv6_size =
     Some [Ethernet, Ip4, Udp, Gtp, Ip6, Icmp6]"
  "packet_layers ipv4_opt_gre_ipv6_icmpv6_data ipv4_opt_gre_ipv6_icmpv6_size = None"
  by (simp_all add: decode_simps)

lemma other_packets:
  "packet_layers arp_data arp_size = Some [Ethernet, Arp]"
  "bgp_types bgp_open_data bgp_open_size = Some [1]"
  "bgp_types bgp_keepalive_update_data bgp_keepalive_update_size = None"
  "bgp_types bgp_keepalive_update_data 19 = Some [4]"
  by (simp_all add: decode_simps bgp_types_def bgp_messages.simps bgp_marker_def exported_def)

section \<open>The digit table\<close>

text \<open>
  A byte of a telephone number holds two digits, the first in its low half; 15 in the high half fills up
  an odd number of digits.  The table gives the two characters, the first in the low byte; the filler is
  shown as the digit 0.
\<close>

definition tbcd_digits :: "u8 \<Rightarrow> (nat \<times> nat) option" where
  "tbcd_digits b = (let first = unat b mod 16; second = unat b div 16 in
     if first \<le> 9 \<and> second \<le> 9 then Some (first, second)
     else if first \<le> 9 \<and> second = 15 then Some (first, 0) else None)"

definition ascii_pair :: "nat \<times> nat \<Rightarrow> u16" where
  "ascii_pair d = of_nat (256 * (0x30 + snd d) + (0x30 + fst d))"

definition e164 :: "u8 \<Rightarrow> u16 option" where
  "e164 b = arr_get e164_data (unat b)"

lemma e164_table:
  "e164_data = map (\<lambda>i. case tbcd_digits (of_nat i) of None \<Rightarrow> 0 | Some d \<Rightarrow> ascii_pair d) [0..<256]"
  by (simp add: e164_data_def upt_rec [of 0] upt_rec [of "Suc 0"] numeral_2_eq_2 [symmetric]
      upt_rec_numeral tbcd_digits_def ascii_pair_def)

section \<open>The properties\<close>

text \<open>
  The exported sizes are those of the arrays, and the packets are what their names say, header by
  header and with length fields that fit.
\<close>

theorem fixture_layers:
  "packet_layers ipv4_gre_ipv4_icmp_data ipv4_gre_ipv4_icmp_size = Some [Ethernet, Ip4, Gre, Ip4, Icmp] \<and>
   packet_layers ipv4_opt_gre_ipv4_icmp_data ipv4_opt_gre_ipv4_icmp_size = Some [Ethernet, Ip4, Gre, Ip4, Icmp] \<and>
   packet_layers ipv4_gre_ipv6_icmpv6_data ipv4_gre_ipv6_icmpv6_size = Some [Ethernet, Ip4, Gre, Ip6, Icmp6] \<and>
   packet_layers ipv6_icmpv6_data ipv6_icmpv6_size = Some [Ethernet, Ip6, Icmp6] \<and>
   packet_layers arp_data arp_size = Some [Ethernet, Arp] \<and>
   packet_layers ipv4_udp_gtp_ipv6_icmpv6_data ipv4_udp_gtp_ipv6_icmpv6_size =
     Some [Ethernet, Ip4, Udp, Gtp, Ip6, Icmp6] \<and>
   packet_layers ipv4_icmp_data ipv4_icmp_size = Some [Ethernet, Ip4, Icmp] \<and>
   bgp_types bgp_open_data bgp_open_size = Some [1]"
  by (simp only: ipv4_packets ipv6_packets other_packets simp_thms)

text \<open>
  Three are not: the GTP length of \<open>ipv4_udp_gtp_ipv4_icmp\<close> says 60 where 28 bytes follow, the
  inner IPv6 length of \<open>ipv4_opt_gre_ipv6_icmpv6\<close> says 110 where 8 bytes follow, and after the KEEPALIVE
  message of \<open>bgp_keepalive_update\<close> the UPDATE message says 52 where 43 bytes are left.
\<close>

theorem fixture_lengths_wrong:
  "packet_layers ipv4_udp_gtp_ipv4_icmp_data ipv4_udp_gtp_ipv4_icmp_size = None \<and>
   packet_layers ipv4_opt_gre_ipv6_icmpv6_data ipv4_opt_gre_ipv6_icmpv6_size = None \<and>
   bgp_types bgp_keepalive_update_data 19 = Some [4] \<and>
   bgp_types bgp_keepalive_update_data bgp_keepalive_update_size = None"
  by (simp only: ipv4_packets ipv6_packets other_packets simp_thms)

text \<open>
  The digit table has an entry for every byte: the two characters of a byte of digits, with the
  filler of an odd number read as the digit 0, and zero for any other byte.
\<close>

theorem e164_digits:
  "e164 b = Some (case tbcd_digits b of None \<Rightarrow> 0 | Some d \<Rightarrow> ascii_pair d)"
proof -
  have "unat b < 256" using unsigned_less [of b] by simp
  then show ?thesis by (simp add: e164_def e164_table)
qed

end
