(* ===== verification/Spec2Isabelle.thy ===== *)
theory Spec2Isabelle
  imports Memcpy Ring_Extra Ring_Threads Lpm_Layout Lcore Ethdev_Ports Ethdev_Limits Mbuf_Edit Mbuf_Linearize Mbuf_Clone_Free
    Mbuf_Threads Mbuf_Pipeline Tap_Kni Fixtures
begin

text \<open>
  Verification library for the C extensions of \<open>dpdk.cr\<close>, the Crystal bindings of DPDK.  The bindings
  call the inline functions of the DPDK headers through the C files of \<open>src/src/ext\<close>, which repeat the
  headers' code, and through small helpers of their own for network interfaces.

  Conventions.  Integers have the width they have in C (\<open>u8\<close>, \<open>u16\<close>, \<open>u32\<close>, \<open>u64\<close>, pointers as
  64-bit words) and wrap around as in C; loop counters that only count up to a bound are naturals.  A
  structure is a record with the fields of the source, shared mutable structures live in explicit
  heaps, and an access outside an array is the value \<^const>\<open>None\<close> (in the interface code
  \<^const>\<open>Undefined\<close>), so that every theorem with a result \<^const>\<open>Some\<close> also says that the code stays
  inside its arrays.  Loops without a bound of their own are \<open>partial_function (option)\<close>; the theorems
  about them state that they return.  No definition uses fuel.  Code that is not in the repository
  is a parameter: its documented behaviour is a locale or a hypothesis, and each has an instance in
  the library that shows it can hold.

  Parts, in the order of the theories.

  Copying memory (\<open>rte_memcpy.c\<close>).  \<^theory_text>\<open>Byte_Memory\<close> is a memory with partial access rights;
  \<^theory_text>\<open>Memcpy_Blocks\<close> holds the copies of fewer than 16 bytes and the block loops, and
  \<^theory_text>\<open>Memcpy_Avx512\<close>, \<^theory_text>\<open>Memcpy_Avx2\<close> and \<^theory_text>\<open>Memcpy_Sse\<close> the three machine
  variants of the movers and of the generic copy.  \<^theory_text>\<open>Memcpy\<close> has the aligned copy over any
  movers (locale \<open>mov_ops\<close>, interpreted three times) and \<open>rte_memcpy\<close>.  All variants are shown to
  copy exactly the \<open>n\<close> bytes for every length and alignment, and the SSE variant to read before its
  source.

  Rings (\<open>rte_ring.c\<close>, \<open>rte_ring_extra.c\<close>).  \<^theory_text>\<open>Ring_Copy\<close> is the unrolled table copy of
  \<open>ENQUEUE_PTRS\<close> and \<open>DEQUEUE_PTRS\<close>; \<^theory_text>\<open>Ring\<close> has the structures and the whole interface.  The
  head and tail movements of \<open>rte_ring_generic.h\<close> are the parameter \<open>ring_sync\<close> with the laws
  \<open>ring_sync_laws\<close>.  \<^theory_text>\<open>Ring_Queue\<close> relates a ring to the list of its objects,
  \<^theory_text>\<open>Bounded_Queue\<close> is the abstract queue, and \<^theory_text>\<open>Ring_Properties\<close> the refinement, with
  32-bit indexes that wrap around freely.  \<^theory_text>\<open>Ring_Extra\<close> is the two-phase dequeue, with the
  consumer interleaved with producers.  \<^theory_text>\<open>Ring_Threads\<close> has any number of producers and
  consumers: an operation is split into the move of the head, the copy and the move of the tail, and
  the steps of different operations interleave (laws \<open>ring_mt_laws\<close>, a stronger contract that gives
  \<open>ring_sync_laws\<close>).  Consumers get the accepted objects once and in order, and no operation is
  blocked for good.

  Longest prefix match (\<open>rte_lpm.c\<close>).  \<^theory_text>\<open>Lpm\<close>: the entry layout, single and bulk lookup,
  against a route table (predicate \<open>represents\<close>); \<^theory_text>\<open>Lpm_Layout\<close>: the layout for either byte
  order, the structures of the 2.0 interface and the limits.  Logical cores (\<open>rte_lcore.c\<close>).  \<^theory_text>\<open>Lcore\<close>:
  the queries and the iteration, with and without wrapping.

  Ethernet devices (\<open>rte_ethdev.c\<close>).  \<^theory_text>\<open>Ethdev\<close> has bursts with callback chains, descriptor
  queries and the transmit buffer over any driver state, and the chain of results that a receive burst
  goes through; \<^theory_text>\<open>Ethdev_Tx\<close> the contract of a transmitting driver (locale \<open>tx_device\<close>) and of
  the transmit callbacks in front of it (locale \<open>tx_path\<close>), interpreted on a device that puts packets on a
  ring of this library, the conservation of packets over any sequence of buffered packets and
  flushes, and its failure behind a callback that consumes packets; \<^theory_text>\<open>Ethdev_Ports\<close> the iteration over ports (locale
  \<open>port_table\<close> for the library's search function) and the flow-type masks.  \<^theory_text>\<open>Ethdev_Conf\<close> has
  the data that ports are configured and described with: link state as one word, queue modes, flags
  that can be told apart when they are combined, and the structures; \<^theory_text>\<open>Ethdev_Limits\<close> the sizes
  (redirection tables split into groups), the remaining flags and the port checks.

  Packet buffers (\<open>rte_mbuf.c\<close>).  \<^theory_text>\<open>Mbuf\<close>: flags, structure, reference counters in both
  builds (locale \<open>ref_counter\<close>), and the offload validation against the
  rules that the documentation of the flags states, four of which it does not enforce.  \<^theory_text>\<open>Mbuf_Chain\<close> is the heap and the
  operations on chains, \<^theory_text>\<open>Mbuf_Packet\<close> their effect on a well-formed packet (predicate
  \<^const>\<open>packet\<close>, bytes \<^const>\<open>pkt_addrs\<close>), and \<^theory_text>\<open>Mbuf_Edit\<close> any sequence of edits at its ends, as a
  refinement of moving two cuts in a list (\<^const>\<open>edit_views\<close>).
  \<^theory_text>\<open>Mbuf_Pool\<close> models allocation, sharing and
  release over any mempool; \<^theory_text>\<open>Mbuf_Alloc\<close>, \<^theory_text>\<open>Mbuf_Share\<close> and
  \<^theory_text>\<open>Mbuf_Clone\<close> prove bulk allocation equal to a simple loop, that a shared buffer is returned
  once and not before its last reference, and the clone.  \<^theory_text>\<open>Mbuf_Clone_Free\<close> frees packets of
  indirect segments: a clone that is freed, or fails for want of mbufs, leaves every other mbuf as it
  was.  \<^theory_text>\<open>Mbuf_Threads\<close> has any number of threads that take, give up and hand over references
  to one mbuf, with the reads and writes of the counter as separate steps: the mbuf is freed exactly
  once, after the last reference, and no operation waits for another.  \<^theory_text>\<open>Mbuf_Linearize\<close>
  composes chains, release and \<open>rte_memcpy\<close>.

  Network interfaces (\<open>ext_netlink.c\<close>, \<open>tap_netlink.c\<close>, \<open>netlink.c\<close>, \<open>tap.c\<close>, \<open>kni.c\<close>).
  \<^theory_text>\<open>Os_Interface\<close>: the outside is a function from the trace of calls to the answer, a run extends
  the trace and returns, leaves the process or is undefined.  \<^theory_text>\<open>Netlink_Bytes\<close> has the wire
  format and the walk by which a receiver reads attributes; \<^theory_text>\<open>Netlink\<close> the address and route
  requests, which the receiver reads back as asked; \<^theory_text>\<open>Net_Setup\<close> the ioctl configuration and
  the route list; \<^theory_text>\<open>Tap_Kni\<close> the two kinds of interface, with the waiting loop of
  \<open>kni_create\<close>, which runs the up/down callback for the requests it handles and is shown to
  return when the kernel brings the interface up, not to return when it never does, and not to notice
  failing ioctls.

  Constant packets (\<open>fixtures.c\<close>, \<open>fixtures_extras.c\<close>).  \<^theory_text>\<open>Fixtures\<close>: the arrays with their
  exported sizes, decoded header by header, and the table of number digits.  Three of the packets have
  length fields that do not fit.

  How the parts meet: the linearization of packets uses the memory copy, clones and frees use the
  reference counters, the transmit buffer is run over a device built on the ring, and the interface
  code uses the netlink requests.  \<^theory_text>\<open>Mbuf_Pipeline\<close> puts mbufs and the ring together: threads allocate,
  edit, chain, send, receive and free packets in any order (locale \<open>mempool\<close> for the pool, interpreted on a list and
  on a pool kept in a ring; locale \<open>mbuf_pipeline\<close> joins it with the laws of the ring), and
  \<^const>\<open>accounted\<close> says that every mbuf is in one place.

  Not modelled.  Functions that are only prototypes in these files (ring, table and pool construction,
  device configuration, dumps) have no code here; the debug build of the mbuf checks
  (\<open>RTE_LIBRTE_MBUF_DEBUG\<close>), prefetches and log output change no state; of the configuration of ports only
  the data is here; \<open>dpdk.c\<close> is empty.  The
  Crystal files (generated bindings, wrappers, examples and specs) are outside the C code.  Memory
  ordering of the processor is not modelled: the moves and the copies of a ring operation are atomic
  steps, as the external functions promise with their barriers, and a thread's reads and writes of a
  reference counter happen in program order.
\<close>

end
